(* ===== verification/Prelude.thy ===== *)
theory Prelude
  imports
    Main
    "HOL-Library.Word"
    "HOL-Library.AList"
    "HOL-Library.Char_ord"
    "HOL-Library.List_Lexorder"
begin

unbundle bit_operations_syntax

text \<open>
  Shared vocabulary of the development: the machine integers of the code, the bytes and
  strings, the exceptions, the two standard containers, and the contract of a component that is
  driven by events.

  \<^item> A \<open>uint8_t\<close> is an \<open>8 word\<close>, a \<open>uint32_t\<close> a \<open>32 word\<close>, and so on; signed integers
    are words too, read with \<open>sint\<close>.
  \<^item> A \<open>std::string\<close> is a list of 8-bit \<open>char\<close>s. The code copies strings into byte
    vectors and back; \<open>bytes_of_str\<close> and \<open>str_of_bytes\<close> are these copies.
  \<^item> A thrown exception is \<open>Inl e\<close>, a normal return \<open>Inr v\<close>. \<open>Undefined\<close> stands for
    undefined behaviour of C++ (an out-of-bounds read, signed overflow, an out-of-range
    floating conversion); \<open>Terminate\<close> for \<open>std::terminate\<close>.
  \<^item> A \<open>std::unordered_map\<close> that is iterated is an association list with distinct keys, in
    the order in which the implementation happens to enumerate it. Assignment to a present key
    keeps the order. The standard leaves the position of a fresh key open; the model appends.
    Every theorem is stated over arbitrary association lists or through \<open>map_of\<close>, so none
    depends on that choice. A container that is only used point-wise is a map.
  \<^item> A \<open>std::map\<close> is an association list kept in ascending order of its keys.
\<close>

type_synonym byte = "8 word"
type_synonym u16 = "16 word"
type_synonym u32 = "32 word"
type_synonym u64 = "64 word"
type_synonym bytes = "byte list"

named_theorems wire_simps \<open>evaluation of the wire-level enumerations\<close>
named_theorems inv_intros \<open>operations preserve their component's invariant\<close>
named_theorems frame_rules \<open>what an operation leaves unchanged\<close>

section \<open>Exceptions and results\<close>

datatype exn =
    DanWSError (err_code: string) (err_message: string)
  | Bad_Variant_Access
  | Invalid_Argument
  | Out_Of_Range
  | System_Error
  | Undefined
  | Terminate

type_synonym 'a res = "exn + 'a"

definition rbind :: "'a res \<Rightarrow> ('a \<Rightarrow> 'b res) \<Rightarrow> 'b res" where
  "rbind r f = (case r of Inl e \<Rightarrow> Inl e | Inr v \<Rightarrow> f v)"

lemma rbind_simps [simp]:
  "rbind (Inl e) f = Inl e"
  "rbind (Inr v) f = f v"
  by (simp_all add: rbind_def)

lemma rbind_eq_Inr: "rbind r f = Inr w \<longleftrightarrow> (\<exists>v. r = Inr v \<and> f v = Inr w)"
  by (cases r) auto

lemma rbind_eq_Inl: "rbind r f = Inl e \<longleftrightarrow> r = Inl e \<or> (\<exists>v. r = Inr v \<and> f v = Inl e)"
  by (cases r) auto

text \<open>Running a fallible body over a sequence, stopping at the first exception.\<close>

fun rfold :: "('a \<Rightarrow> 's \<Rightarrow> 's res) \<Rightarrow> 'a list \<Rightarrow> 's \<Rightarrow> 's res" where
  "rfold f [] s = Inr s"
| "rfold f (x # xs) s = rbind (f x s) (rfold f xs)"

lemma rfold_append: "rfold f (xs @ ys) s = rbind (rfold f xs s) (rfold f ys)"
  by (induction xs arbitrary: s) (auto simp: rbind_def split: sum.splits)

section \<open>Strings and bytes\<close>

definition byte_of_char :: "char \<Rightarrow> byte" where
  "byte_of_char c = word_of_nat (of_char c)"

definition char_of_byte :: "byte \<Rightarrow> char" where
  "char_of_byte b = char_of (unat b)"

definition bytes_of_str :: "string \<Rightarrow> bytes" where
  "bytes_of_str s = map byte_of_char s"

definition str_of_bytes :: "bytes \<Rightarrow> string" where
  "str_of_bytes bs = map char_of_byte bs"

lemma char_of_byte_of_char [simp]: "char_of_byte (byte_of_char c) = c"
  using nat_of_char_less_256 [of c]
  by (simp add: char_of_byte_def byte_of_char_def unat_of_nat)

lemma byte_of_char_of_byte [simp]: "byte_of_char (char_of_byte b) = b"
  using unsigned_less [where w = b, where ?'a = nat]
  by (simp add: char_of_byte_def byte_of_char_def)

lemma str_of_bytes_of_str [simp]: "str_of_bytes (bytes_of_str s) = s"
  by (simp add: str_of_bytes_def bytes_of_str_def o_def)

lemma bytes_of_str_of_bytes [simp]: "bytes_of_str (str_of_bytes bs) = bs"
  by (simp add: str_of_bytes_def bytes_of_str_def o_def)

lemma length_bytes_of_str [simp]: "length (bytes_of_str s) = length s"
  by (simp add: bytes_of_str_def)

lemma length_str_of_bytes [simp]: "length (str_of_bytes bs) = length bs"
  by (simp add: str_of_bytes_def)

section \<open>Containers\<close>

type_synonym ('k, 'v) umap = "('k \<times> 'v) list"

definition um_wf :: "('k, 'v) umap \<Rightarrow> bool" where
  "um_wf m \<longleftrightarrow> distinct (map fst m)"

lemma um_wf_Nil [simp, inv_intros]: "um_wf []"
  by (simp add: um_wf_def)

lemma um_wf_update [simp, inv_intros]: "um_wf m \<Longrightarrow> um_wf (AList.update k v m)"
  by (simp add: um_wf_def distinct_update)

lemma um_wf_delete [simp, inv_intros]: "um_wf m \<Longrightarrow> um_wf (AList.delete k m)"
  by (simp add: um_wf_def distinct_delete)

lemma map_of_update [simp]: "map_of (AList.update k v m) = (map_of m)(k \<mapsto> v)"
  by (rule update_conv')

lemma map_of_delete [simp]: "map_of (AList.delete k m) = (map_of m)(k := None)"
  by (rule delete_conv')

lemma um_lookup_iff: "um_wf m \<Longrightarrow> map_of m k = Some v \<longleftrightarrow> (k, v) \<in> set m"
  by (simp add: um_wf_def)

lemma um_dom: "dom (map_of m) = fst ` set m"
  by (rule dom_map_of_conv_image_fst)

lemma um_length_card: "um_wf m \<Longrightarrow> length m = card (dom (map_of m))"
  by (simp add: um_wf_def dom_map_of_conv_image_fst distinct_card flip: set_map)

lemma length_update_fresh [simp]:
  "map_of m k = None \<Longrightarrow> length (AList.update k v m) = Suc (length m)"
  by (induction m) (auto split: if_splits)

lemma length_update_present [simp]:
  "map_of m k = Some w \<Longrightarrow> length (AList.update k v m) = length m"
  by (induction m) (auto split: if_splits)

lemma set_delete_eq: "set (AList.delete k m) = {x \<in> set m. fst x \<noteq> k}"
  by (auto simp: AList.delete_eq)

text \<open>Insertion into, and removal from, a \<open>std::map\<close>.\<close>

fun om_put :: "'k::linorder \<Rightarrow> 'v \<Rightarrow> ('k \<times> 'v) list \<Rightarrow> ('k \<times> 'v) list" where
  "om_put k v [] = [(k, v)]"
| "om_put k v ((k', v') # m) =
     (if k < k' then (k, v) # (k', v') # m
      else if k = k' then (k, v) # m
      else (k', v') # om_put k v m)"

definition om_del :: "'k::linorder \<Rightarrow> ('k \<times> 'v) list \<Rightarrow> ('k \<times> 'v) list" where
  "om_del k m = filter (\<lambda>p. fst p \<noteq> k) m"

definition om_wf :: "('k::linorder \<times> 'v) list \<Rightarrow> bool" where
  "om_wf m \<longleftrightarrow> sorted_wrt (<) (map fst m)"

lemma om_wf_Nil [simp, inv_intros]: "om_wf []"
  by (simp add: om_wf_def)

lemma set_fst_om_put: "fst ` set (om_put k v m) = insert k (fst ` set m)"
  by (induction k v m rule: om_put.induct) auto

lemma om_wf_put [simp, inv_intros]: "om_wf m \<Longrightarrow> om_wf (om_put k v m)"
proof (induction k v m rule: om_put.induct)
  case (2 k v k' v' m)
  then show ?case
    using set_fst_om_put [of k v m] by (fastforce simp: om_wf_def image_iff)
qed (simp add: om_wf_def)

lemma om_wf_del [simp, inv_intros]: "om_wf m \<Longrightarrow> om_wf (om_del k m)"
  unfolding om_wf_def om_del_def sorted_wrt_map by (rule sorted_wrt_filter)

lemma map_of_om_put [simp]: "om_wf m \<Longrightarrow> map_of (om_put k v m) = (map_of m)(k \<mapsto> v)"
  by (induction k v m rule: om_put.induct) (auto simp: om_wf_def fun_eq_iff)

lemma map_of_om_del [simp]: "map_of (om_del k m) = (map_of m)(k := None)"
  by (induction m) (auto simp: om_del_def fun_eq_iff)

lemma om_wf_um_wf: "om_wf m \<Longrightarrow> um_wf m"
  by (simp add: om_wf_def um_wf_def strict_sorted_iff)

section \<open>Components driven by events\<close>

text \<open>
  The contract between an event-driven component and whoever feeds it: a step function and a
  predicate that every step keeps. What follows for whole runs is proved once, here.
\<close>

locale invariant_machine =
  fixes step :: "'s \<Rightarrow> 'e \<Rightarrow> 's"
    and good :: "'s \<Rightarrow> bool"
  assumes good_step: "good s \<Longrightarrow> good (step s e)"
begin

lemma good_run: "good s \<Longrightarrow> good (foldl step s es)"
  by (induction es arbitrary: s) (auto intro: good_step)

lemma good_prefixes: "good s \<Longrightarrow> n \<le> length es \<Longrightarrow> good (foldl step s (take n es))"
  by (rule good_run)

end

end
