(* ===== verification/Std_Lib.thy ===== *)
theory Std_Lib
  imports Prelude
begin

text \<open>
  The parts of the C++ standard library that the code calls on strings and numbers, as far as it
  uses them: \<open>std::to_string\<close>, hexadecimal and decimal stream output, \<open>std::stoi\<close>,
  \<open>std::stoull\<close>, and the search and substring members of \<open>std::string\<close>. \<open>npos\<close> is
  \<open>None\<close>; positions are naturals.
\<close>

section \<open>Printing and reading numerals\<close>

definition digit_char :: "nat \<Rightarrow> char" where
  "digit_char d = char_of (if d < 10 then 48 + d else 87 + d)"

fun show_base :: "nat \<Rightarrow> nat \<Rightarrow> string" where
  "show_base b n =
     (if b \<le> 1 \<or> n < b then [digit_char n] else show_base b (n div b) @ [digit_char (n mod b)])"

declare show_base.simps [simp del]

definition show_nat :: "nat \<Rightarrow> string" where
  "show_nat n = show_base 10 n"

definition show_int :: "int \<Rightarrow> string" where
  "show_int i = (if i < 0 then CHR ''-'' # show_nat (nat (- i)) else show_nat (nat i))"

definition show_hex :: "nat \<Rightarrow> string" where
  "show_hex n = show_base 16 n"

text \<open>\<open>std::setw(2)\<close> with fill \<open>0\<close>, for a byte.\<close>

definition show_hex2 :: "byte \<Rightarrow> string" where
  "show_hex2 b = (if unat b < 16 then CHR ''0'' # show_hex (unat b) else show_hex (unat b))"

definition char_digit :: "char \<Rightarrow> nat option" where
  "char_digit c = (let n = of_char c in
     if 48 \<le> n \<and> n \<le> 57 then Some (n - 48)
     else if 97 \<le> n \<and> n \<le> 122 then Some (n - 87)
     else if 65 \<le> n \<and> n \<le> 90 then Some (n - 55)
     else None)"

text \<open>The longest run of digits of the base at the front.\<close>

fun lead_digits :: "nat \<Rightarrow> string \<Rightarrow> nat list" where
  "lead_digits b [] = []"
| "lead_digits b (c # cs) =
     (case char_digit c of
        Some d \<Rightarrow> if d < b then d # lead_digits b cs else []
      | None \<Rightarrow> [])"

definition digits_val :: "nat \<Rightarrow> nat list \<Rightarrow> nat" where
  "digits_val b ds = foldl (\<lambda>v d. v * b + d) 0 ds"

definition is_space :: "char \<Rightarrow> bool" where
  "is_space c \<longleftrightarrow> c = CHR '' '' \<or> (9 \<le> (of_char c :: nat) \<and> (of_char c :: nat) \<le> 13)"

text \<open>
  \<open>strtol\<close> and friends: skip white space, an optional sign, then digits; no digits at all is
  \<open>std::invalid_argument\<close>. (The base-16 prefix \<open>0x\<close> is not skipped: on the two-character
  strings the code converts it makes no difference.)
\<close>

definition strto :: "nat \<Rightarrow> string \<Rightarrow> int res" where
  "strto b s =
     (let s' = dropWhile is_space s;
          neg = (case s' of c # _ \<Rightarrow> c = CHR ''-'' | [] \<Rightarrow> False);
          s'' = (case s' of c # cs \<Rightarrow> if c = CHR ''-'' \<or> c = CHR ''+'' then cs else s' | [] \<Rightarrow> []);
          ds = lead_digits b s''
      in if ds = [] then Inl Invalid_Argument
         else Inr (if neg then - int (digits_val b ds) else int (digits_val b ds)))"

definition INT_MAX :: int where "INT_MAX = 2147483647"
definition INT_MIN :: int where "INT_MIN = - 2147483648"

definition stoi_base :: "nat \<Rightarrow> string \<Rightarrow> int res" where
  "stoi_base b s = rbind (strto b s)
     (\<lambda>v. if v < INT_MIN \<or> INT_MAX < v then Inl Out_Of_Range else Inr v)"

definition stoi :: "string \<Rightarrow> int res" where
  "stoi s = stoi_base 10 s"

text \<open>\<open>std::stoull\<close> on a string without a minus sign.\<close>

definition stoull :: "string \<Rightarrow> nat res" where
  "stoull s = rbind (strto 10 s) (\<lambda>v. if 2 ^ 64 \<le> v then Inl Out_Of_Range else Inr (nat v))"

lemma char_digit_digit_char: "d < 36 \<Longrightarrow> char_digit (digit_char d) = Some d"
  by (auto simp: char_digit_def digit_char_def Let_def)

lemma show_base_nonempty [simp]: "show_base b n \<noteq> []"
  by (subst show_base.simps) simp

lemma show_nat_nonempty [simp]: "show_nat n \<noteq> []"
  by (simp add: show_nat_def)

lemma lead_digits_append:
  "(\<And>c. c \<in> set cs \<Longrightarrow> \<exists>d < b. char_digit c = Some d) \<Longrightarrow>
   lead_digits b (cs @ ds) = lead_digits b cs @ lead_digits b ds"
  by (induction cs) (fastforce split: option.splits)+

lemma show_base_digits:
  "1 < b \<Longrightarrow> b \<le> 36 \<Longrightarrow> c \<in> set (show_base b n) \<Longrightarrow> \<exists>d < b. c = digit_char d \<and> char_digit c = Some d"
proof (induction b n rule: show_base.induct)
  case (1 b n)
  show ?case
  proof (cases "n < b")
    case True
    with "1.prems" show ?thesis
      by (subst (asm) show_base.simps) (auto simp: char_digit_digit_char)
  next
    case False
    have "n mod b < b" using "1.prems" by simp
    then have m: "char_digit (digit_char (n mod b)) = Some (n mod b)"
      using "1.prems" by (intro char_digit_digit_char) linarith
    from False "1.prems" consider "c \<in> set (show_base b (n div b))" | "c = digit_char (n mod b)"
      by (subst (asm) (2) show_base.simps) auto
    then show ?thesis
      using False "1.prems" "1.IH" m \<open>n mod b < b\<close> by cases auto
  qed
qed

lemma lead_digits_show_base:
  assumes "1 < b" "b \<le> 36"
  shows "digits_val b (lead_digits b (show_base b n)) = n"
  using assms
proof (induction b n rule: show_base.induct)
  case (1 b n)
  show ?case
  proof (cases "n < b")
    case True
    with "1.prems" show ?thesis
      by (subst show_base.simps) (auto simp: char_digit_digit_char digits_val_def)
  next
    case False
    have m: "n mod b < b" using "1.prems" by simp
    then have d: "char_digit (digit_char (n mod b)) = Some (n mod b)"
      using "1.prems" by (intro char_digit_digit_char) linarith
    have "lead_digits b (show_base b (n div b) @ [digit_char (n mod b)])
        = lead_digits b (show_base b (n div b)) @ lead_digits b [digit_char (n mod b)]"
      using "1.prems" show_base_digits by (intro lead_digits_append) blast
    moreover have "show_base b n = show_base b (n div b) @ [digit_char (n mod b)]"
      using False "1.prems" by (subst show_base.simps) simp
    ultimately show ?thesis
      using "1.IH" "1.prems" False m d by (simp add: digits_val_def)
  qed
qed

lemma lead_digits_stop:
  assumes "1 < b" "b \<le> 36" "rest = [] \<or> (\<forall>d. char_digit (hd rest) = Some d \<longrightarrow> b \<le> d)"
  shows "lead_digits b (show_base b n @ rest) = lead_digits b (show_base b n)"
proof -
  have "lead_digits b rest = []"
    using assms(3) by (cases rest) (auto split: option.splits)
  moreover have "lead_digits b (show_base b n @ rest)
      = lead_digits b (show_base b n) @ lead_digits b rest"
    using assms show_base_digits by (intro lead_digits_append) blast
  ultimately show ?thesis by simp
qed

lemma hd_show_base:
  "1 < b \<Longrightarrow> b \<le> 36 \<Longrightarrow> \<exists>d < b. hd (show_base b n) = digit_char d"
  using show_base_digits [of b "hd (show_base b n)" n] by auto

lemma digit_char_not_special:
  "d < 36 \<Longrightarrow> \<not> is_space (digit_char d) \<and> digit_char d \<noteq> CHR ''-'' \<and> digit_char d \<noteq> CHR ''+''
     \<and> digit_char d \<noteq> CHR ''.''"
proof -
  assume "d < 36"
  then have "char_digit (digit_char d) = Some d"
    by (rule char_digit_digit_char)
  then show ?thesis
    by (auto simp: is_space_def char_digit_def Let_def split: if_splits)
qed

theorem strto_show_base:
  assumes "1 < b" "b \<le> 36" "rest = [] \<or> (\<forall>d. char_digit (hd rest) = Some d \<longrightarrow> b \<le> d)"
  shows "strto b (show_base b n @ rest) = Inr (int n)"
proof -
  obtain d where d: "d < b" "hd (show_base b n) = digit_char d"
    using hd_show_base assms by blast
  then obtain cs where s: "show_base b n = digit_char d # cs"
    by (metis list.collapse show_base_nonempty)
  have sp: "\<not> is_space (digit_char d)" "digit_char d \<noteq> CHR ''-''" "digit_char d \<noteq> CHR ''+''"
    using digit_char_not_special [of d] d assms by auto
  have l: "lead_digits b (digit_char d # cs @ rest) = lead_digits b (show_base b n)"
    using lead_digits_stop [OF assms, of n] s by simp
  moreover have "lead_digits b (show_base b n) \<noteq> []"
    using d assms s by (simp add: char_digit_digit_char)
  ultimately show ?thesis
    using lead_digits_show_base [of b n] assms sp
    by (simp add: strto_def s Let_def)
qed

lemma stoi_show_nat [simp]: "int n \<le> INT_MAX \<Longrightarrow> stoi (show_nat n) = Inr (int n)"
  using strto_show_base [of 10 "[]" n]
  by (simp add: stoi_def stoi_base_def show_nat_def INT_MIN_def INT_MAX_def)

lemma stoi_show_int [simp]: "0 \<le> i \<Longrightarrow> i \<le> INT_MAX \<Longrightarrow> stoi (show_int i) = Inr i"
  by (simp add: show_int_def)

lemma show_nat_val: "digits_val 10 (lead_digits 10 (show_nat n)) = n"
  by (simp add: show_nat_def lead_digits_show_base)

lemma show_nat_inj [simp]: "show_nat m = show_nat n \<longleftrightarrow> m = n"
  by (metis show_nat_val)

lemma dot_notin_show_nat [simp]: "CHR ''.'' \<notin> set (show_nat n)"
proof
  assume "CHR ''.'' \<in> set (show_nat n)"
  then obtain d where "d < 10" "CHR ''.'' = digit_char d"
    using show_base_digits [of 10 "CHR ''.''" n] by (auto simp: show_nat_def)
  then show False
    using digit_char_not_special [of d] by simp
qed

section \<open>Searching and slicing strings\<close>

text \<open>\<open>s.substr(pos, n)\<close> with \<open>pos \<le> s.size()\<close>, which holds at every call of the code.\<close>

definition substr :: "string \<Rightarrow> nat \<Rightarrow> nat \<Rightarrow> string" where
  "substr s pos n = take n (drop pos s)"

definition is_prefix_of :: "string \<Rightarrow> string \<Rightarrow> bool" where
  "is_prefix_of p s \<longleftrightarrow> take (length p) s = p"

text \<open>\<open>s.find(p)\<close>, \<open>s.rfind(p)\<close>: first and last occurrence.\<close>

fun str_find :: "string \<Rightarrow> string \<Rightarrow> nat option" where
  "str_find p [] = (if p = [] then Some 0 else None)"
| "str_find p (c # cs) =
     (if is_prefix_of p (c # cs) then Some 0 else map_option Suc (str_find p cs))"

fun str_rfind :: "string \<Rightarrow> string \<Rightarrow> nat option" where
  "str_rfind p [] = (if p = [] then Some 0 else None)"
| "str_rfind p (c # cs) =
     (case str_rfind p cs of
        Some i \<Rightarrow> Some (Suc i)
      | None \<Rightarrow> if is_prefix_of p (c # cs) then Some 0 else None)"

text \<open>\<open>s.find(p, from)\<close>.\<close>

definition str_find_from :: "string \<Rightarrow> string \<Rightarrow> nat \<Rightarrow> nat option" where
  "str_find_from p s from = map_option (\<lambda>i. i + from) (str_find p (drop from s))"

text \<open>\<open>s.find_last_not_of(c)\<close>.\<close>

fun find_last_not_of :: "char \<Rightarrow> string \<Rightarrow> nat option" where
  "find_last_not_of c [] = None"
| "find_last_not_of c (d # ds) =
     (case find_last_not_of c ds of
        Some i \<Rightarrow> Some (Suc i)
      | None \<Rightarrow> if d \<noteq> c then Some 0 else None)"

lemma is_prefix_of_append [simp]: "is_prefix_of p (p @ s)"
  by (simp add: is_prefix_of_def)

lemma is_prefix_of_iff: "is_prefix_of p s \<longleftrightarrow> (\<exists>r. s = p @ r)"
  unfolding is_prefix_of_def by (metis append_eq_conv_conj append_take_drop_id)

lemma str_find_char_Some:
  "c \<notin> set xs \<Longrightarrow> str_find [c] (xs @ c # ys) = Some (length xs)"
  by (induction xs) (auto simp: is_prefix_of_def)

lemma str_find_char_None: "c \<notin> set xs \<Longrightarrow> str_find [c] xs = None"
  by (induction xs) (auto simp: is_prefix_of_def)

lemma str_find_prefix: "p \<noteq> [] \<Longrightarrow> str_find p s = Some 0 \<longleftrightarrow> is_prefix_of p s"
  by (cases s) (auto simp: is_prefix_of_def)

end
