(* ===== verification/Wire_Types.thy ===== *)
theory Wire_Types
  imports Std_Lib
begin

text \<open>
  \<open>protocol/types.h\<close>: the enumerations of the protocol, the payload variant and the frame.

  The enumerations have the underlying type \<open>uint8_t\<close>, and the decoder casts any byte to
  them, so a value need not be one of the enumerators: \<open>DT_Other b\<close> and \<open>FT_Other b\<close> are
  such values. A value is canonical when it is the one that its byte is read back as.
  Floating-point payloads are carried by their IEEE-754 bit patterns, which is all that the
  protocol layer transports (\<open>std::memcpy\<close> in the serializer).
\<close>

definition DLE :: byte where "DLE = 0x10"
definition STX :: byte where "STX = 0x02"
definition ETX :: byte where "ETX = 0x03"
definition ENQ :: byte where "ENQ = 0x05"

lemmas ctrl_defs = DLE_def STX_def ETX_def ENQ_def

lemma ctrl_distinct [simp]:
  "DLE \<noteq> STX" "DLE \<noteq> ETX" "DLE \<noteq> ENQ" "STX \<noteq> DLE" "STX \<noteq> ETX" "STX \<noteq> ENQ"
  "ETX \<noteq> DLE" "ETX \<noteq> STX" "ETX \<noteq> ENQ" "ENQ \<noteq> DLE" "ENQ \<noteq> STX" "ENQ \<noteq> ETX"
  by (simp_all add: ctrl_defs)

datatype data_type =
    DT_Null | DT_Bool | DT_Uint8 | DT_Uint16 | DT_Uint32 | DT_Uint64 | DT_Int32 | DT_Int64
  | DT_Float32 | DT_Float64 | DT_String | DT_Binary | DT_Timestamp | DT_VarInteger
  | DT_VarDouble | DT_VarFloat | DT_Other byte

fun data_type_byte :: "data_type \<Rightarrow> byte" where
  "data_type_byte DT_Null = 0x00"
| "data_type_byte DT_Bool = 0x01"
| "data_type_byte DT_Uint8 = 0x02"
| "data_type_byte DT_Uint16 = 0x03"
| "data_type_byte DT_Uint32 = 0x04"
| "data_type_byte DT_Uint64 = 0x05"
| "data_type_byte DT_Int32 = 0x06"
| "data_type_byte DT_Int64 = 0x07"
| "data_type_byte DT_Float32 = 0x08"
| "data_type_byte DT_Float64 = 0x09"
| "data_type_byte DT_String = 0x0A"
| "data_type_byte DT_Binary = 0x0B"
| "data_type_byte DT_Timestamp = 0x0C"
| "data_type_byte DT_VarInteger = 0x0D"
| "data_type_byte DT_VarDouble = 0x0E"
| "data_type_byte DT_VarFloat = 0x0F"
| "data_type_byte (DT_Other b) = b"

definition data_type_of_byte :: "byte \<Rightarrow> data_type" where
  "data_type_of_byte b =
     (case map_of (map (\<lambda>dt. (data_type_byte dt, dt))
        [DT_Null, DT_Bool, DT_Uint8, DT_Uint16, DT_Uint32, DT_Uint64, DT_Int32, DT_Int64,
         DT_Float32, DT_Float64, DT_String, DT_Binary, DT_Timestamp, DT_VarInteger,
         DT_VarDouble, DT_VarFloat]) b of
        Some dt \<Rightarrow> dt
      | None \<Rightarrow> DT_Other b)"

datatype frame_type =
    ServerKeyRegistration | ServerValue | ClientKeyRegistration | ClientValue | ServerSync
  | ClientReady | ClientSync | ServerReady | FT_Error | ServerReset | ClientResyncReq
  | ClientReset | ServerResyncReq | Identify | Auth | AuthOk | AuthFail | ArrayShiftLeft
  | ArrayShiftRight | ServerKeyDelete | ClientKeyRequest | ServerFlushEnd | FT_Other byte

fun frame_type_byte :: "frame_type \<Rightarrow> byte" where
  "frame_type_byte ServerKeyRegistration = 0x00"
| "frame_type_byte ServerValue = 0x01"
| "frame_type_byte ClientKeyRegistration = 0x02"
| "frame_type_byte ClientValue = 0x03"
| "frame_type_byte ServerSync = 0x04"
| "frame_type_byte ClientReady = 0x05"
| "frame_type_byte ClientSync = 0x06"
| "frame_type_byte ServerReady = 0x07"
| "frame_type_byte FT_Error = 0x08"
| "frame_type_byte ServerReset = 0x09"
| "frame_type_byte ClientResyncReq = 0x0A"
| "frame_type_byte ClientReset = 0x0B"
| "frame_type_byte ServerResyncReq = 0x0C"
| "frame_type_byte Identify = 0x0D"
| "frame_type_byte Auth = 0x0E"
| "frame_type_byte AuthOk = 0x0F"
| "frame_type_byte AuthFail = 0x11"
| "frame_type_byte ArrayShiftLeft = 0x20"
| "frame_type_byte ArrayShiftRight = 0x21"
| "frame_type_byte ServerKeyDelete = 0x22"
| "frame_type_byte ClientKeyRequest = 0x23"
| "frame_type_byte ServerFlushEnd = 0xFF"
| "frame_type_byte (FT_Other b) = b"

definition frame_type_of_byte :: "byte \<Rightarrow> frame_type" where
  "frame_type_of_byte b =
     (case map_of (map (\<lambda>ft. (frame_type_byte ft, ft))
        [ServerKeyRegistration, ServerValue, ClientKeyRegistration, ClientValue, ServerSync,
         ClientReady, ClientSync, ServerReady, FT_Error, ServerReset, ClientResyncReq,
         ClientReset, ServerResyncReq, Identify, Auth, AuthOk, AuthFail, ArrayShiftLeft,
         ArrayShiftRight, ServerKeyDelete, ClientKeyRequest, ServerFlushEnd]) b of
        Some ft \<Rightarrow> ft
      | None \<Rightarrow> FT_Other b)"

lemma data_type_byte_of_byte [simp]: "data_type_byte (data_type_of_byte b) = b"
  by (auto simp: data_type_of_byte_def dest!: map_of_SomeD split: option.splits)

lemma frame_type_byte_of_byte [simp]: "frame_type_byte (frame_type_of_byte b) = b"
  by (auto simp: frame_type_of_byte_def dest!: map_of_SomeD split: option.splits)

definition dt_canonical :: "data_type \<Rightarrow> bool" where
  "dt_canonical dt \<longleftrightarrow> data_type_of_byte (data_type_byte dt) = dt"

definition ft_canonical :: "frame_type \<Rightarrow> bool" where
  "ft_canonical ft \<longleftrightarrow> frame_type_of_byte (frame_type_byte ft) = ft"

lemma dt_canonical_enum [simp]: "(\<And>b. dt \<noteq> DT_Other b) \<Longrightarrow> dt_canonical dt"
  by (cases dt) (simp_all add: dt_canonical_def data_type_of_byte_def)

lemma ft_canonical_enum [simp]: "(\<And>b. ft \<noteq> FT_Other b) \<Longrightarrow> ft_canonical ft"
  by (cases ft) (simp_all add: ft_canonical_def frame_type_of_byte_def)

lemma dt_canonical_of_byte [simp]: "dt_canonical (data_type_of_byte b)"
  by (simp add: dt_canonical_def)

lemma ft_canonical_of_byte [simp]: "ft_canonical (frame_type_of_byte b)"
  by (simp add: ft_canonical_def)

text \<open>The payload variant, one constructor per alternative.\<close>

datatype payload =
    PNull
  | PBool bool
  | PUint8 byte
  | PUint16 u16
  | PUint32 u32
  | PUint64 u64
  | PInt32 u32
  | PInt64 u64
  | PFloat u32
  | PDouble u64
  | PString string
  | PBinary bytes

record frame =
  frameType :: frame_type
  keyId :: u32
  dataType :: data_type
  payload :: payload

definition mk_frame :: "frame_type \<Rightarrow> u32 \<Rightarrow> data_type \<Rightarrow> payload \<Rightarrow> frame" where
  "mk_frame ft k dt p = \<lparr>frameType = ft, keyId = k, dataType = dt, payload = p\<rparr>"

lemma mk_frame_simps [simp]:
  "frameType (mk_frame ft k dt p) = ft"
  "keyId (mk_frame ft k dt p) = k"
  "dataType (mk_frame ft k dt p) = dt"
  "payload (mk_frame ft k dt p) = p"
  by (simp_all add: mk_frame_def)

lemma mk_frame_eq_iff [simp]:
  "mk_frame ft k dt p = mk_frame ft' k' dt' p' \<longleftrightarrow> ft = ft' \<and> k = k' \<and> dt = dt' \<and> p = p'"
  by (simp add: mk_frame_def)

lemma frame_collapse [simp]:
  "mk_frame (frameType f) (keyId f) (dataType f) (payload f) = f"
  by (simp add: mk_frame_def)

fun isSignalFrame :: "frame_type \<Rightarrow> bool" where
  "isSignalFrame ServerSync = True"
| "isSignalFrame ClientReady = True"
| "isSignalFrame ClientSync = True"
| "isSignalFrame ServerReady = True"
| "isSignalFrame ServerReset = True"
| "isSignalFrame ClientResyncReq = True"
| "isSignalFrame ClientReset = True"
| "isSignalFrame ServerResyncReq = True"
| "isSignalFrame AuthOk = True"
| "isSignalFrame ServerFlushEnd = True"
| "isSignalFrame ServerKeyDelete = True"
| "isSignalFrame ClientKeyRequest = True"
| "isSignalFrame _ = False"

definition isKeyRegistrationFrame :: "frame_type \<Rightarrow> bool" where
  "isKeyRegistrationFrame ft \<longleftrightarrow> ft = ServerKeyRegistration \<or> ft = ClientKeyRegistration"

lemma signal_not_registration: "isSignalFrame ft \<Longrightarrow> \<not> isKeyRegistrationFrame ft"
  by (cases ft) (simp_all add: isKeyRegistrationFrame_def)

fun dataTypeSize :: "data_type \<Rightarrow> int" where
  "dataTypeSize DT_Null = 0"
| "dataTypeSize DT_Bool = 1"
| "dataTypeSize DT_Uint8 = 1"
| "dataTypeSize DT_Uint16 = 2"
| "dataTypeSize DT_Uint32 = 4"
| "dataTypeSize DT_Uint64 = 8"
| "dataTypeSize DT_Int32 = 4"
| "dataTypeSize DT_Int64 = 8"
| "dataTypeSize DT_Float32 = 4"
| "dataTypeSize DT_Float64 = 8"
| "dataTypeSize DT_Timestamp = 8"
| "dataTypeSize _ = -1"

text \<open>
  \<open>FlatState::detectDataType\<close>: the wire type chosen for a value.
\<close>

fun detectDataType :: "payload \<Rightarrow> data_type" where
  "detectDataType PNull = DT_Null"
| "detectDataType (PBool _) = DT_Bool"
| "detectDataType (PUint8 _) = DT_Uint8"
| "detectDataType (PUint16 _) = DT_Uint16"
| "detectDataType (PUint32 _) = DT_Uint32"
| "detectDataType (PUint64 _) = DT_Uint64"
| "detectDataType (PInt32 _) = DT_VarInteger"
| "detectDataType (PInt64 _) = DT_Int64"
| "detectDataType (PFloat _) = DT_VarFloat"
| "detectDataType (PDouble _) = DT_VarDouble"
| "detectDataType (PString _) = DT_String"
| "detectDataType (PBinary _) = DT_Binary"

lemma detectDataType_canonical [simp]: "dt_canonical (detectDataType p)"
  by (cases p) simp_all

text \<open>The signal frames that the server and the client build inline.\<close>

abbreviation signal :: "frame_type \<Rightarrow> u32 \<Rightarrow> frame" where
  "signal ft k \<equiv> mk_frame ft k DT_Null PNull"

end
