(* ===== verification/Ieee.thy ===== *)
theory Ieee
  imports Wire_Types "HOL-Library.Code_Target_Nat"
begin

text \<open>
  The floating-point operations of the serializer, on IEEE-754 bit patterns: classification,
  the exact value as a fraction of naturals, correct rounding (to nearest, ties to even) of a
  fraction to binary64 or binary32, conversions, division, and stream output with
  \<open>std::setprecision(17)\<close>, which is \<open>printf\<close>'s \<open>%.17g\<close>. Everything is exact integer
  arithmetic. \<open>std::pow(10.0, k)\<close> is taken to be correctly rounded; it is exact for
  \<open>k \<le> 22\<close>.
\<close>

text \<open>Powers are computed by repeated squaring.\<close>

fun fast_pow :: "nat \<Rightarrow> nat \<Rightarrow> nat" where
  "fast_pow b k =
     (if k = 0 then 1
      else let h = fast_pow b (k div 2); q = h * h in if even k then q else b * q)"

declare fast_pow.simps [simp del]

lemma fast_pow_power [code_unfold]: "b ^ k = fast_pow b k"
proof (induction b k rule: fast_pow.induct)
  case (1 b k)
  have "b ^ k = b ^ (k div 2) * b ^ (k div 2) * b ^ (k mod 2)"
    by (simp flip: power_add mult_2)
  then show ?case
    using 1 by (subst fast_pow.simps) (auto simp: Let_def even_iff_mod_2_eq_zero odd_iff_mod_2_eq_one)
qed

section \<open>Classification and exact value\<close>

definition d_signbit :: "u64 \<Rightarrow> bool" where
  "d_signbit b = bit b 63"

definition d_exponent :: "u64 \<Rightarrow> nat" where
  "d_exponent b = unat (drop_bit 52 b AND 0x7FF)"

definition d_fraction :: "u64 \<Rightarrow> nat" where
  "d_fraction b = unat (b AND 0xFFFFFFFFFFFFF)"

definition d_isfinite :: "u64 \<Rightarrow> bool" where
  "d_isfinite b \<longleftrightarrow> d_exponent b \<noteq> 2047"

definition d_isnan :: "u64 \<Rightarrow> bool" where
  "d_isnan b \<longleftrightarrow> d_exponent b = 2047 \<and> d_fraction b \<noteq> 0"

definition d_iszero :: "u64 \<Rightarrow> bool" where
  "d_iszero b \<longleftrightarrow> d_exponent b = 0 \<and> d_fraction b = 0"

text \<open>\<open>std::abs\<close> and unary minus: the sign bit is cleared or flipped.\<close>

definition d_abs :: "u64 \<Rightarrow> u64" where
  "d_abs b = b AND 0x7FFFFFFFFFFFFFFF"

definition d_neg :: "u64 \<Rightarrow> u64" where
  "d_neg b = b XOR 0x8000000000000000"

text \<open>\<open>value < 0\<close>: false for zeros of both signs and for NaN.\<close>

definition d_less_zero :: "u64 \<Rightarrow> bool" where
  "d_less_zero b \<longleftrightarrow> d_signbit b \<and> \<not> d_iszero b \<and> \<not> d_isnan b"

text \<open>The magnitude of a finite value is \<open>fst / snd\<close>.\<close>

definition scale_frac :: "nat \<Rightarrow> int \<Rightarrow> nat \<times> nat" where
  "scale_frac m e = (if 0 \<le> e then (m * 2 ^ nat e, 1) else (m, 2 ^ nat (- e)))"

definition d_magnitude :: "u64 \<Rightarrow> nat \<times> nat" where
  "d_magnitude b =
     (if d_exponent b = 0 then scale_frac (d_fraction b) (- 1074)
      else scale_frac (d_fraction b + 2 ^ 52) (int (d_exponent b) - 1075))"

section \<open>Rounding\<close>

definition round_half_even :: "nat \<Rightarrow> nat \<Rightarrow> nat" where
  "round_half_even n d =
     (let q = n div d; r = n mod d
      in if 2 * r < d then q else if d < 2 * r then Suc q else if even q then q else Suc q)"

text \<open>The number of binary digits of a natural.\<close>

fun bit_len :: "nat \<Rightarrow> nat" where
  "bit_len n = (if n = 0 then 0 else Suc (bit_len (n div 2)))"

declare bit_len.simps [simp del]

text \<open>How often a proper fraction must be multiplied by \<open>b\<close> to reach one.\<close>

function lead_zeros :: "nat \<Rightarrow> nat \<Rightarrow> nat \<Rightarrow> nat" where
  "lead_zeros b n d =
     (if n = 0 \<or> b \<le> 1 \<or> d \<le> n then 0 else Suc (lead_zeros b (b * n) d))"
  by pat_completeness auto
termination
proof (relation "measure (\<lambda>(b, n, d). d - n)")
  fix b n d :: nat
  assume "\<not> (n = 0 \<or> b \<le> 1 \<or> d \<le> n)"
  then have "n < b * n" "n < d" by auto
  from diff_less_mono2 [OF this]
  show "((b, b * n, d), b, n, d) \<in> measure (\<lambda>(b, n, d). d - n)" by simp
qed simp

declare lead_zeros.simps [simp del]

text \<open>\<open>floor (log2 (n / d))\<close> and \<open>floor (log10 (n / d))\<close> of a positive fraction.\<close>

definition log2_frac :: "nat \<Rightarrow> nat \<Rightarrow> int" where
  "log2_frac n d =
     (if d \<le> n then int (bit_len (n div d)) - 1 else - int (lead_zeros 2 n d))"

definition log10_frac :: "nat \<Rightarrow> nat \<Rightarrow> int" where
  "log10_frac n d =
     (if d \<le> n then int (length (show_nat (n div d))) - 1 else - int (lead_zeros 10 n d))"

text \<open>
  The bit pattern (without sign) of a fraction rounded to a format with \<open>p\<close> bits of precision
  and least exponent \<open>emin\<close>; \<open>infbits\<close> is the pattern of infinity. The rounded significand is
  added to the exponent field, so that a carry moves to the next binade by itself.
\<close>

definition round_frac :: "nat \<Rightarrow> int \<Rightarrow> nat \<Rightarrow> nat \<Rightarrow> nat \<Rightarrow> nat" where
  "round_frac p emin infbits n d =
     (if n = 0 then 0
      else let e = max emin (log2_frac n d - int p + 1);
               m = (if 0 \<le> e then round_half_even n (d * 2 ^ nat e)
                    else round_half_even (n * 2 ^ nat (- e)) d)
           in min infbits (m + nat (e - emin) * 2 ^ (p - 1)))"

definition round_double :: "nat \<Rightarrow> nat \<Rightarrow> u64" where
  "round_double n d = word_of_nat (round_frac 53 (- 1074) 0x7FF0000000000000 n d)"

definition round_float :: "nat \<Rightarrow> nat \<Rightarrow> u32" where
  "round_float n d = word_of_nat (round_frac 24 (- 149) 0x7F800000 n d)"

section \<open>Conversions and arithmetic\<close>

text \<open>\<open>static_cast<uint64_t>(x)\<close> of a finite \<open>x \<ge> 0\<close>: undefined when it does not fit.\<close>

definition double_to_u64 :: "u64 \<Rightarrow> u64 res" where
  "double_to_u64 b =
     (let (n, d) = d_magnitude b; q = n div d
      in if q < 2 ^ 64 then Inr (word_of_nat q) else Inl Undefined)"

text \<open>\<open>static_cast<int64_t>(x)\<close>: truncation, undefined when it does not fit.\<close>

definition double_to_i64 :: "u64 \<Rightarrow> u64 res" where
  "double_to_i64 b =
     (if \<not> d_isfinite b then Inl Undefined
      else let (n, d) = d_magnitude b; q = int (n div d); v = (if d_signbit b then - q else q)
           in if - (2 ^ 63) \<le> v \<and> v < 2 ^ 63 then Inr (word_of_int v) else Inl Undefined)"

text \<open>\<open>static_cast<double>(n)\<close> of an unsigned integer.\<close>

definition u64_to_double :: "u64 \<Rightarrow> u64" where
  "u64_to_double w = round_double (unat w) 1"

definition pow10 :: "nat \<Rightarrow> u64" where
  "pow10 k = round_double (10 ^ k) 1"

text \<open>Division of a finite non-negative double by a finite positive one.\<close>

definition d_div :: "u64 \<Rightarrow> u64 \<Rightarrow> u64" where
  "d_div a b =
     (let (na, da) = d_magnitude a; (nb, db) = d_magnitude b
      in round_double (na * db) (da * nb))"

definition f_exponent :: "u32 \<Rightarrow> nat" where
  "f_exponent b = unat (drop_bit 23 b AND 0xFF)"

definition f_fraction :: "u32 \<Rightarrow> nat" where
  "f_fraction b = unat (b AND 0x7FFFFF)"

definition f_signbit :: "u32 \<Rightarrow> bool" where
  "f_signbit b = bit b 31"

definition f_isfinite :: "u32 \<Rightarrow> bool" where
  "f_isfinite b \<longleftrightarrow> f_exponent b \<noteq> 255"

definition f_iszero :: "u32 \<Rightarrow> bool" where
  "f_iszero b \<longleftrightarrow> f_exponent b = 0 \<and> f_fraction b = 0"

definition f_magnitude :: "u32 \<Rightarrow> nat \<times> nat" where
  "f_magnitude b =
     (if f_exponent b = 0 then scale_frac (f_fraction b) (- 149)
      else scale_frac (f_fraction b + 2 ^ 23) (int (f_exponent b) - 150))"

text \<open>
  The two conversions between the formats. A NaN keeps its sign and the leading bits of its
  payload and becomes quiet, as the hardware conversions do.
\<close>

definition double_to_float :: "u64 \<Rightarrow> u32" where
  "double_to_float b =
     (let s = (if d_signbit b then 0x80000000 else 0 :: u32)
      in if d_isnan b then s OR 0x7FC00000 OR word_of_nat (d_fraction b div 2 ^ 29)
         else if \<not> d_isfinite b then s OR 0x7F800000
         else let (n, d) = d_magnitude b in s OR round_float n d)"

definition float_to_double :: "u32 \<Rightarrow> u64" where
  "float_to_double b =
     (let s = (if f_signbit b then 0x8000000000000000 else 0 :: u64)
      in if \<not> f_isfinite b
         then (if f_fraction b = 0 then s OR 0x7FF0000000000000
               else s OR 0x7FF8000000000000 OR word_of_nat (f_fraction b * 2 ^ 29))
         else let (n, d) = f_magnitude b in s OR round_double n d)"

section \<open>Stream output with seventeen significant digits\<close>

definition strip_zeros :: "string \<Rightarrow> string" where
  "strip_zeros s = rev (dropWhile (\<lambda>c. c = CHR ''0'') (rev s))"

text \<open>The seventeen-digit integer and the decimal exponent of a positive fraction.\<close>

definition sig17 :: "nat \<Rightarrow> nat \<Rightarrow> nat \<times> int" where
  "sig17 n d =
     (let x = log10_frac n d;
          m = (if x \<le> 16 then round_half_even (n * 10 ^ nat (16 - x)) d
               else round_half_even n (d * 10 ^ nat (x - 16)))
      in if m = 10 ^ 17 then (10 ^ 16, x + 1) else (m, x))"

definition with_point :: "string \<Rightarrow> string \<Rightarrow> string" where
  "with_point i f = (let g = strip_zeros f in if g = [] then i else i @ ''.'' @ g)"

definition show_exponent :: "int \<Rightarrow> string" where
  "show_exponent x =
     ''e'' @ (if x < 0 then ''-'' else ''+'')
       @ (let k = nat \<bar>x\<bar> in if k < 10 then CHR ''0'' # show_nat k else show_nat k)"

definition show_frac17 :: "nat \<Rightarrow> nat \<Rightarrow> string" where
  "show_frac17 n d =
     (if n = 0 then ''0''
      else let (m, x) = sig17 n d; ds = show_nat m
           in if - 4 \<le> x \<and> x < 17
              then (if 0 \<le> x
                    then with_point (take (nat x + 1) ds) (drop (nat x + 1) ds)
                    else with_point ''0'' (replicate (nat (- x) - 1) CHR ''0'' @ ds))
              else with_point (take 1 ds) (drop 1 ds) @ show_exponent x)"

text \<open>\<open>oss << std::setprecision(17) << x\<close> for a finite \<open>x \<ge> 0\<close>.\<close>

definition show_double17 :: "u64 \<Rightarrow> string" where
  "show_double17 b = (let (n, d) = d_magnitude b in show_frac17 n d)"

end
