(* ===== verification/Serializer.thy ===== *)
theory Serializer
  imports Ieee
begin

text \<open>
  \<open>protocol/serializer.cpp\<close>: big-endian integers, the variable-length integers, the decimal
  encodings of doubles and floats, and \<open>serialize\<close> / \<open>deserialize\<close> over all data types.
  Output vectors are passed in and returned extended. A read through the data pointer goes
  through \<open>byte_at\<close>, which is \<open>Undefined\<close> past the end, so that memory safety of the decoder
  is a statement of the model.
\<close>

definition byte_at :: "bytes \<Rightarrow> nat \<Rightarrow> byte res" where
  "byte_at data i = (if i < length data then Inr (data ! i) else Inl Undefined)"

section \<open>Big-endian integers\<close>

definition writeBE16 :: "bytes \<Rightarrow> u16 \<Rightarrow> bytes" where
  "writeBE16 out v = out @ [ucast (drop_bit 8 v AND 0xFF), ucast (v AND 0xFF)]"

definition writeBE32 :: "bytes \<Rightarrow> u32 \<Rightarrow> bytes" where
  "writeBE32 out v = out @ [ucast (drop_bit 24 v AND 0xFF), ucast (drop_bit 16 v AND 0xFF),
     ucast (drop_bit 8 v AND 0xFF), ucast (v AND 0xFF)]"

definition writeBE64 :: "bytes \<Rightarrow> u64 \<Rightarrow> bytes" where
  "writeBE64 out v =
     foldl (\<lambda>out i. out @ [ucast (drop_bit (i * 8) v AND 0xFF)]) out [7, 6, 5, 4, 3, 2, 1, 0]"

definition readBE16 :: "bytes \<Rightarrow> nat \<Rightarrow> u16 res" where
  "readBE16 data off =
     rbind (byte_at data off) (\<lambda>b0. rbind (byte_at data (off + 1)) (\<lambda>b1.
       Inr (ucast (push_bit 8 (ucast b0 :: u32) OR ucast b1))))"

definition readBE32 :: "bytes \<Rightarrow> nat \<Rightarrow> u32 res" where
  "readBE32 data off =
     rbind (byte_at data off) (\<lambda>b0. rbind (byte_at data (off + 1)) (\<lambda>b1.
       rbind (byte_at data (off + 2)) (\<lambda>b2. rbind (byte_at data (off + 3)) (\<lambda>b3.
         Inr (push_bit 24 (ucast b0) OR push_bit 16 (ucast b1) OR push_bit 8 (ucast b2)
              OR ucast b3)))))"

definition readBE64 :: "bytes \<Rightarrow> nat \<Rightarrow> u64 res" where
  "readBE64 data off =
     rfold (\<lambda>i r. rbind (byte_at data (off + i)) (\<lambda>b. Inr (push_bit 8 r OR ucast b)))
       [0, 1, 2, 3, 4, 5, 6, 7] 0"

text \<open>A floating-point value is its bit pattern here, so that the \<open>memcpy\<close> into an integer is the identity.\<close>

definition writeFloat32BE :: "bytes \<Rightarrow> u32 \<Rightarrow> bytes" where
  [simp]: "writeFloat32BE out v = (let bits = v in writeBE32 out bits)"

definition writeFloat64BE :: "bytes \<Rightarrow> u64 \<Rightarrow> bytes" where
  [simp]: "writeFloat64BE out v = (let bits = v in writeBE64 out bits)"

definition readFloat32BE :: "bytes \<Rightarrow> nat \<Rightarrow> u32 res" where
  [simp]: "readFloat32BE data off = rbind (readBE32 data off) (\<lambda>bits. let result = bits in Inr result)"

definition readFloat64BE :: "bytes \<Rightarrow> nat \<Rightarrow> u64 res" where
  [simp]: "readFloat64BE data off = rbind (readBE64 data off) (\<lambda>bits. let result = bits in Inr result)"

section \<open>Variable-length integers\<close>

function encodeVarInt_loop :: "u64 \<Rightarrow> bytes \<Rightarrow> bytes" where
  "encodeVarInt_loop value out =
     (if value > 0
      then let b = ucast (value AND 0x7F);
               value' = drop_bit 7 value
           in encodeVarInt_loop value' (out @ [if value' > 0 then b OR 0x80 else b])
      else out)"
  by pat_completeness auto
termination
proof (relation "measure (\<lambda>(v, out). unat v)")
  fix v :: u64 and out :: bytes and b :: byte and v' :: u64
  assume "v > 0" "v' = drop_bit 7 v"
  then show "((v', out @ [if v' > 0 then b OR 0x80 else b]), v, out)
      \<in> measure (\<lambda>(v, out). unat v)"
    by (simp add: drop_bit_eq_div unat_div word_greater_zero_iff unat_gt_0)
qed simp

declare encodeVarInt_loop.simps [simp del]

definition encodeVarInt :: "u64 \<Rightarrow> bytes" where
  "encodeVarInt value = (if value = 0 then [0] else encodeVarInt_loop value [])"

function decodeVarInt_loop :: "bytes \<Rightarrow> nat \<Rightarrow> u64 \<Rightarrow> u64 \<Rightarrow> u64 \<times> nat" where
  "decodeVarInt_loop data offset value multiplier =
     (if offset < length data
      then let b = data ! offset;
               value' = value + ucast (b AND 0x7F) * multiplier
           in if b AND 0x80 = 0 then (value', offset + 1)
              else decodeVarInt_loop data (offset + 1) value' (multiplier * 128)
      else (value, offset))"
  by pat_completeness auto
termination
  by (relation "measure (\<lambda>(data, offset, _). length data - offset)") auto

declare decodeVarInt_loop.simps [simp del]

definition decodeVarInt :: "bytes \<Rightarrow> nat \<Rightarrow> u64 \<times> nat" where
  "decodeVarInt data offset = decodeVarInt_loop data offset 0 1"

definition INT64_MIN :: u64 where "INT64_MIN = 0x8000000000000000"

text \<open>Negating the least \<open>int64_t\<close> overflows, which is undefined.\<close>

definition serializeVarInteger :: "u64 \<Rightarrow> bytes res" where
  "serializeVarInteger value =
     (if 0 \<le> sint value then Inr (encodeVarInt (value * 2))
      else if value = INT64_MIN then Inl Undefined
      else Inr (encodeVarInt ((- value) * 2 - 1)))"

definition deserializeVarInteger :: "bytes \<Rightarrow> u64 res" where
  "deserializeVarInteger data =
     (if length data = 0
      then Inl (DanWSError ''PAYLOAD_SIZE_MISMATCH'' ''VarInteger requires at least 1 byte'')
      else let (zigzag, _) = decodeVarInt data 0
           in if zigzag AND 1 \<noteq> 0 then Inr (- (zigzag div 2) - 1) else Inr (zigzag div 2))"

section \<open>Decimal doubles and floats\<close>

text \<open>
  The scale and the mantissa read off the printed value, \<open>None\<close> where the code falls back to the
  raw encoding. The mantissa starts as the truncated value, which is what is kept when the
  printed form has no point.
\<close>

definition decimal_parts :: "string \<Rightarrow> u64 \<Rightarrow> (nat \<times> u64) option" where
  "decimal_parts str mantissa0 =
     (case str_find ''.'' str of
        None \<Rightarrow> Some (0, mantissa0)
      | Some dot \<Rightarrow>
          if str_find ''e'' str \<noteq> None \<or> str_find ''E'' str \<noteq> None then None
          else
            let str' = (case find_last_not_of CHR ''0'' str of
                          Some l \<Rightarrow> if dot < l then substr str 0 (l + 1)
                                    else if l = dot then substr str 0 dot else str
                        | None \<Rightarrow> str)
            in (case str_find ''.'' str' of
                  None \<Rightarrow> Some (0, mantissa0)
                | Some dot' \<Rightarrow>
                    let scale = length str' - dot' - 1
                    in if 63 < scale then None
                       else (case stoull (take dot' str' @ drop (dot' + 1) str') of
                               Inr m \<Rightarrow> Some (scale, word_of_nat m)
                             | Inl _ \<Rightarrow> None)))"

definition MAX_SAFE_INT :: u64 where "MAX_SAFE_INT = 9007199254740991"

definition fallbackFloat64 :: "u64 \<Rightarrow> bytes" where
  "fallbackFloat64 value = writeFloat64BE [0x80] value"

definition fallbackFloat32 :: "u32 \<Rightarrow> bytes" where
  "fallbackFloat32 value = writeFloat32BE [0x80] value"

definition decimal_bytes :: "bool \<Rightarrow> nat \<Rightarrow> u64 \<Rightarrow> bytes" where
  "decimal_bytes negative scale mantissa =
     (if negative then word_of_nat (scale + 64) else word_of_nat scale) # encodeVarInt mantissa"

definition serializeVarDouble :: "u64 \<Rightarrow> bytes res" where
  "serializeVarDouble value =
     (if \<not> d_isfinite value \<or> (d_iszero value \<and> d_signbit value)
      then Inr (fallbackFloat64 value)
      else let absVal = d_abs value in
        rbind (double_to_u64 absVal) (\<lambda>mantissa0.
          case decimal_parts (show_double17 absVal) mantissa0 of
            None \<Rightarrow> Inr (fallbackFloat64 value)
          | Some (scale, mantissa) \<Rightarrow>
              if mantissa > MAX_SAFE_INT then Inr (fallbackFloat64 value)
              else Inr (decimal_bytes (d_less_zero value) scale mantissa)))"

text \<open>\<open>float\<close> values arrive here widened to \<open>double\<close>.\<close>

definition serializeVarFloat :: "u64 \<Rightarrow> bytes res" where
  "serializeVarFloat value =
     (let fval = double_to_float value in
      if \<not> f_isfinite fval \<or> (f_iszero fval \<and> f_signbit fval)
      then Inr (fallbackFloat32 fval)
      else let absVal = d_abs value in
        rbind (double_to_u64 absVal) (\<lambda>mantissa0.
          case decimal_parts (show_double17 absVal) mantissa0 of
            None \<Rightarrow> Inr (fallbackFloat32 fval)
          | Some (scale, mantissa) \<Rightarrow>
              if mantissa > MAX_SAFE_INT then Inr (fallbackFloat32 fval)
              else Inr (decimal_bytes (d_less_zero value) scale mantissa)))"

text \<open>The common tail of both decoders: mantissa over a power of ten, with the sign.\<close>

definition decimal_value :: "bytes \<Rightarrow> byte \<Rightarrow> u64" where
  "decimal_value data firstByte =
     (let negative = (64 \<le> unat firstByte);
          scale = (if negative then unat firstByte - 64 else unat firstByte);
          (mantissa, _) = decodeVarInt data 1;
          result = d_div (u64_to_double mantissa) (pow10 scale)
      in if negative then d_neg result else result)"

definition deserializeVarDouble :: "bytes \<Rightarrow> u64 res" where
  "deserializeVarDouble data =
     (if length data = 0
      then Inl (DanWSError ''PAYLOAD_SIZE_MISMATCH'' ''VarDouble requires at least 1 byte'')
      else rbind (byte_at data 0) (\<lambda>firstByte.
        if firstByte = 0x80
        then (if length data < 9
              then Inl (DanWSError ''PAYLOAD_SIZE_MISMATCH'' ''VarDouble fallback requires 9 bytes'')
              else readFloat64BE data 1)
        else Inr (decimal_value data firstByte)))"

definition deserializeVarFloat :: "bytes \<Rightarrow> u64 res" where
  "deserializeVarFloat data =
     (if length data = 0
      then Inl (DanWSError ''PAYLOAD_SIZE_MISMATCH'' ''VarFloat requires at least 1 byte'')
      else rbind (byte_at data 0) (\<lambda>firstByte.
        if firstByte = 0x80
        then (if length data < 5
              then Inl (DanWSError ''PAYLOAD_SIZE_MISMATCH'' ''VarFloat fallback requires 5 bytes'')
              else rbind (readFloat32BE data 1) (\<lambda>f. Inr (float_to_double f)))
        else Inr (decimal_value data firstByte)))"

section \<open>The typed serializer\<close>

fun serialize :: "data_type \<Rightarrow> payload \<Rightarrow> bytes res" where
  "serialize DT_Null value = Inr []"
| "serialize DT_Bool value =
     (case value of PBool v \<Rightarrow> Inr [if v then 0x01 else 0x00] | _ \<Rightarrow> Inl Bad_Variant_Access)"
| "serialize DT_Uint8 value =
     (case value of PUint8 v \<Rightarrow> Inr [v] | _ \<Rightarrow> Inl Bad_Variant_Access)"
| "serialize DT_Uint16 value =
     (case value of PUint16 v \<Rightarrow> Inr (writeBE16 [] v) | _ \<Rightarrow> Inl Bad_Variant_Access)"
| "serialize DT_Uint32 value =
     (case value of PUint32 v \<Rightarrow> Inr (writeBE32 [] v) | _ \<Rightarrow> Inl Bad_Variant_Access)"
| "serialize DT_Uint64 value =
     (case value of PUint64 v \<Rightarrow> Inr (writeBE64 [] v) | _ \<Rightarrow> Inl Bad_Variant_Access)"
| "serialize DT_Int32 value =
     (case value of PInt32 v \<Rightarrow> Inr (writeBE32 [] v) | _ \<Rightarrow> Inl Bad_Variant_Access)"
| "serialize DT_Int64 value =
     (case value of PInt64 v \<Rightarrow> Inr (writeBE64 [] v) | _ \<Rightarrow> Inl Bad_Variant_Access)"
| "serialize DT_Float32 value =
     (case value of PFloat v \<Rightarrow> Inr (writeFloat32BE [] v) | _ \<Rightarrow> Inl Bad_Variant_Access)"
| "serialize DT_Float64 value =
     (case value of PDouble v \<Rightarrow> Inr (writeFloat64BE [] v) | _ \<Rightarrow> Inl Bad_Variant_Access)"
| "serialize DT_String value =
     (case value of PString v \<Rightarrow> Inr (bytes_of_str v) | _ \<Rightarrow> Inl Bad_Variant_Access)"
| "serialize DT_Binary value =
     (case value of PBinary v \<Rightarrow> Inr v | _ \<Rightarrow> Inl Bad_Variant_Access)"
| "serialize DT_Timestamp value =
     (case value of PInt64 v \<Rightarrow> Inr (writeBE64 [] v) | _ \<Rightarrow> Inl Bad_Variant_Access)"
| "serialize DT_VarInteger value =
     (case value of
        PInt32 v \<Rightarrow> serializeVarInteger (scast v)
      | PInt64 v \<Rightarrow> serializeVarInteger v
      | PDouble v \<Rightarrow> rbind (double_to_i64 v) serializeVarInteger
      | _ \<Rightarrow> Inl (DanWSError ''INVALID_VALUE_TYPE'' ''VarInteger requires integer value''))"
| "serialize DT_VarDouble value =
     (case value of PDouble v \<Rightarrow> serializeVarDouble v | _ \<Rightarrow> Inl Bad_Variant_Access)"
| "serialize DT_VarFloat value =
     (case value of
        PFloat v \<Rightarrow> serializeVarFloat (float_to_double v)
      | PDouble v \<Rightarrow> serializeVarFloat v
      | _ \<Rightarrow> Inl Bad_Variant_Access)"
| "serialize (DT_Other b) value = Inl (DanWSError ''UNKNOWN_DATA_TYPE'' ''Unknown data type'')"

text \<open>\<open>VarInteger\<close> comes back as \<open>int32_t\<close> when the value fits.\<close>

definition narrow_int :: "u64 \<Rightarrow> payload" where
  "narrow_int val =
     (if INT_MIN \<le> sint val \<and> sint val \<le> INT_MAX then PInt32 (ucast val) else PInt64 val)"

definition size_mismatch :: "int \<Rightarrow> nat \<Rightarrow> exn" where
  "size_mismatch expected n =
     DanWSError ''PAYLOAD_SIZE_MISMATCH''
       (''0 expects '' @ show_int expected @ '' bytes, got '' @ show_nat n)"

fun deserialize_value :: "data_type \<Rightarrow> bytes \<Rightarrow> payload res" where
  "deserialize_value DT_Null data = Inr PNull"
| "deserialize_value DT_Bool data =
     rbind (byte_at data 0) (\<lambda>b.
       if b = 0x01 then Inr (PBool True)
       else if b = 0x00 then Inr (PBool False)
       else Inl (DanWSError ''INVALID_VALUE_TYPE'' ''Bool payload must be 0x00 or 0x01''))"
| "deserialize_value DT_Uint8 data = rbind (byte_at data 0) (\<lambda>b. Inr (PUint8 b))"
| "deserialize_value DT_Uint16 data = rbind (readBE16 data 0) (\<lambda>v. Inr (PUint16 v))"
| "deserialize_value DT_Uint32 data = rbind (readBE32 data 0) (\<lambda>v. Inr (PUint32 v))"
| "deserialize_value DT_Uint64 data = rbind (readBE64 data 0) (\<lambda>v. Inr (PUint64 v))"
| "deserialize_value DT_Int32 data = rbind (readBE32 data 0) (\<lambda>v. Inr (PInt32 v))"
| "deserialize_value DT_Int64 data = rbind (readBE64 data 0) (\<lambda>v. Inr (PInt64 v))"
| "deserialize_value DT_Float32 data = rbind (readFloat32BE data 0) (\<lambda>v. Inr (PFloat v))"
| "deserialize_value DT_Float64 data = rbind (readFloat64BE data 0) (\<lambda>v. Inr (PDouble v))"
| "deserialize_value DT_String data = Inr (PString (str_of_bytes data))"
| "deserialize_value DT_Binary data = Inr (PBinary data)"
| "deserialize_value DT_Timestamp data = rbind (readBE64 data 0) (\<lambda>v. Inr (PInt64 v))"
| "deserialize_value DT_VarInteger data =
     rbind (deserializeVarInteger data) (\<lambda>v. Inr (narrow_int v))"
| "deserialize_value DT_VarDouble data =
     rbind (deserializeVarDouble data) (\<lambda>v. Inr (PDouble v))"
| "deserialize_value DT_VarFloat data =
     rbind (deserializeVarFloat data) (\<lambda>v. Inr (PDouble v))"
| "deserialize_value (DT_Other b) data =
     Inl (DanWSError ''UNKNOWN_DATA_TYPE'' ''Unknown data type'')"

definition deserialize :: "data_type \<Rightarrow> bytes \<Rightarrow> payload res" where
  "deserialize dt data =
     (let expected = dataTypeSize dt in
      if 0 \<le> expected \<and> int (length data) \<noteq> expected
      then Inl (size_mismatch expected (length data))
      else deserialize_value dt data)"

section \<open>Round trips of the integer encodings\<close>

lemma drop_bit_7_less: "(v :: u64) \<noteq> 0 \<Longrightarrow> unat (drop_bit 7 v) < unat v"
  by (simp add: drop_bit_eq_div unat_div unat_gt_0)

lemma encodeVarInt_loop_acc: "encodeVarInt_loop v acc = acc @ encodeVarInt_loop v []"
proof (induction "unat v" arbitrary: v acc rule: less_induct)
  case less
  show ?case
  proof (cases "v = 0")
    case True
    then show ?thesis by (simp add: encodeVarInt_loop.simps)
  next
    case False
    let ?b = "if drop_bit 7 v > 0 then ucast (v AND 0x7F) OR 0x80 else (ucast (v AND 0x7F) :: byte)"
    have "encodeVarInt_loop v acc = encodeVarInt_loop (drop_bit 7 v) (acc @ [?b])" for acc
      using False by (subst encodeVarInt_loop.simps) (simp add: Let_def word_greater_zero_iff)
    moreover have "encodeVarInt_loop (drop_bit 7 v) xs = xs @ encodeVarInt_loop (drop_bit 7 v) []" for xs
      using less.hyps [OF drop_bit_7_less [OF False]] .
    ultimately show ?thesis by (metis append_assoc append_Nil)
  qed
qed

lemma encodeVarInt_loop_Cons:
  "v \<noteq> 0 \<Longrightarrow> encodeVarInt_loop v [] =
     (if drop_bit 7 v > 0 then ucast (v AND 0x7F) OR 0x80 else ucast (v AND 0x7F))
     # encodeVarInt_loop (drop_bit 7 v) []"
  by (subst encodeVarInt_loop.simps, subst encodeVarInt_loop_acc)
     (simp add: Let_def word_greater_zero_iff)

lemma and_0x7F: "(v :: 'a::len word) AND 0x7F = take_bit 7 v"
  by (simp add: take_bit_eq_mask mask_eq_exp_minus_1)

lemma low7: "ucast (ucast ((v :: u64) AND 0x7F) :: byte) = v AND 0x7F"
  unfolding and_0x7F by (rule bit_word_eqI) (auto simp: bit_simps)

lemma split7: "(v AND 0x7F) + 128 * drop_bit 7 v = (v :: u64)"
proof -
  have "v AND 0x7F = v mod 128"
    unfolding and_0x7F by (simp add: take_bit_eq_mod)
  moreover have "drop_bit 7 v = v div 128" by (simp add: drop_bit_eq_div)
  ultimately show ?thesis by (simp add: mod_mult_div_eq)
qed

lemma and_0xFF: "(v :: 'a::len word) AND 0xFF = take_bit 8 v"
  by (simp add: take_bit_eq_mask mask_eq_exp_minus_1)

lemma bit_0x80: "bit (0x80 :: byte) n \<longleftrightarrow> n = 7"
proof -
  have "(0x80 :: byte) = 2 ^ 7" by simp
  then show ?thesis by (simp only: bit_exp_iff) auto
qed

lemma cont_payload: "ucast ((ucast ((v :: u64) AND 0x7F) OR 0x80 :: byte) AND 0x7F) = v AND 0x7F"
  unfolding and_0x7F by (rule bit_word_eqI) (auto simp: bit_simps bit_0x80)

lemma last_payload: "ucast ((ucast ((v :: u64) AND 0x7F) :: byte) AND 0x7F) = v AND 0x7F"
  unfolding and_0x7F by (rule bit_word_eqI) (auto simp: bit_simps)

lemma cont_flag: "(ucast ((v :: u64) AND 0x7F) OR 0x80 :: byte) AND 0x80 \<noteq> 0"
proof
  assume "(ucast (v AND 0x7F) OR 0x80 :: byte) AND 0x80 = 0"
  then have "\<not> bit ((ucast (v AND 0x7F) OR 0x80 :: byte) AND 0x80) 7" by simp
  then show False by (simp add: bit_simps bit_0x80)
qed

lemma last_flag: "(ucast ((v :: u64) AND 0x7F) :: byte) AND 0x80 = 0"
proof -
  have "\<not> bit (ucast (v AND 0x7F) :: byte) 7"
    unfolding and_0x7F by (simp add: bit_simps)
  then have "(ucast (v AND 0x7F) :: byte) AND 2 ^ 7 = 0"
    using and_exp_eq_0_iff_not_bit by blast
  then show ?thesis by simp
qed

lemma horner_step:
  fixes v :: "'a::len word"
  assumes "8 \<le> LENGTH('a)"
  shows "push_bit 8 (drop_bit (k + 8) v) OR ucast (ucast (take_bit 8 (drop_bit k v)) :: byte)
     = drop_bit k v"
proof (rule bit_word_eqI)
  fix n assume "n < LENGTH('a)"
  then show "bit (push_bit 8 (drop_bit (k + 8) v) OR ucast (ucast (take_bit 8 (drop_bit k v)) :: byte)) n
      = bit (drop_bit k v) n"
    by (cases "n < 8") (auto simp: bit_simps not_less ac_simps)
qed

lemma drop_bit_all [simp]: "LENGTH('a) \<le> k \<Longrightarrow> drop_bit k (v :: 'a::len word) = 0"
  by (rule bit_word_eqI) (auto simp: bit_simps dest: bit_imp_le_length)

lemma readBE32_write: "readBE32 (pre @ writeBE32 [] v @ rest) (length pre) = Inr v"
proof -
  let ?b = "\<lambda>k. ucast (ucast (take_bit 8 (drop_bit k v)) :: byte) :: u32"
  have h: "push_bit 24 (?b 24) OR push_bit 16 (?b 16) OR push_bit 8 (?b 8) OR ?b 0
      = push_bit 8 (push_bit 8 (push_bit 8 (push_bit 8 (drop_bit 32 v) OR ?b 24) OR ?b 16) OR ?b 8) OR ?b 0"
    by (simp add: push_bit_or or.assoc)
  have "\<dots> = v"
    using horner_step [of 24 v] horner_step [of 16 v] horner_step [of 8 v] horner_step [of 0 v]
    by simp
  with h show ?thesis
    by (simp add: readBE32_def writeBE32_def byte_at_def and_0xFF nth_append)
qed

lemma readBE16_write: "readBE16 (pre @ writeBE16 [] v @ rest) (length pre) = Inr v"
  by (simp add: readBE16_def writeBE16_def byte_at_def and_0xFF nth_append)
     (rule bit_word_eqI, auto simp: bit_simps)

lemma readBE64_write: "readBE64 (pre @ writeBE64 [] v @ rest) (length pre) = Inr v"
proof -
  note h = horner_step [where v = v, simplified]
  show ?thesis
  using h [of 56] h [of 48] h [of 40] h [of 32] h [of 24] h [of 16] h [of 8] h [of 0]
  by (simp add: readBE64_def writeBE64_def byte_at_def and_0xFF nth_append)
qed


lemma decode_encode_loop:
  assumes "v \<noteq> 0"
  shows "decodeVarInt_loop (pre @ encodeVarInt_loop v [] @ rest) (length pre) val mult
    = (val + v * mult, length pre + length (encodeVarInt_loop v []))"
  using assms
proof (induction "unat v" arbitrary: v pre val mult rule: less_induct)
  case less
  let ?v' = "drop_bit 7 v"
  show ?case
  proof (cases "?v' = 0")
    case True
    then have "encodeVarInt_loop v [] = [ucast (v AND 0x7F)]"
      using less.prems by (simp add: encodeVarInt_loop_Cons encodeVarInt_loop.simps [of 0])
    moreover have "v AND 0x7F = v" using split7 [of v] True by simp
    ultimately show ?thesis
      using last_flag [of v] last_payload [of v]
      by (subst decodeVarInt_loop.simps) (simp add: Let_def)
  next
    case False
    let ?b = "ucast (v AND 0x7F) OR 0x80 :: byte"
    have enc: "encodeVarInt_loop v [] = ?b # encodeVarInt_loop ?v' []"
      using False less.prems by (simp add: encodeVarInt_loop_Cons word_greater_zero_iff)
    have "decodeVarInt_loop (pre @ encodeVarInt_loop v [] @ rest) (length pre) val mult
      = decodeVarInt_loop ((pre @ [?b]) @ encodeVarInt_loop ?v' [] @ rest) (length (pre @ [?b]))
          (val + (v AND 0x7F) * mult) (mult * 128)"
      unfolding enc
      by (subst decodeVarInt_loop.simps) (simp add: cont_flag cont_payload Let_def)
    also have "\<dots> = (val + (v AND 0x7F) * mult + ?v' * (mult * 128),
        length (pre @ [?b]) + length (encodeVarInt_loop ?v' []))"
      by (rule less.hyps) (use False less.prems drop_bit_7_less in auto)
    also have "val + (v AND 0x7F) * mult + ?v' * (mult * 128) = val + ((v AND 0x7F) + 128 * ?v') * mult"
      by (simp add: algebra_simps)
    finally show ?thesis by (simp add: split7 enc)
  qed
qed

theorem decodeVarInt_encodeVarInt:
  "decodeVarInt (pre @ encodeVarInt v @ rest) (length pre) = (v, length pre + length (encodeVarInt v))"
proof (cases "v = 0")
  case True
  then show ?thesis
    unfolding decodeVarInt_def by (subst decodeVarInt_loop.simps) (simp add: encodeVarInt_def)
next
  case False
  then show ?thesis
    using decode_encode_loop [OF False, of pre rest 0 1]
    by (simp add: decodeVarInt_def encodeVarInt_def)
qed

lemma encodeVarInt_loop_length:
  "v \<noteq> 0 \<Longrightarrow> unat v < 128 ^ n \<Longrightarrow> 0 < length (encodeVarInt_loop v []) \<and> length (encodeVarInt_loop v []) \<le> n"
proof (induction n arbitrary: v)
  case 0
  then show ?case by (simp add: unat_eq_zero)
next
  case (Suc n)
  have "unat (drop_bit 7 v) < 128 ^ n"
    using Suc.prems(2) by (simp add: drop_bit_eq_div unat_div less_mult_imp_div_less mult.commute)
  then show ?case
    using Suc.IH [of "drop_bit 7 v"] Suc.prems(1)
    by (cases "drop_bit 7 v = 0") (auto simp: encodeVarInt_loop_Cons encodeVarInt_loop.simps [of 0])
qed

lemma encodeVarInt_length: "0 < length (encodeVarInt v)" "length (encodeVarInt v) \<le> 10"
proof -
  have "unat v < 128 ^ 10" using unsigned_less [of v, where ?'a = nat] by simp
  then show "0 < length (encodeVarInt v)" "length (encodeVarInt v) \<le> 10"
    using encodeVarInt_loop_length [of v 10] by (auto simp: encodeVarInt_def)
qed


lemma sint_eq_uint: "sint (v :: u64) = uint v - (if bit v 63 then 2 ^ 64 else 0)"
  by (simp add: sint_uint signed_take_bit_eq_take_bit_minus bit_uint_iff take_bit_int_eq_self
      unsigned_less [of v, where ?'a = int, simplified])

lemma sint_nonneg_uint: "0 \<le> sint (v :: u64) \<Longrightarrow> sint v = uint v \<and> uint v < 2 ^ 63"
  using sint_eq_uint [of v] sint_less [of v] unsigned_less [of v, where ?'a = int]
  by (auto split: if_splits)

lemma sint_neg_uint: "sint (v :: u64) < 0 \<Longrightarrow> sint v = uint v - 2 ^ 64 \<and> 2 ^ 63 \<le> uint v"
  using sint_eq_uint [of v] sint_ge [of v] unsigned_greater_eq [of v, where ?'a = int]
  by (auto split: if_splits)

lemma zigzag_even:
  fixes v :: u64
  assumes "0 \<le> sint v"
  shows "(v * 2) AND 1 = 0" "v * 2 div 2 = v"
proof -
  have u: "uint (v * 2) = 2 * uint v"
    using sint_nonneg_uint [OF assms] by (simp add: uint_word_ariths)
  then show "v * 2 div 2 = v" by (simp add: word_uint_eq_iff uint_div)
  show "(v * 2) AND 1 = 0" using u by (simp add: and_one_eq word_uint_eq_iff uint_mod)
qed

lemma uint_double_pred:
  fixes w :: u64
  assumes "1 \<le> uint w" "uint w \<le> 2 ^ 63"
  shows "uint (w * 2 - 1) = 2 * uint w - 1"
proof -
  have "uint (w * 2 - 1) = (uint w * 2 - 1) mod 2 ^ 64"
    by (simp add: uint_word_ariths mod_simps)
  then show ?thesis using assms by simp
qed

lemma zigzag_odd:
  fixes v :: u64
  assumes "sint v < 0"
  shows "((- v) * 2 - 1) AND 1 = 1" "- (((- v) * 2 - 1) div 2) - 1 = v"
proof -
  define w where "w = - v"
  have u: "2 ^ 63 \<le> uint v" "uint v < 2 ^ 64"
    using sint_neg_uint [OF assms] unsigned_less [of v, where ?'a = int] by simp_all
  have "uint w = 2 ^ 64 - uint v"
    using u by (simp add: w_def uint_word_ariths zmod_zminus1_eq_if)
  with u have b: "1 \<le> uint w" "uint w \<le> 2 ^ 63" by simp_all
  note z = uint_double_pred [OF b]
  show "((- v) * 2 - 1) AND 1 = 1"
    unfolding w_def [symmetric] and_one_eq word_uint_eq_iff uint_mod z by simp presburger
  have "uint (w - 1) = uint w - 1"
    using b by (simp add: uint_word_ariths)
  then have "uint ((w * 2 - 1) div 2) = uint (w - 1)"
    using z by (simp add: uint_div)
  then have "(w * 2 - 1) div 2 = w - 1" by (rule word_uint_eqI)
  then show "- (((- v) * 2 - 1) div 2) - 1 = v" by (simp add: w_def)
qed

theorem deserializeVarInteger_serialize:
  assumes "serializeVarInteger v = Inr bs"
  shows "deserializeVarInteger bs = Inr v"
proof -
  have dec: "decodeVarInt (encodeVarInt z) 0 = (z, length (encodeVarInt z))" for z
    using decodeVarInt_encodeVarInt [of "[]" z "[]"] by simp
  have ne: "encodeVarInt z \<noteq> []" for z using encodeVarInt_length(1) [of z] by auto
  show ?thesis
    using assms zigzag_even zigzag_odd
    by (auto simp: serializeVarInteger_def deserializeVarInteger_def dec ne Let_def split: if_splits)
qed

lemma serializeVarInteger_defined: "serializeVarInteger v = Inl e \<longleftrightarrow> v = INT64_MIN \<and> e = Undefined"
  by (auto simp: serializeVarInteger_def INT64_MIN_def)


section \<open>Round trip and safety of the typed serializer\<close>

text \<open>The values whose wire form determines them: all but the decimal floating-point types.\<close>

fun exact_type :: "data_type \<Rightarrow> bool" where
  "exact_type DT_VarDouble = False"
| "exact_type DT_VarFloat = False"
| "exact_type (DT_Other _) = False"
| "exact_type _ = True"

text \<open>What comes back: \<open>Null\<close> drops its value, and \<open>VarInteger\<close> its width.\<close>

fun read_back :: "data_type \<Rightarrow> payload \<Rightarrow> payload" where
  "read_back DT_Null p = PNull"
| "read_back DT_VarInteger (PInt32 v) = PInt32 v"
| "read_back DT_VarInteger (PInt64 v) = narrow_int v"
| "read_back DT_VarInteger (PDouble v) =
     (case double_to_i64 v of Inr i \<Rightarrow> narrow_int i | Inl _ \<Rightarrow> PDouble v)"
| "read_back _ p = p"

lemma writeBE_lengths [simp]:
  "length (writeBE16 out v16) = length out + 2"
  "length (writeBE32 out v32) = length out + 4"
  "length (writeBE64 out v64) = length out + 8"
  by (simp_all add: writeBE16_def writeBE32_def writeBE64_def)

lemmas readBE_write0 [simp] =
  readBE16_write [of "[]" _ "[]", simplified] readBE32_write [of "[]" _ "[]", simplified]
  readBE64_write [of "[]" _ "[]", simplified]

lemma narrow_int_scast: "narrow_int (scast (v :: u32)) = PInt32 v"
proof -
  have s: "sint (scast v :: u64) = sint v"
    by (simp add: sint_up_scast is_up)
  have "INT_MIN \<le> sint v" "sint v \<le> INT_MAX"
    using sint_ge [of v] sint_less [of v] by (simp_all add: INT_MIN_def INT_MAX_def)
  moreover have "(ucast (scast v :: u64) :: u32) = v"
    by (rule bit_word_eqI) (auto simp: bit_simps)
  ultimately show ?thesis by (simp add: narrow_int_def s)
qed

theorem deserialize_serialize:
  assumes "exact_type dt" "serialize dt p = Inr bs"
  shows "deserialize dt bs = Inr (read_back dt p)"
  using assms
  by (cases dt; cases p)
     (auto simp: deserialize_def byte_at_def narrow_int_scast rbind_eq_Inr
        dest!: deserializeVarInteger_serialize split: if_splits)

lemma byte_at_defined: "i < length data \<Longrightarrow> \<exists>b. byte_at data i = Inr b"
  by (simp add: byte_at_def)

lemma readBE_defined:
  "off + 2 \<le> length data \<Longrightarrow> \<exists>v. readBE16 data off = Inr v"
  "off + 4 \<le> length data \<Longrightarrow> \<exists>v. readBE32 data off = Inr v"
  "off + 8 \<le> length data \<Longrightarrow> \<exists>v. readBE64 data off = Inr v"
  by (simp_all add: readBE16_def readBE32_def readBE64_def byte_at_def)

theorem deserialize_only_DanWSError:
  "deserialize dt data = Inl e \<Longrightarrow> \<exists>c m. e = DanWSError c m"
  using readBE_defined [of 0 data] readBE_defined(3) [of 1 data] readBE_defined(2) [of 1 data]
  by (cases dt)
     (auto simp: deserialize_def size_mismatch_def rbind_eq_Inl deserializeVarInteger_def
        deserializeVarDouble_def deserializeVarFloat_def byte_at_def Let_def
        split: if_splits prod.splits)

text \<open>
  The contract between the serializer and the framing layers: on the values it calls
  \<open>faithful\<close>, what is written reads back as the same value. It is all that the codec needs to
  know about payloads.
\<close>

locale typed_codec =
  fixes ser :: "'d \<Rightarrow> 'p \<Rightarrow> bytes res"
    and deser :: "'d \<Rightarrow> bytes \<Rightarrow> 'p res"
    and faithful :: "'d \<Rightarrow> 'p \<Rightarrow> bool"
  assumes ser_defined: "faithful d p \<Longrightarrow> \<exists>bs. ser d p = Inr bs"
    and deser_ser: "faithful d p \<Longrightarrow> ser d p = Inr bs \<Longrightarrow> deser d bs = Inr p"
begin

lemma round_trip: "faithful d p \<Longrightarrow> \<exists>bs. ser d p = Inr bs \<and> deser d bs = Inr p"
  using ser_defined deser_ser by blast

lemma ser_inj: "faithful d p \<Longrightarrow> faithful d q \<Longrightarrow> ser d p = ser d q \<Longrightarrow> p = q"
  using round_trip by (metis sum.inject(2))

end

definition faithful_value :: "data_type \<Rightarrow> payload \<Rightarrow> bool" where
  "faithful_value dt p \<longleftrightarrow> exact_type dt \<and> (\<exists>bs. serialize dt p = Inr bs) \<and> read_back dt p = p"

interpretation wire: typed_codec serialize deserialize faithful_value
  by unfold_locales (auto simp: faithful_value_def dest: deserialize_serialize)

text \<open>The value types that travel exactly under the data type that \<open>detectDataType\<close> picks.\<close>

lemma faithful_detected:
  assumes "\<And>v. p \<noteq> PFloat v" "\<And>v. p \<noteq> PDouble v"
  shows "faithful_value (detectDataType p) p"
proof (cases p)
  case (PInt32 v)
  have "(scast v :: u64) \<noteq> INT64_MIN"
  proof
    assume "(scast v :: u64) = INT64_MIN"
    then have "sint (scast v :: u64) = - (2 ^ 63)" by (simp add: INT64_MIN_def)
    then show False using sint_ge [of v] by (simp add: sint_up_scast is_up)
  qed
  with PInt32 show ?thesis
    by (simp add: faithful_value_def serializeVarInteger_def)
qed (use assms in \<open>auto simp: faithful_value_def\<close>)

section \<open>Properties\<close>

lemma decimal_parts_scale: "decimal_parts str m0 = Some (scale, m) \<Longrightarrow> scale \<le> 63"
  by (auto simp: decimal_parts_def Let_def split: option.splits if_splits sum.splits)

lemma unat_scale: "scale \<le> 63 \<Longrightarrow> unat (word_of_nat scale :: byte) = scale"
  by (simp add: unat_of_nat)

lemma unat_scale_neg: "scale \<le> 63 \<Longrightarrow> unat (word_of_nat (scale + 64) :: byte) = scale + 64"
  unfolding unat_of_nat by simp

lemma decimal_value_bytes:
  assumes "scale \<le> 63"
  shows "decimal_value (decimal_bytes neg scale m) (hd (decimal_bytes neg scale m)) =
    (let result = d_div (u64_to_double m) (pow10 scale) in if neg then d_neg result else result)"
proof -
  have "decodeVarInt (b # encodeVarInt m) 1 = (m, 1 + length (encodeVarInt m))" for b
    using decodeVarInt_encodeVarInt [of "[b]" m "[]"] by simp
  then show ?thesis
    using unat_scale [OF assms] unat_scale_neg [OF assms] assms
    by (cases neg) (simp_all add: decimal_value_def decimal_bytes_def Let_def)
qed

lemma decimal_first_byte:
  assumes "scale \<le> 63"
  shows "hd (decimal_bytes neg scale m) \<noteq> 0x80"
proof
  assume "hd (decimal_bytes neg scale m) = 0x80"
  then have "unat (hd (decimal_bytes neg scale m)) = 128" by simp
  then show False
    using unat_scale [OF assms] unat_scale_neg [OF assms] assms
    by (cases neg) (simp_all add: decimal_bytes_def)
qed

lemma deserializeVarDouble_decimal:
  assumes "scale \<le> 63"
  shows "deserializeVarDouble (decimal_bytes neg scale m) = Inr
    (let result = d_div (u64_to_double m) (pow10 scale) in if neg then d_neg result else result)"
  using decimal_value_bytes [OF assms, of neg m] decimal_first_byte [OF assms, of neg m]
  by (simp add: deserializeVarDouble_def byte_at_def decimal_bytes_def Let_def)

lemma deserializeVarDouble_fallback: "deserializeVarDouble (fallbackFloat64 v) = Inr v"
proof -
  have "fallbackFloat64 v = [0x80] @ writeBE64 [] v @ []"
    by (simp add: fallbackFloat64_def writeBE64_def)
  then show ?thesis
    using readBE64_write [of "[0x80]" v "[]"]
    by (simp add: deserializeVarDouble_def byte_at_def)
qed

lemma serializeVarDouble_cases:
  assumes "serializeVarDouble v = Inr bs"
  obtains "bs = fallbackFloat64 v"
  | m0 scale m where "double_to_u64 (d_abs v) = Inr m0"
      "decimal_parts (show_double17 (d_abs v)) m0 = Some (scale, m)" "scale \<le> 63" "m \<le> MAX_SAFE_INT"
      "bs = decimal_bytes (d_less_zero v) scale m"
proof (cases "\<not> d_isfinite v \<or> (d_iszero v \<and> d_signbit v)")
  case True
  then show ?thesis using assms that(1) unfolding serializeVarDouble_def by (metis sum.inject(2))
next
  case False
  then have *: "rbind (double_to_u64 (d_abs v)) (\<lambda>mantissa0.
      case decimal_parts (show_double17 (d_abs v)) mantissa0 of
        None \<Rightarrow> Inr (fallbackFloat64 v)
      | Some (scale, mantissa) \<Rightarrow>
          if mantissa > MAX_SAFE_INT then Inr (fallbackFloat64 v)
          else Inr (decimal_bytes (d_less_zero v) scale mantissa)) = Inr bs"
    using assms unfolding serializeVarDouble_def Let_def by (simp only: if_False)
  then obtain m0 where m0: "double_to_u64 (d_abs v) = Inr m0"
    by (auto simp: rbind_eq_Inr)
  show ?thesis
  proof (cases "decimal_parts (show_double17 (d_abs v)) m0")
    case None
    with * m0 that(1) show ?thesis by simp
  next
    case (Some sm)
    obtain scale m where "sm = (scale, m)" by (cases sm)
    with * m0 Some that(1) that(2) [OF m0, of scale m] decimal_parts_scale show ?thesis
      by (simp add: not_less split: if_splits)
  qed
qed

text \<open>A variable-length integer takes between one and ten bytes, and the decoder reads it back
  from any place of any buffer, leaving the offset just behind it.\<close>

theorem varint_roundtrip:
  "decodeVarInt (pre @ encodeVarInt v @ rest) (length pre) = (v, length pre + length (encodeVarInt v))
   \<and> 0 < length (encodeVarInt v) \<and> length (encodeVarInt v) \<le> 10"
  using decodeVarInt_encodeVarInt encodeVarInt_length by blast

text \<open>The zigzag encoding is defined and reads back exactly for every \<open>int64_t\<close> but the least one,
  whose negation overflows: that one is undefined behaviour.\<close>

theorem varinteger_defined_unless_min:
  "if v = INT64_MIN then serializeVarInteger v = Inl Undefined
   else \<exists>bs. serializeVarInteger v = Inr bs \<and> deserializeVarInteger bs = Inr v"
proof (cases "serializeVarInteger v")
  case (Inl e)
  then show ?thesis by (simp add: serializeVarInteger_defined)
next
  case (Inr bs)
  then have "v \<noteq> INT64_MIN" by (metis Inl_Inr_False serializeVarInteger_defined)
  then show ?thesis using Inr deserializeVarInteger_serialize [OF Inr] by simp
qed

text \<open>C24. For every data type but the decimal ones, a value that serializes under it is read back from
  its bytes: unchanged, up to the width of a \<open>VarInteger\<close> and the value stored under \<open>Null\<close>.\<close>

theorem serialize_roundtrip:
  assumes "exact_type dt" and "serialize dt p = Inr bs"
  shows "deserialize dt bs = Inr (read_back dt p)"
  using assms by (rule deserialize_serialize)

theorem serialize_roundtrip_witness:
  "deserialize DT_Uint32 [0xDE, 0xAD, 0xBE, 0xEF] = Inr (PUint32 0xDEADBEEF)"
proof -
  have "serialize DT_Uint32 (PUint32 0xDEADBEEF) = Inr [0xDE, 0xAD, 0xBE, 0xEF]" by code_simp
  then show ?thesis using serialize_roundtrip [of DT_Uint32 "PUint32 0xDEADBEEF"] by simp
qed

text \<open>What a serialized \<open>VarDouble\<close> reads back as, on every branch: the very value after the raw
  fallback, otherwise the printed mantissa over the printed power of ten with the sign put back.\<close>

theorem vardouble_reads_back:
  assumes "serializeVarDouble v = Inr bs"
  shows "bs = fallbackFloat64 v \<and> deserializeVarDouble bs = Inr v
    \<or> (\<exists>m0 scale m. double_to_u64 (d_abs v) = Inr m0
         \<and> decimal_parts (show_double17 (d_abs v)) m0 = Some (scale, m)
         \<and> scale \<le> 63 \<and> m \<le> MAX_SAFE_INT
         \<and> deserializeVarDouble bs = Inr
             (let result = d_div (u64_to_double m) (pow10 scale)
              in if d_less_zero v then d_neg result else result))"
  using assms
proof (cases rule: serializeVarDouble_cases)
  case 1
  then show ?thesis by (simp add: deserializeVarDouble_fallback)
next
  case (2 m0 scale m)
  from this(1-4) deserializeVarDouble_decimal [OF 2(3), of "d_less_zero v" m] show ?thesis
    unfolding 2(5) by blast
qed

theorem vardouble_reads_back_witness:
  "serializeVarDouble 0x3FF8000000000000 = Inr [0x01, 0x0F]
   \<and> (\<exists>m0 scale m. double_to_u64 (d_abs 0x3FF8000000000000) = Inr m0
         \<and> decimal_parts (show_double17 (d_abs 0x3FF8000000000000)) m0 = Some (scale, m)
         \<and> deserializeVarDouble [0x01, 0x0F] = Inr
             (let result = d_div (u64_to_double m) (pow10 scale)
              in if d_less_zero 0x3FF8000000000000 then d_neg result else result))"
proof -
  have ser: "serializeVarDouble 0x3FF8000000000000 = Inr [0x01, 0x0F]" by code_simp
  have "[0x01, 0x0F] \<noteq> fallbackFloat64 0x3FF8000000000000" by code_simp
  then show ?thesis
    using vardouble_reads_back [OF ser] ser by blast
qed

lemma show_tiny: "show_double17 0x3E45798EE2308C3A = ''1e-08''"
  by code_simp

lemma tiny_bytes: "serialize DT_VarDouble (PDouble 0x3E45798EE2308C3A) = Inr [0, 0]"
proof -
  have "d_isfinite 0x3E45798EE2308C3A" "\<not> d_signbit 0x3E45798EE2308C3A"
    "d_abs 0x3E45798EE2308C3A = 0x3E45798EE2308C3A" "double_to_u64 0x3E45798EE2308C3A = Inr 0"
    "\<not> d_less_zero 0x3E45798EE2308C3A" "decimal_parts ''1e-08'' 0 = Some (0, 0)"
    "decimal_bytes False 0 0 = [0, 0]" "\<not> MAX_SAFE_INT < 0"
    by code_simp+
  then show ?thesis
    by (simp add: serializeVarDouble_def show_tiny)
qed

text \<open>A double whose 17 digits print in scientific notation without a point loses its value:
  \<open>1e-8\<close> prints as \<open>1e-08\<close>, the truncated value 0 is taken as its mantissa, and 0 comes back.\<close>

theorem vardouble_small_becomes_zero:
  "serialize DT_VarDouble (PDouble 0x3E45798EE2308C3A) = Inr [0, 0]
   \<and> deserialize DT_VarDouble [0, 0] = Inr (PDouble 0)
   \<and> show_double17 0x3E45798EE2308C3A = ''1e-08''"
proof -
  have "deserialize DT_VarDouble [0, 0] = Inr (PDouble 0)" by code_simp
  then show ?thesis using show_tiny tiny_bytes by blast
qed

lemma falls_back_3_14:
  "serialize DT_VarDouble (PDouble 0x40091EB851EB851F) = Inr [0x80, 0x40, 0x09, 0x1E, 0xB8, 0x51, 0xEB, 0x85, 0x1F]"
  by code_simp

text \<open>The printed form has 17 digits, so a decimal fraction that is not exact in binary almost never
  fits the mantissa: 3.14 goes over the wire as the nine-byte fallback, where the tests and the
  protocol's examples want the three bytes \<open>02 BA 02\<close> (which the decoder does read as 3.14).\<close>

theorem vardouble_3_14_falls_back:
  "serialize DT_VarDouble (PDouble 0x40091EB851EB851F)
     = Inr [0x80, 0x40, 0x09, 0x1E, 0xB8, 0x51, 0xEB, 0x85, 0x1F]
   \<and> deserialize DT_VarDouble [0x02, 0xBA, 0x02] = Inr (PDouble 0x40091EB851EB851F)"
proof -
  have "deserialize DT_VarDouble [0x02, 0xBA, 0x02] = Inr (PDouble 0x40091EB851EB851F)"
    by code_simp
  then show ?thesis using falls_back_3_14 by blast
qed

end
