(* ===== verification/Codec.thy ===== *)
theory Codec
  imports Serializer
begin

text \<open>
  \<open>protocol/codec.cpp\<close>: DLE byte stuffing, \<open>encode\<close>, \<open>encodeBatch\<close>, \<open>encodeHeartbeat\<close> and
  the batch \<open>decode\<close>. Buffers are scanned by index, as in the code.
\<close>

section \<open>DLE escaping\<close>

definition dleEncode :: "bytes \<Rightarrow> bytes" where
  "dleEncode raw =
     (let dleCount = length (filter (\<lambda>b. b = DLE) raw)
      in if dleCount = 0 then raw
         else foldl (\<lambda>out b. if b = DLE then out @ [b, DLE] else out @ [b]) [] raw)"

text \<open>The two loops of \<open>dleDecode\<close>: both skip the byte after a DLE.\<close>

fun dle_count :: "bytes \<Rightarrow> nat" where
  "dle_count [] = 0"
| "dle_count [b] = (if b = DLE then 1 else 0)"
| "dle_count (b # c # cs) = (if b = DLE then Suc (dle_count cs) else dle_count (c # cs))"

fun dle_unescape :: "bytes \<Rightarrow> bytes" where
  "dle_unescape [] = []"
| "dle_unescape [b] = (if b = DLE then [] else [b])"
| "dle_unescape (b # c # cs) =
     (if b = DLE then c # dle_unescape cs else b # dle_unescape (c # cs))"

definition dleDecode :: "bytes \<Rightarrow> bytes" where
  "dleDecode data = (if dle_count data = 0 then data else dle_unescape data)"

section \<open>Encoding frames\<close>

definition frame_payload :: "frame \<Rightarrow> bytes res" where
  "frame_payload f =
     (if isKeyRegistrationFrame (frameType f)
      then (case payload f of PString path \<Rightarrow> Inr (bytes_of_str path) | _ \<Rightarrow> Inl Bad_Variant_Access)
      else if isSignalFrame (frameType f) then Inr []
      else serialize (dataType f) (payload f))"

definition frame_header :: "frame \<Rightarrow> bytes" where
  "frame_header f =
     [frame_type_byte (frameType f),
      ucast (drop_bit 24 (keyId f) AND 0xFF), ucast (drop_bit 16 (keyId f) AND 0xFF),
      ucast (drop_bit 8 (keyId f) AND 0xFF), ucast (keyId f AND 0xFF),
      data_type_byte (dataType f)]"

definition encode :: "frame \<Rightarrow> bytes res" where
  "encode f =
     rbind (frame_payload f) (\<lambda>rawPayload.
       let rawBody = frame_header f @ rawPayload;
           escapedBody = dleEncode rawBody
       in Inr ([DLE, STX] @ escapedBody @ [DLE, ETX]))"

fun encodeBatch_loop :: "frame list \<Rightarrow> bytes \<Rightarrow> bytes res" where
  "encodeBatch_loop [] result = Inr result"
| "encodeBatch_loop (f # fs) result =
     rbind (encode f) (\<lambda>encoded. encodeBatch_loop fs (result @ encoded))"

definition encodeBatch :: "frame list \<Rightarrow> bytes res" where
  "encodeBatch fs = encodeBatch_loop fs []"

definition encodeHeartbeat :: bytes where
  "encodeHeartbeat = [DLE, ENQ]"

section \<open>Decoding a buffer\<close>

text \<open>
  The search for the unescaped DLE ETX from index \<open>i\<close>: the end of the body and the index after
  the terminator.
\<close>

function find_end :: "bytes \<Rightarrow> nat \<Rightarrow> (nat \<times> nat) res" where
  "find_end data i =
     (if i < length data
      then (if data ! i = DLE
            then (if length data \<le> i + 1
                  then Inl (DanWSError ''FRAME_PARSE_ERROR'' ''Unexpected end after DLE'')
                  else if data ! (i + 1) = ETX then Inr (i, i + 2)
                  else if data ! (i + 1) = DLE then find_end data (i + 2)
                  else Inl (DanWSError ''INVALID_DLE_SEQUENCE'' ''Invalid DLE sequence in frame''))
            else find_end data (i + 1))
      else Inl (DanWSError ''FRAME_PARSE_ERROR'' ''Missing DLE ETX terminator''))"
  by pat_completeness auto
termination
  by (relation "measure (\<lambda>(data, i). length data - i)") auto

declare find_end.simps [simp del]

lemma find_end_bounds:
  "find_end data i = Inr (e, j) \<Longrightarrow> i \<le> e \<and> j = e + 2 \<and> j \<le> length data"
proof (induction data i rule: find_end.induct)
  case (1 data i)
  note IH = "1.IH" [simplified]
  from "1.prems" show ?case
    by (subst (asm) find_end.simps) (fastforce split: if_splits dest: IH)
qed

definition read_keyId :: "bytes \<Rightarrow> u32" where
  "read_keyId body =
     push_bit 24 (ucast (body ! 1)) OR push_bit 16 (ucast (body ! 2))
       OR push_bit 8 (ucast (body ! 3)) OR ucast (body ! 4)"

definition too_short :: "nat \<Rightarrow> exn" where
  "too_short n = DanWSError ''FRAME_PARSE_ERROR'' (''Frame body too short: '' @ show_nat n @ '' bytes'')"

definition decode_body :: "bytes \<Rightarrow> frame res" where
  "decode_body decoded =
     (if length decoded < 6 then Inl (too_short (length decoded))
      else let ft = frame_type_of_byte (decoded ! 0);
               k = read_keyId decoded;
               dt = data_type_of_byte (decoded ! 5);
               payloadData = drop 6 decoded
           in rbind (if isKeyRegistrationFrame ft then Inr (PString (str_of_bytes payloadData))
                     else if isSignalFrame ft then Inr PNull
                     else deserialize dt payloadData)
                (\<lambda>p. Inr (mk_frame ft k dt p)))"

definition not_a_frame :: "nat \<Rightarrow> byte \<Rightarrow> byte \<Rightarrow> exn" where
  "not_a_frame i b0 b1 = DanWSError ''FRAME_PARSE_ERROR''
     (''Expected DLE STX at offset '' @ show_nat i @ '', got 0x'' @ show_hex (unat b0)
        @ '' 0x'' @ show_hex (unat b1))"

function decode_loop :: "bytes \<Rightarrow> nat \<Rightarrow> frame list \<Rightarrow> frame list res" where
  "decode_loop data i frames =
     (if i < length data
      then (if length data \<le> i + 1
            then Inl (DanWSError ''FRAME_PARSE_ERROR'' ''Unexpected end of data'')
            else if data ! i \<noteq> DLE \<or> data ! (i + 1) \<noteq> STX
            then Inl (not_a_frame i (data ! i) (data ! (i + 1)))
            else (case find_end data (i + 2) of
                    Inl e \<Rightarrow> Inl e
                  | Inr (bodyEnd, j) \<Rightarrow>
                      (case decode_body (dleDecode (take (bodyEnd - (i + 2)) (drop (i + 2) data))) of
                         Inl e \<Rightarrow> Inl e
                       | Inr f \<Rightarrow> decode_loop data j (frames @ [f]))))
      else Inr frames)"
  by pat_completeness auto
termination
  by (relation "measure (\<lambda>(data, i, _). length data - i)") (auto dest: find_end_bounds)

declare decode_loop.simps [simp del]

definition decode :: "bytes \<Rightarrow> frame list res" where
  "decode data = decode_loop data 0 []"

section \<open>Byte stuffing is a code\<close>

fun stuff :: "bytes \<Rightarrow> bytes" where
  "stuff [] = []"
| "stuff (b # bs) = (if b = DLE then DLE # DLE # stuff bs else b # stuff bs)"

lemma dleEncode_foldl:
  "foldl (\<lambda>out b. if b = DLE then out @ [b, DLE] else out @ [b]) out bs = out @ stuff bs"
  by (induction bs arbitrary: out) auto

lemma stuff_id: "filter (\<lambda>b. b = DLE) bs = [] \<Longrightarrow> stuff bs = bs"
  by (induction bs) (auto split: if_splits)

text \<open>The counting pass of the encoder only avoids a copy.\<close>

lemma dleEncode_stuff: "dleEncode bs = stuff bs"
  by (auto simp: dleEncode_def dleEncode_foldl stuff_id Let_def)

lemma dle_count_0: "dle_count bs = 0 \<Longrightarrow> dle_unescape bs = bs"
  by (induction bs rule: dle_unescape.induct) (auto split: if_splits)

lemma dleDecode_unescape: "dleDecode bs = dle_unescape bs"
  by (simp add: dleDecode_def dle_count_0)

lemma dle_unescape_Cons: "b \<noteq> DLE \<Longrightarrow> dle_unescape (b # bs) = b # dle_unescape bs"
  by (cases bs) simp_all

lemma dle_unescape_stuff: "dle_unescape (stuff bs) = bs"
  by (induction bs) (simp_all add: dle_unescape_Cons)

lemma stuff_append: "stuff (xs @ ys) = stuff xs @ stuff ys"
  by (induction xs) auto

lemma length_stuff: "length (stuff bs) = length bs + length (filter (\<lambda>b. b = DLE) bs)"
  by (induction bs) auto

lemma find_end_stuff:
  "find_end (pre @ stuff body @ DLE # ETX # rest) (length pre)
     = Inr (length pre + length (stuff body), length pre + length (stuff body) + 2)"
proof (induction body arbitrary: pre)
  case Nil
  show ?case by (subst find_end.simps) (simp add: nth_append)
next
  case (Cons b body)
  show ?case
  proof (cases "b = DLE")
    case True
    then show ?thesis
      using Cons.IH [of "pre @ [DLE, DLE]"]
      by (subst find_end.simps) (simp add: nth_append)
  next
    case False
    then show ?thesis
      using Cons.IH [of "pre @ [b]"]
      by (subst find_end.simps) (simp add: nth_append)
  qed
qed

text \<open>
  What framing needs of an escaping: it can be undone, and the scanner finds the terminator that
  follows it, whatever the escaped bytes and their surroundings are.
\<close>

locale byte_stuffing =
  fixes esc :: "bytes \<Rightarrow> bytes"
    and unesc :: "bytes \<Rightarrow> bytes"
    and scan :: "bytes \<Rightarrow> nat \<Rightarrow> (nat \<times> nat) res"
  assumes unesc_esc: "unesc (esc body) = body"
    and scan_esc: "scan (pre @ esc body @ DLE # ETX # rest) (length pre)
      = Inr (length pre + length (esc body), length pre + length (esc body) + 2)"
begin

lemma esc_inj: "esc x = esc y \<longleftrightarrow> x = y"
  by (metis unesc_esc)

lemma body_recovered:
  "scan (pre @ esc body @ DLE # ETX # rest) (length pre) = Inr (e, j) \<Longrightarrow>
   unesc (take (e - length pre) (drop (length pre) (pre @ esc body @ DLE # ETX # rest))) = body
     \<and> drop j (pre @ esc body @ DLE # ETX # rest) = rest"
  by (auto simp: scan_esc unesc_esc)

text \<open>A frame boundary is unambiguous: escaped bodies are prefix free.\<close>

lemma framing_unique:
  assumes "esc x @ DLE # ETX # xs = esc y @ DLE # ETX # ys"
  shows "x = y \<and> xs = ys"
proof -
  have "length (esc x) = length (esc y)"
    using scan_esc [of "[]" x xs] scan_esc [of "[]" y ys] assms by simp
  with assms have "esc x = esc y" "xs = ys" by auto
  then show ?thesis by (simp add: esc_inj)
qed

end

interpretation dle: byte_stuffing dleEncode dleDecode find_end
  by unfold_locales (simp_all add: dleEncode_stuff dleDecode_unescape dle_unescape_stuff find_end_stuff)

section \<open>Frames survive the wire\<close>

lemma read_keyId_header: "read_keyId (frame_header f @ p) = keyId f"
proof -
  have "readBE32 (frame_header f @ p) 1 = Inr (keyId f)"
    using readBE32_write [of "[frame_type_byte (frameType f)]" "keyId f"
        "data_type_byte (dataType f) # p"]
    by (simp add: frame_header_def writeBE32_def)
  then show ?thesis
    by (simp add: readBE32_def byte_at_def read_keyId_def frame_header_def)
qed

lemma decode_body_frame:
  assumes "ft_canonical (frameType f)" "dt_canonical (dataType f)"
  shows "decode_body (frame_header f @ p) =
    rbind (if isKeyRegistrationFrame (frameType f) then Inr (PString (str_of_bytes p))
           else if isSignalFrame (frameType f) then Inr PNull
           else deserialize (dataType f) p) (\<lambda>q. Inr (f\<lparr>payload := q\<rparr>))"
proof -
  have ft: "frame_type_of_byte (frame_type_byte (frameType f)) = frameType f"
    and dt: "data_type_of_byte (data_type_byte (dataType f)) = dataType f"
    using assms by (simp_all add: ft_canonical_def dt_canonical_def)
  have h: "(frame_header f @ p) ! 0 = frame_type_byte (frameType f)"
    "(frame_header f @ p) ! 5 = data_type_byte (dataType f)"
    "drop 6 (frame_header f @ p) = p" "length (frame_header f) = 6"
    by (simp_all add: frame_header_def)
  have m: "mk_frame (frameType f) (keyId f) (dataType f) q = f\<lparr>payload := q\<rparr>" for q
    by (simp add: mk_frame_def)
  show ?thesis by (simp add: decode_body_def read_keyId_header ft dt h m Let_def)
qed

text \<open>
  A frame is transportable when its bytes determine it: enumerators are canonical, a registration
  carries a string, a signal carries nothing, and any other value is one that its data type reads
  back.
\<close>

definition transportable :: "frame \<Rightarrow> bool" where
  "transportable f \<longleftrightarrow> ft_canonical (frameType f) \<and> dt_canonical (dataType f) \<and>
     (if isKeyRegistrationFrame (frameType f) then \<exists>s. payload f = PString s
      else if isSignalFrame (frameType f) then payload f = PNull
      else \<exists>bs. serialize (dataType f) (payload f) = Inr bs \<and> deserialize (dataType f) bs = Inr (payload f))"

lemma transportable_signal [simp]:
  "isSignalFrame ft \<Longrightarrow> transportable (signal ft k)"
  by (cases ft) (simp_all add: transportable_def isKeyRegistrationFrame_def)

lemma transportable_registration [simp]:
  "isKeyRegistrationFrame ft \<Longrightarrow> dt_canonical dt \<Longrightarrow> transportable (mk_frame ft k dt (PString s))"
  by (cases ft) (simp_all add: transportable_def isKeyRegistrationFrame_def)

lemma transportable_value:
  assumes "faithful_value dt p" "dt_canonical dt" "ft_canonical ft"
    "\<not> isKeyRegistrationFrame ft" "\<not> isSignalFrame ft"
  shows "transportable (mk_frame ft k dt p)"
  using assms wire.round_trip [OF assms(1)] by (simp add: transportable_def)

lemma decode_body_payload:
  assumes "transportable f" "frame_payload f = Inr p"
  shows "decode_body (frame_header f @ p) = Inr f"
  using assms by (cases f) (auto simp: decode_body_frame transportable_def frame_payload_def split: if_splits)

lemma transportable_payload: "transportable f \<Longrightarrow> \<exists>p. frame_payload f = Inr p"
  by (auto simp: transportable_def frame_payload_def)

lemma transportable_encode:
  assumes "transportable f"
  obtains p where "frame_payload f = Inr p"
    "encode f = Inr (DLE # STX # dleEncode (frame_header f @ p) @ [DLE, ETX])"
  using transportable_payload [OF assms] by (auto simp: encode_def Let_def)

lemma encodeBatch_loop_acc:
  "encodeBatch_loop fs acc = rbind (encodeBatch_loop fs []) (\<lambda>bs. Inr (acc @ bs))"
proof (induction fs arbitrary: acc)
  case (Cons f fs)
  show ?case
  proof (cases "encode f")
    case (Inr b)
    then show ?thesis
      using Cons.IH [of "acc @ b"] Cons.IH [of b] by (cases "encodeBatch_loop fs []") simp_all
  qed simp
qed simp

lemma encodeBatch_Nil [simp]: "encodeBatch [] = Inr []"
  by (simp add: encodeBatch_def)

lemma encodeBatch_Cons:
  "encodeBatch (f # fs) = rbind (encode f) (\<lambda>b. rbind (encodeBatch fs) (\<lambda>bs. Inr (b @ bs)))"
proof (cases "encode f")
  case (Inr b)
  then show ?thesis
    using encodeBatch_loop_acc [of fs b] by (simp add: encodeBatch_def)
qed (simp add: encodeBatch_def)

lemma decode_loop_body:
  assumes "decode_body body = Inr g" "bs = DLE # STX # dleEncode body @ [DLE, ETX]"
  shows "decode_loop (pre @ bs @ rest) (length pre) frames
    = decode_loop (pre @ bs @ rest) (length (pre @ bs)) (frames @ [g])"
proof -
  let ?esc = "dleEncode body"
  let ?data = "(pre @ [DLE, STX]) @ ?esc @ DLE # ETX # rest"
  have d: "pre @ bs @ rest = ?data" by (simp add: assms(2))
  have scan: "find_end ?data (length (pre @ [DLE, STX]))
      = Inr (length (pre @ [DLE, STX]) + length ?esc, length (pre @ [DLE, STX]) + length ?esc + 2)"
    by (rule dle.scan_esc)
  show ?thesis
    unfolding d using scan assms
    by (subst decode_loop.simps) (simp add: nth_append dle.unesc_esc)
qed

lemma decode_one:
  assumes "decode_body body = Inr g" "bs = DLE # STX # dleEncode body @ [DLE, ETX]"
  shows "decode bs = Inr [g]"
  using decode_loop_body [OF assms, of "[]" "[]" "[]"]
  by (simp add: decode_def) (subst decode_loop.simps, simp)

lemma decode_loop_frame:
  assumes "transportable f" "encode f = Inr bs"
  shows "decode_loop (pre @ bs @ rest) (length pre) frames
    = decode_loop (pre @ bs @ rest) (length (pre @ bs)) (frames @ [f])"
proof -
  obtain p where "frame_payload f = Inr p" "bs = DLE # STX # dleEncode (frame_header f @ p) @ [DLE, ETX]"
    using assms by (metis transportable_encode sum.inject(2))
  then show ?thesis using decode_body_payload [OF assms(1)] by (intro decode_loop_body)
qed

lemma decode_loop_batch:
  assumes "list_all transportable fs" "encodeBatch fs = Inr bs"
  shows "decode_loop (pre @ bs) (length pre) frames = Inr (frames @ fs)"
  using assms
proof (induction fs arbitrary: pre bs frames)
  case Nil
  then show ?case by (subst decode_loop.simps) simp
next
  case (Cons f fs)
  then obtain b bs' where b: "encode f = Inr b" "encodeBatch fs = Inr bs'" "bs = b @ bs'"
    by (auto simp: encodeBatch_Cons rbind_eq_Inr)
  with Cons.prems have "decode_loop (pre @ b @ bs') (length pre) frames
      = decode_loop (pre @ b @ bs') (length (pre @ b)) (frames @ [f])"
    by (intro decode_loop_frame) auto
  also have "\<dots> = Inr ((frames @ [f]) @ fs)"
    using Cons.IH [of bs' "pre @ b" "frames @ [f]"] Cons.prems b by simp
  finally show ?case by (simp add: b)
qed

lemma encodeBatch_defined:
  "list_all transportable fs \<Longrightarrow> \<exists>bs. encodeBatch fs = Inr bs"
proof (induction fs)
  case (Cons f fs)
  then obtain b bs where "encode f = Inr b" "encodeBatch fs = Inr bs"
    by (metis list.pred_inject(2) transportable_encode)
  then show ?case by (simp add: encodeBatch_Cons)
qed simp

lemma find_end_error:
  "find_end data i = Inl e \<Longrightarrow> \<exists>c m. e = DanWSError c m"
proof (induction data i rule: find_end.induct)
  case (1 data i)
  note IH = "1.IH" [simplified]
  from "1.prems" show ?case
    by (subst (asm) find_end.simps) (fastforce split: if_splits dest: IH)
qed

lemma decode_body_error: "decode_body b = Inl e \<Longrightarrow> \<exists>c m. e = DanWSError c m"
  by (auto simp: decode_body_def too_short_def rbind_eq_Inl Let_def
      split: if_splits dest: deserialize_only_DanWSError)

lemma decode_loop_only_DanWSError:
  "decode_loop data i frames = Inl e \<Longrightarrow> \<exists>c m. e = DanWSError c m"
proof (induction data i frames rule: decode_loop.induct)
  case (1 data i frames)
  show ?case
  proof (cases "\<exists>e' j f. i + 1 < length data \<and> data ! i = DLE \<and> data ! (i + 1) = STX
      \<and> find_end data (i + 2) = Inr (e', j)
      \<and> decode_body (dleDecode (take (e' - (i + 2)) (drop (i + 2) data))) = Inr f")
    case True
    then obtain e' j f where *: "i + 1 < length data" "data ! i = DLE" "data ! (i + 1) = STX"
      "find_end data (i + 2) = Inr (e', j)"
      "decode_body (dleDecode (take (e' - (i + 2)) (drop (i + 2) data))) = Inr f"
      by blast
    then have "decode_loop data j (frames @ [f]) = Inl e"
      using "1.prems" by (subst (asm) decode_loop.simps) simp
    then show ?thesis
      using "1.IH" [OF _ _ _ *(4) refl *(5)] * by simp
  next
    case False
    with "1.prems" show ?thesis
      by (subst (asm) decode_loop.simps)
         (auto simp: not_a_frame_def not_le dest: find_end_error decode_body_error
            split: if_splits sum.splits prod.splits)
  qed
qed

section \<open>Properties\<close>

text \<open>C19. A batch of frames survives the wire: if every frame is determined by its bytes, then
  \<open>encodeBatch\<close> returns normally, and \<open>decode\<close> returns exactly the frames that were encoded, in
  order, whatever DLE bytes their keys and payloads contain.\<close>

theorem decode_encodeBatch:
  assumes "list_all transportable fs"
  shows "\<exists>bs. encodeBatch fs = Inr bs \<and> decode bs = Inr fs"
  using encodeBatch_defined [OF assms] decode_loop_batch [OF assms, of _ "[]" "[]"]
  by (auto simp: decode_def)

theorem decode_encodeBatch_witness:
  "\<exists>bs. encodeBatch [mk_frame ServerValue 0x10101010 DT_Binary (PBinary [0x10, 0x03]), signal ServerSync 0] = Inr bs
     \<and> decode bs = Inr [mk_frame ServerValue 0x10101010 DT_Binary (PBinary [0x10, 0x03]), signal ServerSync 0]"
proof (rule decode_encodeBatch)
  have "transportable (mk_frame ServerValue 0x10101010 DT_Binary (PBinary [0x10, 0x03]))"
    by (rule transportable_value) (simp_all add: faithful_value_def isKeyRegistrationFrame_def)
  then show "list_all transportable
      [mk_frame ServerValue 0x10101010 DT_Binary (PBinary [0x10, 0x03]), signal ServerSync 0]"
    by simp
qed

text \<open>Frame boundaries are unambiguous: two encoded frames followed by anything are equal only if
  the frames are equal and so is what follows; no encoded frame is a proper prefix of another.\<close>

theorem encode_prefix_free:
  assumes "transportable f" and "transportable g" and "encode f = Inr x" and "encode g = Inr y"
    and "x @ xs = y @ ys"
  shows "f = g \<and> xs = ys"
proof -
  obtain p where p: "frame_payload f = Inr p" "x = DLE # STX # dleEncode (frame_header f @ p) @ [DLE, ETX]"
    using transportable_encode [OF assms(1)] assms(3) by (metis sum.inject(2))
  obtain q where q: "frame_payload g = Inr q" "y = DLE # STX # dleEncode (frame_header g @ q) @ [DLE, ETX]"
    using transportable_encode [OF assms(2)] assms(4) by (metis sum.inject(2))
  have "frame_header f @ p = frame_header g @ q \<and> xs = ys"
    using assms(5) p q by (intro dle.framing_unique) simp
  then show ?thesis
    using decode_body_payload [OF assms(1) p(1)] decode_body_payload [OF assms(2) q(1)] by simp
qed

theorem encode_prefix_free_witness:
  "signal ServerSync 0 = signal ServerSync 0 \<and> [7 :: byte] = [7]"
  by (rule encode_prefix_free [of _ _ "[0x10, 0x02, 0x04, 0, 0, 0, 0, 0, 0x10, 0x03]"
        "[0x10, 0x02, 0x04, 0, 0, 0, 0, 0, 0x10, 0x03]"]) (simp_all, code_simp+)

text \<open>Decoding hostile input raises only the library's own exceptions: for every byte buffer,
  \<open>decode\<close> returns frames or throws a \<open>DanWSError\<close>; no read through the payload pointer is out
  of bounds, no conversion is undefined, and no other exception escapes.\<close>

theorem decode_only_DanWSError:
  assumes "decode data = Inl e"
  shows "\<exists>c m. e = DanWSError c m"
  using assms decode_loop_only_DanWSError by (simp add: decode_def)

theorem decode_only_DanWSError_witness:
  "\<exists>e. decode [0x10, 0x02, 0x01, 0, 0, 0, 1, 0x01, 0x02, 0x10, 0x03] = Inl e \<and> (\<exists>c m. e = DanWSError c m)"
proof -
  have bad: "decode [0x10, 0x02, 0x01, 0, 0, 0, 1, 0x01, 0x02, 0x10, 0x03]
      = Inl (DanWSError ''INVALID_VALUE_TYPE'' ''Bool payload must be 0x00 or 0x01'')"
    by code_simp
  then show ?thesis using decode_only_DanWSError [OF bad] by blast
qed

end
