(* ===== verification/Stream_Parser.thy ===== *)
theory Stream_Parser
  imports Codec
begin

text \<open>
  \<open>protocol/stream_parser.cpp\<close>: the incremental parser. Its callbacks do not touch the parser,
  so a call of \<open>feed\<close> is modelled by the new parser and the events it emits, in order: a frame,
  a heartbeat or an error message for every registered callback of that kind.
\<close>

datatype parser_state = Idle | AfterDLE | InFrame | InFrameAfterDLE

record stream_parser =
  ps_state :: parser_state
  ps_buffer :: bytes
  ps_maxBufferSize :: nat

datatype event = EvFrame frame | EvHeartbeat | EvError string

definition new_parser :: "nat \<Rightarrow> stream_parser" where
  "new_parser maxSize = \<lparr>ps_state = Idle, ps_buffer = [], ps_maxBufferSize = maxSize\<rparr>"

text \<open>The default argument of the constructor.\<close>

definition default_parser :: stream_parser where
  "default_parser = new_parser 1048576"

definition parser_reset :: "stream_parser \<Rightarrow> stream_parser" where
  "parser_reset p = p\<lparr>ps_state := Idle, ps_buffer := []\<rparr>"

definition parseFrame :: "bytes \<Rightarrow> frame res" where
  "parseFrame body =
     (if length body < 6
      then Inl (DanWSError ''FRAME_PARSE_ERROR''
             (''Frame body too short: '' @ show_nat (length body) @ '' bytes''))
      else let ft = frame_type_of_byte (body ! 0);
               k = push_bit 24 (ucast (body ! 1)) OR push_bit 16 (ucast (body ! 2))
                     OR push_bit 8 (ucast (body ! 3)) OR ucast (body ! 4);
               dt = data_type_of_byte (body ! 5);
               rawPayload = drop 6 body
           in rbind (if isKeyRegistrationFrame ft then Inr (PString (str_of_bytes rawPayload))
                     else if isSignalFrame ft then Inr PNull
                     else deserialize dt rawPayload)
                (\<lambda>p. Inr (mk_frame ft k dt p)))"

text \<open>\<open>e.what()\<close>; only for \<open>DanWSError\<close> does the code choose the text.\<close>

fun what :: "exn \<Rightarrow> string" where
  "what (DanWSError c m) = m"
| "what _ = ''std::exception''"

definition feed_byte :: "stream_parser \<Rightarrow> byte \<Rightarrow> stream_parser \<times> event list" where
  "feed_byte p b =
     (case ps_state p of
        Idle \<Rightarrow>
          if b = DLE then (p\<lparr>ps_state := AfterDLE\<rparr>, [])
          else (p, [EvError (''Unexpected byte 0x'' @ show_hex (unat b) @ '' outside frame'')])
      | AfterDLE \<Rightarrow>
          if b = STX then (p\<lparr>ps_state := InFrame, ps_buffer := []\<rparr>, [])
          else if b = ENQ then (p\<lparr>ps_state := Idle\<rparr>, [EvHeartbeat])
          else (p\<lparr>ps_state := Idle\<rparr>, [EvError (''Invalid DLE sequence: 0x10 0x'' @ show_hex (unat b))])
      | InFrame \<Rightarrow>
          if b = DLE then (p\<lparr>ps_state := InFrameAfterDLE\<rparr>, [])
          else if ps_maxBufferSize p \<le> length (ps_buffer p)
          then (p\<lparr>ps_buffer := [], ps_state := Idle\<rparr>, [EvError ''Frame exceeds maximum buffer size''])
          else (p\<lparr>ps_buffer := ps_buffer p @ [b]\<rparr>, [])
      | InFrameAfterDLE \<Rightarrow>
          if b = ETX
          then (p\<lparr>ps_buffer := [], ps_state := Idle\<rparr>,
                [case parseFrame (ps_buffer p) of Inr f \<Rightarrow> EvFrame f | Inl e \<Rightarrow> EvError (what e)])
          else if b = DLE
          then (p\<lparr>ps_buffer := ps_buffer p @ [DLE], ps_state := InFrame\<rparr>, [])
          else (p\<lparr>ps_buffer := [], ps_state := Idle\<rparr>,
                [EvError (''Invalid DLE sequence in frame: 0x10 0x'' @ show_hex (unat b))]))"

fun feed :: "stream_parser \<Rightarrow> bytes \<Rightarrow> stream_parser \<times> event list" where
  "feed p [] = (p, [])"
| "feed p (b # bs) =
     (let (p', evs) = feed_byte p b; (p'', evs') = feed p' bs in (p'', evs @ evs'))"

section \<open>Chunks and runs\<close>

lemma parseFrame_decode_body: "parseFrame = decode_body"
  by (rule ext) (simp add: parseFrame_def decode_body_def read_keyId_def too_short_def Let_def)

lemma feed_Cons_split [simp]:
  "fst (feed p (b # bs)) = fst (feed (fst (feed_byte p b)) bs)"
  "snd (feed p (b # bs)) = snd (feed_byte p b) @ snd (feed (fst (feed_byte p b)) bs)"
  by (simp_all add: Let_def split_beta)

lemma feed_append_split:
  "fst (feed p (xs @ ys)) = fst (feed (fst (feed p xs)) ys)"
  "snd (feed p (xs @ ys)) = snd (feed p xs) @ snd (feed (fst (feed p xs)) ys)"
  by (induction xs arbitrary: p) (simp_all del: feed.simps(2))

lemma feed_append:
  "feed p (xs @ ys) = (let (p', evs) = feed p xs; (p'', evs') = feed p' ys in (p'', evs @ evs'))"
  by (simp add: prod_eq_iff feed_append_split Let_def split_beta)

lemma feed_state_foldl: "fst (feed p bs) = foldl (\<lambda>p b. fst (feed_byte p b)) p bs"
  by (induction bs arbitrary: p) (simp_all del: feed.simps(2))

lemma parser_same [simp]:
  "ps_state p = st \<Longrightarrow> p\<lparr>ps_buffer := bf, ps_state := st\<rparr> = p\<lparr>ps_buffer := bf\<rparr>"
  "ps_state p = st \<Longrightarrow> p\<lparr>ps_state := st, ps_buffer := bf\<rparr> = p\<lparr>ps_buffer := bf\<rparr>"
  "ps_buffer p = bf \<Longrightarrow> p\<lparr>ps_buffer := bf\<rparr> = p"
  by (cases p, simp)+

lemma feed_byte_max [frame_rules, simp]: "ps_maxBufferSize (fst (feed_byte p b)) = ps_maxBufferSize p"
  by (simp add: feed_byte_def split: parser_state.split)

lemma feed_max [frame_rules, simp]: "ps_maxBufferSize (fst (feed p bs)) = ps_maxBufferSize p"
  by (induction bs arbitrary: p) (simp_all del: feed.simps(2))

text \<open>Outside a frame nothing is buffered.\<close>

definition parser_ok :: "stream_parser \<Rightarrow> bool" where
  "parser_ok p \<longleftrightarrow> (ps_state p = Idle \<or> ps_state p = AfterDLE \<longrightarrow> ps_buffer p = [])"

lemma parser_ok_feed_byte [inv_intros]: "parser_ok p \<Longrightarrow> parser_ok (fst (feed_byte p b))"
  by (auto simp: parser_ok_def feed_byte_def split: parser_state.splits)

interpretation parser: invariant_machine "\<lambda>p b. fst (feed_byte p b)" parser_ok
  by unfold_locales (rule parser_ok_feed_byte)

lemma parser_ok_feed [inv_intros]: "parser_ok p \<Longrightarrow> parser_ok (fst (feed p bs))"
  by (simp add: feed_state_foldl parser.good_run)

lemma parser_ok_new [simp]: "parser_ok (new_parser n)"
  by (simp add: parser_ok_def new_parser_def)

section \<open>Whole frames\<close>

lemma feed_stuffed:
  assumes "ps_state p = InFrame" "length (ps_buffer p) + length body \<le> ps_maxBufferSize p"
  shows "feed p (stuff body @ rest) = feed (p\<lparr>ps_buffer := ps_buffer p @ body\<rparr>) rest"
  using assms
proof (induction body arbitrary: p)
  case (Cons b body)
  show ?case
  proof (cases "b = DLE")
    case True
    then show ?thesis
      using Cons.prems Cons.IH [of "p\<lparr>ps_buffer := ps_buffer p @ [b], ps_state := InFrame\<rparr>"]
      by (simp add: feed_byte_def Let_def)
  next
    case False
    then show ?thesis
      using Cons.prems Cons.IH [of "p\<lparr>ps_buffer := ps_buffer p @ [b]\<rparr>"]
      by (simp add: feed_byte_def Let_def)
  qed
qed simp

definition body_event :: "bytes \<Rightarrow> event" where
  "body_event body = (case parseFrame body of Inr f \<Rightarrow> EvFrame f | Inl e \<Rightarrow> EvError (what e))"

lemma feed_framed:
  assumes "ps_state p = Idle" "length body \<le> ps_maxBufferSize p"
  shows "feed p (DLE # STX # stuff body @ DLE # ETX # rest)
    = (let (p', evs) = feed (p\<lparr>ps_buffer := []\<rparr>) rest in (p', body_event body # evs))"
proof -
  show ?thesis
    using assms feed_stuffed [of "p\<lparr>ps_state := InFrame, ps_buffer := []\<rparr>" body "DLE # ETX # rest"]
    by (simp add: feed_byte_def body_event_def Let_def split: prod.split)
qed

text \<open>The length of the body that a frame is encoded to.\<close>

definition body_length :: "frame \<Rightarrow> nat" where
  "body_length f = (case frame_payload f of Inr p \<Rightarrow> 6 + length p | Inl _ \<Rightarrow> 6)"

lemma feed_frame:
  assumes "transportable f" "encode f = Inr bs" "body_length f \<le> ps_maxBufferSize p"
    "ps_state p = Idle"
  shows "feed p (bs @ rest) = (let (p', evs) = feed (p\<lparr>ps_buffer := []\<rparr>) rest in (p', EvFrame f # evs))"
proof -
  obtain q where q: "frame_payload f = Inr q"
    "bs = DLE # STX # dleEncode (frame_header f @ q) @ [DLE, ETX]"
    using assms by (metis transportable_encode sum.inject(2))
  have "body_event (frame_header f @ q) = EvFrame f"
    using decode_body_payload [OF assms(1) q(1)] by (simp add: body_event_def parseFrame_decode_body)
  moreover have "length (frame_header f @ q) \<le> ps_maxBufferSize p"
    using assms(3) q by (simp add: body_length_def frame_header_def)
  ultimately show ?thesis
    using assms(4) feed_framed [of p "frame_header f @ q" rest] by (simp add: q dleEncode_stuff)
qed

lemma feed_batch:
  assumes "list_all transportable fs" "encodeBatch fs = Inr bs"
    "list_all (\<lambda>f. body_length f \<le> ps_maxBufferSize p) fs" "ps_state p = Idle" "ps_buffer p = []"
  shows "feed p bs = (p, map EvFrame fs)"
  using assms
proof (induction fs arbitrary: bs)
  case (Cons f fs)
  then obtain b bs' where b: "encode f = Inr b" "encodeBatch fs = Inr bs'" "bs = b @ bs'"
    by (auto simp: encodeBatch_Cons rbind_eq_Inr)
  moreover have "feed p bs' = (p, map EvFrame fs)"
    using Cons b by simp
  ultimately show ?case
    using Cons.prems feed_frame [of f b p bs'] by simp
qed simp

section \<open>Resynchronisation\<close>

definition in_or_out :: "stream_parser \<Rightarrow> bool" where
  "in_or_out p \<longleftrightarrow> ps_state p = Idle \<or> ps_state p = InFrame"

lemma header_in_or_out: "in_or_out (fst (feed p [DLE, STX]))"
  by (auto simp: in_or_out_def feed_byte_def Let_def split: prod.splits parser_state.splits)

lemma escape_in_or_out: "in_or_out p \<Longrightarrow> in_or_out (fst (feed p (stuff body)))"
proof (induction body arbitrary: p)
  case (Cons b body)
  have "in_or_out (fst (feed p (if b = DLE then [DLE, DLE] else [b])))"
    using Cons.prems
    by (auto simp: in_or_out_def feed_byte_def Let_def split: prod.splits parser_state.splits)
  from Cons.IH [OF this] show ?case
    by (cases "b = DLE") (simp_all del: feed.simps(2))
qed simp

lemma trailer_idle: "in_or_out p \<Longrightarrow> ps_state (fst (feed p [DLE, ETX])) = Idle"
  by (auto simp: in_or_out_def feed_byte_def Let_def split: prod.splits parser_state.splits)

lemma frame_resyncs:
  assumes "encode f = Inr bs"
  shows "ps_state (fst (feed p bs)) = Idle"
proof -
  obtain body where bs: "bs = [DLE, STX] @ stuff body @ [DLE, ETX]"
    using assms by (auto simp: encode_def rbind_eq_Inr dleEncode_stuff Let_def)
  have "in_or_out (fst (feed (fst (feed p [DLE, STX])) (stuff body)))"
    by (intro escape_in_or_out header_in_or_out)
  then have "ps_state (fst (feed (fst (feed (fst (feed p [DLE, STX])) (stuff body))) [DLE, ETX])) = Idle"
    by (rule trailer_idle)
  then show ?thesis
    unfolding bs feed_state_foldl by simp
qed

section \<open>The buffer limit\<close>

text \<open>
  The limit is checked for plain bytes only: an escaped DLE is pushed without looking at the size.
\<close>

lemma escaped_DLE_unbounded:
  "ps_state p = InFrame \<Longrightarrow>
   feed p (concat (replicate n [DLE, DLE])) = (p\<lparr>ps_buffer := ps_buffer p @ replicate n DLE\<rparr>, [])"
proof (induction n arbitrary: p)
  case (Suc n)
  then show ?case
    using Suc.IH [of "p\<lparr>ps_buffer := ps_buffer p @ [DLE], ps_state := InFrame\<rparr>"]
    by (simp add: feed_byte_def Let_def)
qed simp

lemma feed_byte_buffer: "length (ps_buffer (fst (feed_byte p b))) \<le> Suc (length (ps_buffer p))"
  by (simp add: feed_byte_def split: parser_state.split)


section \<open>The parser and the batch decoder agree\<close>

lemma find_end_slice:
  "find_end data i = Inr (e, j) \<Longrightarrow>
   \<exists>body. drop i data = stuff body @ DLE # ETX # drop j data \<and> take (e - i) (drop i data) = stuff body"
proof (induction data i rule: find_end.induct)
  case (1 data i)
  have lt: "i < length data" using "1.prems" by (subst (asm) find_end.simps) (simp split: if_splits)
  then have d: "drop i data = data ! i # drop (i + 1) data" by (simp add: Cons_nth_drop_Suc)
  show ?case
  proof (cases "data ! i = DLE")
    case False
    have *: "find_end data (i + 1) = Inr (e, j)"
      using "1.prems" lt False by (subst (asm) find_end.simps) simp
    then have "i + 1 \<le> e" using find_end_bounds by blast
    moreover obtain body where "drop (i + 1) data = stuff body @ DLE # ETX # drop j data"
      "take (e - (i + 1)) (drop (i + 1) data) = stuff body"
      using "1.IH"(2) [OF lt False *] by blast
    ultimately have "drop i data = stuff (data ! i # body) @ DLE # ETX # drop j data
        \<and> take (e - i) (drop i data) = stuff (data ! i # body)"
      using d False by (simp add: take_Cons')
    then show ?thesis by blast
  next
    case True
    with "1.prems" lt have lt2: "i + 1 < length data"
      by (subst (asm) find_end.simps) (simp split: if_splits)
    then have d2: "drop i data = DLE # data ! (i + 1) # drop (i + 2) data"
      using d True by (simp add: Cons_nth_drop_Suc)
    show ?thesis
    proof (cases "data ! (i + 1) = ETX")
      case True
      then have "e = i" "j = i + 2"
        using "1.prems" lt2 \<open>data ! i = DLE\<close> by (subst (asm) find_end.simps, simp)+
      then show ?thesis using d2 True by (intro exI [of _ "[]"]) simp
    next
      case False
      have D: "data ! (i + 1) = DLE" and *: "find_end data (i + 2) = Inr (e, j)"
        using "1.prems" lt2 \<open>data ! i = DLE\<close> False
        by (subst (asm) find_end.simps, simp split: if_splits)+
      then have "i + 2 \<le> e" using find_end_bounds by blast
      moreover obtain body where "drop (i + 2) data = stuff body @ DLE # ETX # drop j data"
        "take (e - (i + 2)) (drop (i + 2) data) = stuff body"
        using "1.IH"(1) [OF lt \<open>data ! i = DLE\<close> _ False D *] lt2 by (auto simp: not_le)
      ultimately have "drop i data = stuff (DLE # body) @ DLE # ETX # drop j data
          \<and> take (e - i) (drop i data) = stuff (DLE # body)"
        using d2 D by (auto simp: take_Cons' numeral_2_eq_2)
      then show ?thesis by blast
    qed
  qed
qed

lemma decode_loop_feed:
  assumes "decode_loop data i frames = Inr fs" "length data \<le> ps_maxBufferSize p"
    "ps_state p = Idle" "ps_buffer p = []"
  shows "\<exists>gs. fs = frames @ gs \<and> feed p (drop i data) = (p, map EvFrame gs)"
  using assms(1,2)
proof (induction data i frames rule: decode_loop.induct)
  case (1 data i frames)
  show ?case
  proof (cases "i < length data")
    case False
    with "1.prems"(1) show ?thesis
      by (subst (asm) decode_loop.simps) simp
  next
    case True
    with "1.prems"(1) obtain e j f where *: "i + 1 < length data" "data ! i = DLE" "data ! (i + 1) = STX"
      "find_end data (i + 2) = Inr (e, j)"
      "decode_body (dleDecode (take (e - (i + 2)) (drop (i + 2) data))) = Inr f"
      "decode_loop data j (frames @ [f]) = Inr fs"
      by (subst (asm) decode_loop.simps) (auto split: if_splits sum.splits prod.splits)
    obtain body where body: "drop (i + 2) data = stuff body @ DLE # ETX # drop j data"
      "take (e - (i + 2)) (drop (i + 2) data) = stuff body"
      using find_end_slice [OF *(4)] by blast
    have d: "drop i data = DLE # STX # stuff body @ DLE # ETX # drop j data"
      using *(1-3) body(1) by (metis Cons_nth_drop_Suc Suc_eq_plus1 Suc_lessD add_2_eq_Suc')
    have "body_event body = EvFrame f"
      using *(5) body(2)
      by (simp add: dleDecode_unescape dle_unescape_stuff body_event_def parseFrame_decode_body)
    moreover have "length body \<le> length (drop i data)"
      unfolding d by (simp add: length_stuff)
    then have "length body \<le> ps_maxBufferSize p"
      using "1.prems"(2) by simp
    moreover obtain gs where "fs = frames @ f # gs" "feed p (drop j data) = (p, map EvFrame gs)"
      using "1.IH" [OF True _ _ *(4) refl *(5)] *(1-3,6) "1.prems"(2) by auto
    ultimately show ?thesis
      using feed_framed [OF assms(3), of body "drop j data"] assms(4) by (auto simp: d)
  qed
qed

section \<open>Properties\<close>

text \<open>The calls of \<open>feed\<close> that a sequence of network messages causes.\<close>

fun feed_chunks :: "stream_parser \<Rightarrow> bytes list \<Rightarrow> stream_parser \<times> event list" where
  "feed_chunks p [] = (p, [])"
| "feed_chunks p (c # cs) =
     (let (p', evs) = feed p c; (p'', evs') = feed_chunks p' cs in (p'', evs @ evs'))"

lemma feed_chunks_concat: "feed_chunks p cs = feed p (concat cs)"
  by (induction cs arbitrary: p) (simp_all add: feed_append)

text \<open>
  A sender may put heartbeats between batches of frames.
\<close>

fun wire_image :: "(frame list \<times> bool) list \<Rightarrow> bytes res" where
  "wire_image [] = Inr []"
| "wire_image ((fs, beat) # segs) =
     rbind (encodeBatch fs) (\<lambda>bs. rbind (wire_image segs) (\<lambda>rest.
       Inr (bs @ (if beat then encodeHeartbeat else []) @ rest)))"

fun wire_events :: "(frame list \<times> bool) list \<Rightarrow> event list" where
  "wire_events [] = []"
| "wire_events ((fs, beat) # segs) =
     map EvFrame fs @ (if beat then [EvHeartbeat] else []) @ wire_events segs"

lemma feed_heartbeat:
  "ps_state p = Idle \<Longrightarrow> feed p encodeHeartbeat = (p, [EvHeartbeat])"
  by (cases p) (simp add: encodeHeartbeat_def feed_byte_def)

lemma feed_wire_image:
  assumes "list_all (\<lambda>(fs, _). list_all (\<lambda>f. transportable f \<and> body_length f \<le> ps_maxBufferSize p) fs) segs"
    "wire_image segs = Inr bs" "ps_state p = Idle" "ps_buffer p = []"
  shows "feed p bs = (p, wire_events segs)"
  using assms(1,2)
proof (induction segs arbitrary: bs)
  case (Cons seg segs)
  obtain fs beat where seg: "seg = (fs, beat)" by (cases seg)
  with Cons.prems obtain b rest where b: "encodeBatch fs = Inr b" "wire_image segs = Inr rest"
    "bs = b @ (if beat then encodeHeartbeat else []) @ rest"
    by (auto simp: rbind_eq_Inr)
  have "feed p b = (p, map EvFrame fs)"
    using Cons.prems seg b assms(3,4) by (intro feed_batch) (auto simp: list_all_iff)
  moreover have "feed p rest = (p, wire_events segs)"
    using Cons.prems seg b by (intro Cons.IH) auto
  ultimately show ?case
    by (simp add: seg b feed_append feed_heartbeat assms(3))
qed simp

text \<open>C11. Whatever way the network cuts the byte stream into messages, the parser delivers exactly
  the frames and heartbeats that were sent, in order and without an error, and is ready for the
  next frame; the only conditions are that each frame is determined by its bytes and that its
  body fits the buffer.\<close>

theorem parser_delivers_what_was_sent:
  assumes "list_all (\<lambda>(fs, _). list_all (\<lambda>f. transportable f \<and> body_length f \<le> n) fs) segs"
    and "wire_image segs = Inr bs"
    and "concat chunks = bs"
  shows "feed_chunks (new_parser n) chunks = (new_parser n, wire_events segs)"
  unfolding feed_chunks_concat assms(3)
  by (rule feed_wire_image) (use assms in \<open>simp_all add: new_parser_def\<close>)

theorem parser_delivers_what_was_sent_witness:
  "feed_chunks (new_parser 64)
     [[0x10, 0x02, 0x22, 0, 0], [0, 0x10], [0x10, 0, 0x10, 0x03, 0x10, 0x05]]
   = (new_parser 64, [EvFrame (signal ServerKeyDelete 0x10), EvHeartbeat])"
proof -
  have "list_all (\<lambda>(fs, _). list_all (\<lambda>f. transportable f \<and> body_length f \<le> 64) fs)
      [([signal ServerKeyDelete 0x10], True)]"
    by (simp add: body_length_def frame_payload_def isKeyRegistrationFrame_def)
  moreover have "wire_image [([signal ServerKeyDelete 0x10], True)]
      = Inr [0x10, 0x02, 0x22, 0, 0, 0, 0x10, 0x10, 0, 0x10, 0x03, 0x10, 0x05]"
    by code_simp
  ultimately have "feed_chunks (new_parser 64)
      [[0x10, 0x02, 0x22, 0, 0], [0, 0x10], [0x10, 0, 0x10, 0x03, 0x10, 0x05]]
    = (new_parser 64, wire_events [([signal ServerKeyDelete 0x10], True)])"
    by (rule parser_delivers_what_was_sent) simp
  then show ?thesis by simp
qed

text \<open>C23. The streaming parser and the batch decoder are interchangeable: where \<open>decode\<close> accepts a
  buffer, a fresh parser whose limit is at least the buffer's size emits the same frames, in
  order, no error, and is idle again.\<close>

theorem parser_refines_decode:
  assumes "decode data = Inr fs" and "length data \<le> n"
  shows "feed (new_parser n) data = (new_parser n, map EvFrame fs)"
  using decode_loop_feed [of data 0 "[]" fs "new_parser n"] assms
  by (auto simp: decode_def new_parser_def)

theorem parser_refines_decode_witness:
  "feed (new_parser 10) [0x10, 0x02, 0x04, 0, 0, 0, 0, 0, 0x10, 0x03]
     = (new_parser 10, [EvFrame (signal ServerSync 0)])"
proof -
  have "decode [0x10, 0x02, 0x04, 0, 0, 0, 0, 0, 0x10, 0x03] = Inr [signal ServerSync 0]"
    by code_simp
  from parser_refines_decode [OF this, of 10] show ?thesis by simp
qed

text \<open>C38. The framing is self-synchronising: whatever state the parser was left in (in the middle of a
  frame, after a DLE, with any buffered bytes), one complete encoded frame brings it back to the
  idle state, so the frame after it is delivered.\<close>

theorem parser_self_synchronises:
  assumes "encode f = Inr junk" and "transportable g" and "encode g = Inr bs"
    and "body_length g \<le> ps_maxBufferSize p"
  shows "ps_state (fst (feed p junk)) = Idle
    \<and> snd (feed (fst (feed p junk)) bs) = [EvFrame g]"
proof -
  have i: "ps_state (fst (feed p junk)) = Idle"
    using assms(1) by (rule frame_resyncs)
  then show ?thesis
    using feed_frame [OF assms(2,3) _ i, of "[]"] assms(4) by simp
qed

theorem parser_self_synchronises_witness:
  "snd (feed (fst (feed \<lparr>ps_state = AfterDLE, ps_buffer = [], ps_maxBufferSize = 9\<rparr>
      [0x10, 0x02, 0x07, 0, 0, 0, 0, 0, 0x10, 0x03])) [0x10, 0x02, 0x04, 0, 0, 0, 0, 0, 0x10, 0x03])
    = [EvFrame (signal ServerSync 0)]"
proof (rule parser_self_synchronises [of "signal ServerReady 0", THEN conjunct2])
  show "encode (signal ServerReady 0) = Inr [0x10, 0x02, 0x07, 0, 0, 0, 0, 0, 0x10, 0x03]"
    by code_simp
  show "encode (signal ServerSync 0) = Inr [0x10, 0x02, 0x04, 0, 0, 0, 0, 0, 0x10, 0x03]"
    by code_simp
qed (simp_all add: body_length_def frame_payload_def isKeyRegistrationFrame_def)

text \<open>The buffer limit does not bound the buffer: inside a frame, any number of escaped DLEs is
  accepted silently, so a peer can make the buffer as long as it likes whatever
  \<open>maxBufferSize\<close> is.\<close>

theorem parser_limit_bypassed:
  "length (ps_buffer (fst (feed (new_parser limit) ([DLE, STX] @ concat (replicate n [DLE, DLE]))))) = n
   \<and> snd (feed (new_parser limit) ([DLE, STX] @ concat (replicate n [DLE, DLE]))) = []"
proof -
  have "feed (new_parser limit) [DLE, STX] = (new_parser limit\<lparr>ps_state := InFrame, ps_buffer := []\<rparr>, [])"
    by (simp add: new_parser_def feed_byte_def)
  then show ?thesis
    by (simp add: feed_append_split escaped_DLE_unbounded del: append.simps feed.simps)
qed

end
