(* ===== verification/Key_Registry.thy ===== *)
theory Key_Registry
  imports Stream_Parser
begin

text \<open>
  \<open>state/key_registry.cpp\<close>: the grammar of key paths, the process-wide cache of validated
  paths, and the two-way registry between key ids and paths that the client keeps for the keys
  the server announces.
\<close>

section \<open>Key paths\<close>

definition path_char :: "char \<Rightarrow> bool" where
  "path_char c \<longleftrightarrow>
     (let code = (of_char c :: nat)
      in code \<in> {97..122} \<or> code \<in> {65..90} \<or> code \<in> {48..57} \<or> code = 95)"

text \<open>
  \<open>std::regex_match\<close> with \<open>KEY_PATH_REGEX\<close>, as the two-state automaton of the expression; the
  flag says that the current segment has a character already.
\<close>

fun path_run :: "bool \<Rightarrow> string \<Rightarrow> bool" where
  "path_run seen [] = seen"
| "path_run seen (c # cs) =
     (if path_char c then path_run True cs else seen \<and> c = CHR ''.'' \<and> path_run False cs)"

definition matches_KEY_PATH_REGEX :: "string \<Rightarrow> bool" where
  "matches_KEY_PATH_REGEX p = path_run False p"

definition MAX_KEY_PATH_BYTES :: nat where "MAX_KEY_PATH_BYTES = 200"
definition MAX_VALIDATED_CACHE :: nat where "MAX_VALIDATED_CACHE = 10000"

text \<open>The checks of \<open>validateKeyPath\<close> without its cache.\<close>

definition check_key_path :: "string \<Rightarrow> unit res" where
  "check_key_path p =
     (if p = [] then Inl (DanWSError ''INVALID_KEY_PATH'' ''Key path must not be empty'')
      else if \<not> matches_KEY_PATH_REGEX p
      then Inl (DanWSError ''INVALID_KEY_PATH'' (''Invalid key path: '' @ CHR 0x22 # p @ [CHR 0x22]))
      else if MAX_KEY_PATH_BYTES < length p
      then Inl (DanWSError ''INVALID_KEY_PATH''
             (''Key path exceeds 200 bytes: '' @ CHR 0x22 # p @ [CHR 0x22]))
      else Inr ())"

text \<open>
  \<open>validateKeyPath\<close> with the static set \<open>validatedPaths\<close> as state. A call that throws leaves
  the set as it was.
\<close>

definition validateKeyPath :: "string list \<Rightarrow> string \<Rightarrow> string list res" where
  "validateKeyPath validatedPaths p =
     (if p \<in> set validatedPaths then Inr validatedPaths
      else rbind (check_key_path p) (\<lambda>_.
        Inr (List.insert p (if MAX_VALIDATED_CACHE \<le> length validatedPaths then [] else validatedPaths))))"

definition cache_ok :: "string list \<Rightarrow> bool" where
  "cache_ok cache \<longleftrightarrow> distinct cache \<and> length cache \<le> MAX_VALIDATED_CACHE
     \<and> (\<forall>p \<in> set cache. check_key_path p = Inr ())"

lemma cache_ok_Nil [simp, inv_intros]: "cache_ok []"
  by (simp add: cache_ok_def)

lemma validateKeyPath_ok:
  assumes "cache_ok cache" "validateKeyPath cache p = Inr cache'"
  shows "cache_ok cache'"
  using assms
  by (auto simp: validateKeyPath_def cache_ok_def rbind_eq_Inr MAX_VALIDATED_CACHE_def
      split: if_splits)

lemma validateKeyPath_result:
  "cache_ok cache \<Longrightarrow> rbind (validateKeyPath cache p) (\<lambda>_. Inr ()) = check_key_path p"
  by (cases "check_key_path p") (auto simp: validateKeyPath_def cache_ok_def)

text \<open>The calls of one process, in order; an exception is caught by the caller.\<close>

definition cache_after :: "string list \<Rightarrow> string \<Rightarrow> string list" where
  "cache_after cache p = (case validateKeyPath cache p of Inr cache' \<Rightarrow> cache' | Inl _ \<Rightarrow> cache)"

interpretation path_cache: invariant_machine cache_after cache_ok
  by unfold_locales (auto simp: cache_after_def validateKeyPath_ok split: sum.splits)

text \<open>The language of the regular expression.\<close>

inductive key_path :: "string \<Rightarrow> bool" where
  segment: "seg \<noteq> [] \<Longrightarrow> list_all path_char seg \<Longrightarrow> key_path seg"
| dotted: "key_path p \<Longrightarrow> seg \<noteq> [] \<Longrightarrow> list_all path_char seg \<Longrightarrow> key_path (p @ CHR ''.'' # seg)"

lemma dot_not_path_char [simp]: "\<not> path_char CHR ''.''"
  by (simp add: path_char_def)

lemma path_run_segment: "list_all path_char seg \<Longrightarrow> path_run seen (seg @ rest)
    = path_run (seen \<or> seg \<noteq> []) rest"
  by (induction seg arbitrary: seen) auto

lemma path_run_dot: "path_run seen (p @ CHR ''.'' # rest) = (path_run seen p \<and> path_run False rest)"
  by (induction seen p rule: path_run.induct) auto

lemma key_path_run: "key_path p \<Longrightarrow> path_run False p"
proof (induction rule: key_path.induct)
  case (segment seg)
  then show ?case using path_run_segment [of seg False "[]"] by simp
next
  case (dotted p seg)
  then show ?case using path_run_segment [of seg False "[]"] by (simp add: path_run_dot)
qed

lemma run_key_path:
  "path_run seen p \<Longrightarrow> list_all path_char pre \<Longrightarrow> seen = (pre \<noteq> [])
    \<Longrightarrow> before = [] \<or> (\<exists>d. before = d @ [CHR ''.''] \<and> key_path d)
    \<Longrightarrow> key_path (before @ pre @ p)"
proof (induction seen p arbitrary: pre before rule: path_run.induct)
  case (1 seen)
  then show ?case by (auto intro: key_path.segment dest: key_path.dotted)
next
  case (2 seen c cs)
  show ?case
  proof (cases "path_char c")
    case True
    then have "key_path (before @ (pre @ [c]) @ cs)"
      using "2.prems" by (intro "2.IH"(1)) auto
    then show ?thesis by simp
  next
    case False
    then have c: "seen" "c = CHR ''.''" "path_run False cs" using "2.prems"(1) by auto
    then have "key_path (before @ pre)"
      using "2.prems" by (auto intro: key_path.segment dest: key_path.dotted)
    then have "key_path ((before @ pre @ [CHR ''.'']) @ [] @ cs)"
      using c False by (intro "2.IH"(2)) auto
    then show ?thesis using c by simp
  qed
qed

lemma key_path_iff: "key_path p \<longleftrightarrow> matches_KEY_PATH_REGEX p"
  using key_path_run run_key_path [of False p "[]" "[]"] by (auto simp: matches_KEY_PATH_REGEX_def)

lemma key_path_nonempty: "key_path p \<Longrightarrow> p \<noteq> []"
  by (auto elim: key_path.cases)

section \<open>The registry\<close>

record key_entry =
  ke_path :: string
  ke_type :: data_type
  ke_keyId :: u32

record key_registry =
  kr_byId :: "(u32, key_entry) umap"
  kr_pathToId :: "(string, u32) umap"
  kr_nextId :: u32
  kr_maxKeys :: nat

definition mk_entry :: "string \<Rightarrow> data_type \<Rightarrow> u32 \<Rightarrow> key_entry" where
  "mk_entry p t k = \<lparr>ke_path = p, ke_type = t, ke_keyId = k\<rparr>"

lemma mk_entry_simps [simp]:
  "ke_path (mk_entry p t k) = p" "ke_type (mk_entry p t k) = t" "ke_keyId (mk_entry p t k) = k"
  by (simp_all add: mk_entry_def)

definition new_registry :: "nat \<Rightarrow> key_registry" where
  "new_registry maxKeys =
     \<lparr>kr_byId = [], kr_pathToId = [], kr_nextId = 1, kr_maxKeys = maxKeys\<rparr>"

definition registerOne :: "key_registry \<Rightarrow> u32 \<Rightarrow> string \<Rightarrow> data_type \<Rightarrow> key_registry res" where
  "registerOne kr k p t =
     rbind (check_key_path p) (\<lambda>_.
       if map_of (kr_pathToId kr) p = None \<and> kr_maxKeys kr \<le> length (kr_byId kr)
       then Inl (DanWSError ''KEY_LIMIT_EXCEEDED''
              (''Key registry limit reached ('' @ show_nat (kr_maxKeys kr) @ '')''))
       else Inr (kr\<lparr>kr_byId := AList.update k (mk_entry p t k) (kr_byId kr),
                    kr_pathToId := AList.update p k (kr_pathToId kr),
                    kr_nextId := (if kr_nextId kr \<le> k then k + 1 else kr_nextId kr)\<rparr>))"

definition getByKeyId :: "key_registry \<Rightarrow> u32 \<Rightarrow> key_entry option" where
  "getByKeyId kr k = map_of (kr_byId kr) k"

definition getByPath :: "key_registry \<Rightarrow> string \<Rightarrow> key_entry option" where
  "getByPath kr p =
     (case map_of (kr_pathToId kr) p of None \<Rightarrow> None | Some k \<Rightarrow> map_of (kr_byId kr) k)"

definition hasKeyId :: "key_registry \<Rightarrow> u32 \<Rightarrow> bool" where
  "hasKeyId kr k = (map_of (kr_byId kr) k \<noteq> None)"

definition hasPath :: "key_registry \<Rightarrow> string \<Rightarrow> bool" where
  "hasPath kr p = (map_of (kr_pathToId kr) p \<noteq> None)"

definition removeByKeyId :: "key_registry \<Rightarrow> u32 \<Rightarrow> key_registry \<times> bool" where
  "removeByKeyId kr k =
     (case map_of (kr_byId kr) k of
        None \<Rightarrow> (kr, False)
      | Some e \<Rightarrow> (kr\<lparr>kr_pathToId := AList.delete (ke_path e) (kr_pathToId kr),
                       kr_byId := AList.delete k (kr_byId kr)\<rparr>, True))"

definition kr_size :: "key_registry \<Rightarrow> nat" where
  "kr_size kr = length (kr_byId kr)"

definition kr_paths :: "key_registry \<Rightarrow> string list" where
  "kr_paths kr = map fst (kr_pathToId kr)"

definition kr_clear :: "key_registry \<Rightarrow> key_registry" where
  "kr_clear kr = kr\<lparr>kr_byId := [], kr_pathToId := [], kr_nextId := 1\<rparr>"

section \<open>What every use of the registry keeps\<close>

text \<open>
  Whatever ids and paths come over the wire: both maps are maps, an entry carries the id it is
  filed under and a valid path, and the path of every entry is known (possibly under another
  id).
\<close>

definition kr_wf :: "key_registry \<Rightarrow> bool" where
  "kr_wf kr \<longleftrightarrow> um_wf (kr_byId kr) \<and> um_wf (kr_pathToId kr)
     \<and> (\<forall>k e. getByKeyId kr k = Some e \<longrightarrow> ke_keyId e = k \<and> check_key_path (ke_path e) = Inr ())"

lemma kr_wf_new [simp, inv_intros]: "kr_wf (new_registry n)"
  by (simp add: kr_wf_def new_registry_def getByKeyId_def)

lemma kr_wf_clear [simp, inv_intros]: "kr_wf (kr_clear kr)"
  by (simp add: kr_wf_def kr_clear_def getByKeyId_def)

lemma kr_wf_register [inv_intros]: "kr_wf kr \<Longrightarrow> registerOne kr k p t = Inr kr' \<Longrightarrow> kr_wf kr'"
  by (auto simp: registerOne_def kr_wf_def getByKeyId_def rbind_eq_Inr split: if_splits)

lemma kr_wf_remove [inv_intros]: "kr_wf kr \<Longrightarrow> kr_wf (fst (removeByKeyId kr k))"
  by (auto simp: removeByKeyId_def kr_wf_def getByKeyId_def split: option.splits)

lemma registerOne_lookup:
  assumes "registerOne kr k p t = Inr kr'"
  shows "getByKeyId kr' k' = (if k' = k then Some (mk_entry p t k) else getByKeyId kr k')"
    and "map_of (kr_pathToId kr') = (map_of (kr_pathToId kr))(p \<mapsto> k)"
    and "kr_maxKeys kr' = kr_maxKeys kr"
  using assms by (auto simp: registerOne_def getByKeyId_def rbind_eq_Inr split: if_splits)

text \<open>
  The registrations a well-behaved server sends: an id never changes its path and a path never
  its id. Under these the two maps are inverse to each other.
\<close>

definition kr_consistent :: "key_registry \<Rightarrow> bool" where
  "kr_consistent kr \<longleftrightarrow> kr_wf kr
     \<and> (\<forall>k e. getByKeyId kr k = Some e \<longrightarrow> map_of (kr_pathToId kr) (ke_path e) = Some k)
     \<and> (\<forall>p k. map_of (kr_pathToId kr) p = Some k \<longrightarrow> (\<exists>e. getByKeyId kr k = Some e \<and> ke_path e = p))"

definition fits :: "key_registry \<Rightarrow> u32 \<Rightarrow> string \<Rightarrow> bool" where
  "fits kr k p \<longleftrightarrow> map_of (kr_pathToId kr) p = Some k
     \<or> getByKeyId kr k = None \<and> map_of (kr_pathToId kr) p = None"

lemma kr_consistent_entry:
  "kr_consistent kr \<Longrightarrow> getByKeyId kr k = Some e \<Longrightarrow> map_of (kr_pathToId kr) (ke_path e) = Some k"
  by (simp add: kr_consistent_def)

lemma kr_consistent_path:
  assumes "kr_consistent kr" "map_of (kr_pathToId kr) p = Some k"
  obtains e where "getByKeyId kr k = Some e" "ke_path e = p" "ke_keyId e = k"
  using assms unfolding kr_consistent_def kr_wf_def by blast

lemma kr_consistent_new [simp, inv_intros]: "kr_consistent (new_registry n)"
  by (simp add: kr_consistent_def) (simp add: new_registry_def getByKeyId_def)

lemma kr_consistent_clear [simp, inv_intros]: "kr_consistent (kr_clear kr)"
  by (simp add: kr_consistent_def) (simp add: kr_clear_def getByKeyId_def)

lemma kr_consistent_register [inv_intros]:
  assumes "kr_consistent kr" "fits kr k p" "registerOne kr k p t = Inr kr'"
  shows "kr_consistent kr'"
proof -
  note look = registerOne_lookup [OF assms(3)]
  have same: "q = p" if q: "map_of (kr_pathToId kr) q = Some k" for q
  proof -
    obtain e where e: "getByKeyId kr k = Some e" "ke_path e = q"
      using kr_consistent_path [OF assms(1) q] by metis
    with assms(2) have "map_of (kr_pathToId kr) p = Some k" by (simp add: fits_def)
    then obtain e' where "getByKeyId kr k = Some e'" "ke_path e' = p"
      by (rule kr_consistent_path [OF assms(1)])
    with e show ?thesis by simp
  qed
  have id: "k' = k" if "map_of (kr_pathToId kr) p = Some k'" for k'
    using assms(2) that by (simp add: fits_def)
  show ?thesis
    unfolding kr_consistent_def
  proof (intro conjI allI impI)
    show "kr_wf kr'" using assms by (auto simp: kr_consistent_def intro: kr_wf_register)
    fix k' e
    assume "getByKeyId kr' k' = Some e"
    then show "map_of (kr_pathToId kr') (ke_path e) = Some k'"
      using kr_consistent_entry [OF assms(1), of k' e] id [of k']
      by (cases "ke_path e = p") (auto simp: look split: if_splits)
  next
    fix q k'
    assume q: "map_of (kr_pathToId kr') q = Some k'"
    show "\<exists>e. getByKeyId kr' k' = Some e \<and> ke_path e = q"
    proof (cases "q = p")
      case True
      then show ?thesis using q by (simp add: look)
    next
      case False
      then have "map_of (kr_pathToId kr) q = Some k'" using q by (simp add: look)
      moreover from this False have "k' \<noteq> k" using same by blast
      ultimately show ?thesis
        using kr_consistent_path [OF assms(1), of q k'] by (auto simp: look)
    qed
  qed
qed

lemma removeByKeyId_lookup:
  assumes "kr_consistent kr"
  shows "getByKeyId (fst (removeByKeyId kr k)) k' = (if k' = k then None else getByKeyId kr k')"
    and "map_of (kr_pathToId (fst (removeByKeyId kr k))) p
         = (if map_of (kr_pathToId kr) p = Some k then None else map_of (kr_pathToId kr) p)"
proof -
  show "getByKeyId (fst (removeByKeyId kr k)) k' = (if k' = k then None else getByKeyId kr k')"
    by (auto simp: removeByKeyId_def getByKeyId_def split: option.splits)
  show "map_of (kr_pathToId (fst (removeByKeyId kr k))) p
         = (if map_of (kr_pathToId kr) p = Some k then None else map_of (kr_pathToId kr) p)"
  proof (cases "getByKeyId kr k")
    case None
    then show ?thesis
      using kr_consistent_path [OF assms, of p k] by (auto simp: removeByKeyId_def getByKeyId_def)
  next
    case (Some e)
    then show ?thesis
      using kr_consistent_path [OF assms, of p k] kr_consistent_entry [OF assms Some]
      by (auto simp: removeByKeyId_def getByKeyId_def)
  qed
qed

lemma kr_consistent_remove [inv_intros]:
  assumes "kr_consistent kr"
  shows "kr_consistent (fst (removeByKeyId kr k))"
  unfolding kr_consistent_def
proof (intro conjI allI impI)
  show "kr_wf (fst (removeByKeyId kr k))"
    using assms by (auto simp: kr_consistent_def intro: kr_wf_remove)
  fix k' e
  assume "getByKeyId (fst (removeByKeyId kr k)) k' = Some e"
  then show "map_of (kr_pathToId (fst (removeByKeyId kr k))) (ke_path e) = Some k'"
    using kr_consistent_entry [OF assms, of k' e]
    by (auto simp: removeByKeyId_lookup [OF assms] split: if_splits)
next
  fix q k'
  assume "map_of (kr_pathToId (fst (removeByKeyId kr k))) q = Some k'"
  then show "\<exists>e. getByKeyId (fst (removeByKeyId kr k)) k' = Some e \<and> ke_path e = q"
    using kr_consistent_path [OF assms, of q k']
    by (auto simp: removeByKeyId_lookup [OF assms] split: if_splits)
qed

lemma kr_size_paths:
  assumes "kr_consistent kr"
  shows "kr_size kr = length (kr_paths kr)"
proof -
  let ?I = "map_of (kr_byId kr)" and ?P = "map_of (kr_pathToId kr)"
  have P: "\<exists>e. ?I k = Some e \<and> ke_path e = p" if "?P p = Some k" for p k
    using kr_consistent_path [OF assms that] by (auto simp: getByKeyId_def)
  have I: "?P (ke_path e) = Some k" if "?I k = Some e" for k e
    using kr_consistent_entry [OF assms] that by (simp add: getByKeyId_def)
  have "bij_betw (\<lambda>p. the (?P p)) (dom ?P) (dom ?I)"
    by (rule bij_betw_byWitness [where f' = "\<lambda>k. ke_path (the (?I k))"]) (use I in \<open>auto dest!: P\<close>)
  then have "card (dom ?P) = card (dom ?I)" by (rule bij_betw_same_card)
  then show ?thesis
    using assms by (simp add: kr_size_def kr_paths_def um_length_card kr_consistent_def kr_wf_def)
qed

section \<open>The two-way map as an interface\<close>

text \<open>
  What the client relies on: registering makes both look-ups answer with the new entry and leaves
  every other id and path alone, as long as ids and paths are not reassigned.
\<close>

locale two_way_map =
  fixes inv :: "'r \<Rightarrow> bool"
    and ok :: "'r \<Rightarrow> 'i \<Rightarrow> 'p \<Rightarrow> bool"
    and reg :: "'r \<Rightarrow> 'i \<Rightarrow> 'p \<Rightarrow> 't \<Rightarrow> 'r res"
    and del :: "'r \<Rightarrow> 'i \<Rightarrow> 'r"
    and by_id :: "'r \<Rightarrow> 'i \<Rightarrow> 'e option"
    and by_path :: "'r \<Rightarrow> 'p \<Rightarrow> 'e option"
    and path_of :: "'e \<Rightarrow> 'p"
    and id_of :: "'e \<Rightarrow> 'i"
    and entry :: "'p \<Rightarrow> 't \<Rightarrow> 'i \<Rightarrow> 'e"
  assumes entry_path: "path_of (entry p t i) = p"
    and entry_id: "id_of (entry p t i) = i"
    and inv_reg: "inv r \<Longrightarrow> ok r i p \<Longrightarrow> reg r i p t = Inr r' \<Longrightarrow> inv r'"
    and inv_del: "inv r \<Longrightarrow> inv (del r i)"
    and by_path_iff: "inv r \<Longrightarrow> by_path r p = Some e \<longleftrightarrow> by_id r (id_of e) = Some e \<and> path_of e = p"
    and by_id_id: "inv r \<Longrightarrow> by_id r i = Some e \<Longrightarrow> id_of e = i"
    and by_id_reg: "reg r i p t = Inr r' \<Longrightarrow> by_id r' j = (if j = i then Some (entry p t i) else by_id r j)"
    and by_id_del: "inv r \<Longrightarrow> by_id (del r i) j = (if j = i then None else by_id r j)"
begin

lemma by_path_reg: "inv r \<Longrightarrow> ok r i p \<Longrightarrow> reg r i p t = Inr r' \<Longrightarrow> by_path r' p = Some (entry p t i)"
  by (simp add: by_path_iff inv_reg by_id_reg entry_path entry_id)

lemma by_path_reg_other:
  assumes "inv r" "ok r i p" "reg r i p t = Inr r'" "q \<noteq> p" "by_path r q = Some e" "id_of e \<noteq> i"
  shows "by_path r' q = Some e"
  using assms by (simp add: by_path_iff [OF inv_reg [OF assms(1-3)]] by_path_iff by_id_reg)

lemma by_path_del: "inv r \<Longrightarrow> by_path (del r i) q = Some e \<longleftrightarrow> by_path r q = Some e \<and> id_of e \<noteq> i"
  by (auto simp: by_path_iff inv_del by_id_del)

lemma paths_distinct: "inv r \<Longrightarrow> by_path r p = Some e \<Longrightarrow> by_path r q = Some e \<Longrightarrow> p = q"
  by (simp add: by_path_iff)

end

lemma getByPath_iff:
  assumes "kr_consistent kr"
  shows "getByPath kr p = Some e \<longleftrightarrow> getByKeyId kr (ke_keyId e) = Some e \<and> ke_path e = p"
proof
  assume "getByPath kr p = Some e"
  then obtain k where k: "map_of (kr_pathToId kr) p = Some k" "getByKeyId kr k = Some e"
    by (auto simp: getByPath_def getByKeyId_def split: option.splits)
  from kr_consistent_path [OF assms k(1)] k(2)
  show "getByKeyId kr (ke_keyId e) = Some e \<and> ke_path e = p" by auto
next
  assume "getByKeyId kr (ke_keyId e) = Some e \<and> ke_path e = p"
  then show "getByPath kr p = Some e"
    using kr_consistent_entry [OF assms, of "ke_keyId e" e]
    by (simp add: getByPath_def getByKeyId_def)
qed

interpretation registry: two_way_map kr_consistent fits registerOne "\<lambda>r i. fst (removeByKeyId r i)"
    getByKeyId getByPath ke_path ke_keyId mk_entry
proof (unfold_locales, goal_cases)
  case (6 r i e)
  then show ?case by (simp add: kr_consistent_def kr_wf_def)
qed (simp_all add: getByPath_iff removeByKeyId_lookup registerOne_lookup
       kr_consistent_register kr_consistent_remove)

section \<open>Properties\<close>

text \<open>The cache of validated paths cannot be observed: after any history of calls, including the
  ones that throw and the ones that empty the full cache, \<open>validateKeyPath\<close> accepts exactly the
  non-empty dot-separated paths of at most 200 characters, and the cache holds at most 10000.\<close>

theorem validateKeyPath_cache_transparent:
  "let cache = foldl cache_after [] history
   in length cache \<le> 10000
      \<and> (isl (validateKeyPath cache p) \<longleftrightarrow> \<not> (key_path p \<and> length p \<le> 200))
      \<and> (\<forall>e. validateKeyPath cache p = Inl e \<longleftrightarrow> check_key_path p = Inl e)"
proof -
  define cache where "cache = foldl cache_after [] history"
  have ok: "cache_ok cache"
    unfolding cache_def by (rule path_cache.good_run) simp
  have "isl (check_key_path p) \<longleftrightarrow> \<not> (key_path p \<and> length p \<le> 200)"
    using key_path_nonempty [of p]
    by (auto simp: check_key_path_def MAX_KEY_PATH_BYTES_def simp flip: key_path_iff)
  moreover have "isl (validateKeyPath cache p) \<longleftrightarrow> isl (check_key_path p)"
    "\<forall>e. validateKeyPath cache p = Inl e \<longleftrightarrow> check_key_path p = Inl e"
    using validateKeyPath_result [OF ok, of p]
    by (cases "validateKeyPath cache p"; cases "check_key_path p"; simp)+
  ultimately show ?thesis
    using ok by (simp add: cache_def [symmetric] cache_ok_def MAX_VALIDATED_CACHE_def Let_def)
qed

text \<open>The registrations and removals of one connection.\<close>

datatype registry_op = Reg u32 string data_type | Rem u32 | Clr

fun registry_step :: "key_registry \<Rightarrow> registry_op \<Rightarrow> key_registry" where
  "registry_step kr (Reg k p t) = (case registerOne kr k p t of Inr kr' \<Rightarrow> kr' | Inl _ \<Rightarrow> kr)"
| "registry_step kr (Rem k) = fst (removeByKeyId kr k)"
| "registry_step kr Clr = kr_clear kr"

text \<open>A history in which no id or path is reassigned while it is registered.\<close>

fun well_behaved :: "key_registry \<Rightarrow> registry_op list \<Rightarrow> bool" where
  "well_behaved kr [] = True"
| "well_behaved kr (op # ops) =
     ((case op of Reg k p t \<Rightarrow> fits kr k p | _ \<Rightarrow> True) \<and> well_behaved (registry_step kr op) ops)"

lemma kr_consistent_step:
  "kr_consistent kr \<Longrightarrow> (case op of Reg k p t \<Rightarrow> fits kr k p | _ \<Rightarrow> True)
    \<Longrightarrow> kr_consistent (registry_step kr op)"
  by (cases op) (auto split: sum.splits intro: inv_intros)

lemma kr_consistent_run:
  "kr_consistent kr \<Longrightarrow> well_behaved kr ops \<Longrightarrow> kr_consistent (foldl registry_step kr ops)"
  by (induction ops arbitrary: kr) (auto intro: kr_consistent_step)

lemma kr_limit_step:
  assumes "kr_consistent kr" "(case op of Reg k p t \<Rightarrow> fits kr k p | _ \<Rightarrow> True)"
    "kr_size kr \<le> kr_maxKeys kr"
  shows "kr_size (registry_step kr op) \<le> kr_maxKeys (registry_step kr op)
    \<and> kr_maxKeys (registry_step kr op) = kr_maxKeys kr"
proof (cases op)
  case (Reg k p t)
  show ?thesis
  proof (cases "map_of (kr_pathToId kr) p")
    case None
    then show ?thesis
      using Reg assms by (auto simp: fits_def registerOne_def getByKeyId_def kr_size_def rbind_def split: sum.splits)
  next
    case (Some k')
    then have "\<exists>e. map_of (kr_byId kr) k = Some e"
      using Reg assms kr_consistent_path [OF assms(1) Some] by (auto simp: fits_def getByKeyId_def)
    then show ?thesis
      using Reg assms Some by (auto simp: registerOne_def kr_size_def rbind_def split: sum.splits)
  qed
next
  case (Rem k)
  then show ?thesis
    using assms length_delete_le [of k "kr_byId kr"]
    by (auto simp: removeByKeyId_def kr_size_def split: option.splits)
qed (simp add: kr_clear_def kr_size_def)

lemma kr_limit_run:
  "kr_consistent kr \<Longrightarrow> well_behaved kr ops \<Longrightarrow> kr_size kr \<le> kr_maxKeys kr
    \<Longrightarrow> kr_size (foldl registry_step kr ops) \<le> kr_maxKeys kr"
proof (induction ops arbitrary: kr)
  case (Cons op ops)
  then show ?case
    using kr_limit_step [of kr op] kr_consistent_step [of kr op] by fastforce
qed simp

text \<open>C29. As long as the peer never reassigns a live id or path, the registry is a bijection: an entry
  is found under its path exactly when it is found under its id, the number of ids is the number
  of paths, and the limit of keys is respected.\<close>

theorem registry_is_bijective:
  assumes "well_behaved (new_registry n) ops"
  shows "let kr = foldl registry_step (new_registry n) ops
    in (\<forall>p e. getByPath kr p = Some e \<longleftrightarrow> getByKeyId kr (ke_keyId e) = Some e \<and> ke_path e = p)
       \<and> kr_size kr = length (kr_paths kr) \<and> kr_size kr \<le> n"
proof -
  have "kr_size (new_registry n) \<le> n" "kr_maxKeys (new_registry n) = n"
    by (simp_all add: new_registry_def kr_size_def)
  then show ?thesis
    using kr_consistent_run [OF kr_consistent_new assms] kr_limit_run [OF kr_consistent_new assms]
    by (simp add: getByPath_iff kr_size_paths Let_def)
qed

theorem registry_is_bijective_witness:
  "getByPath (foldl registry_step (new_registry 2) [Reg 1 ''a.b'' DT_String, Reg 2 ''c'' DT_Bool, Rem 1])
     ''c'' = Some (mk_entry ''c'' DT_Bool 2)"
proof -
  have wb: "well_behaved (new_registry 2) [Reg 1 ''a.b'' DT_String, Reg 2 ''c'' DT_Bool, Rem 1]"
    by code_simp
  have "getByKeyId (foldl registry_step (new_registry 2) [Reg 1 ''a.b'' DT_String, Reg 2 ''c'' DT_Bool, Rem 1]) 2
      = Some (mk_entry ''c'' DT_Bool 2)"
    by code_simp
  then show ?thesis
    using registry_is_bijective [OF wb] by (simp only: Let_def mk_entry_simps simp_thms)
qed

lemma alias_run:
  assumes "n < 2 ^ 32" "key_path p" "length p \<le> 200" "0 < m"
  shows "\<exists>kr. rfold (\<lambda>i kr. registerOne kr (word_of_nat i) p t) [0..<n] (new_registry m) = Inr kr
    \<and> kr_size kr = n \<and> kr_maxKeys kr = m
    \<and> (\<forall>k. getByKeyId kr k \<noteq> None \<longleftrightarrow> unat k < n) \<and> (0 < n \<longrightarrow> map_of (kr_pathToId kr) p \<noteq> None)"
  using assms(1)
proof (induction n)
  case 0
  then show ?case by (simp add: new_registry_def kr_size_def getByKeyId_def)
next
  case (Suc n)
  then obtain kr where kr: "rfold (\<lambda>i kr. registerOne kr (word_of_nat i) p t) [0..<n] (new_registry m) = Inr kr"
    "kr_size kr = n" "kr_maxKeys kr = m" "\<forall>k. getByKeyId kr k \<noteq> None \<longleftrightarrow> unat k < n"
    "0 < n \<longrightarrow> map_of (kr_pathToId kr) p \<noteq> None"
    by auto
  have u: "unat (word_of_nat n :: u32) = n" using Suc.prems by (simp add: unat_of_nat)
  have "check_key_path p = Inr ()"
    using assms(2,3) key_path_nonempty [of p] by (simp add: check_key_path_def key_path_iff MAX_KEY_PATH_BYTES_def)
  moreover have "map_of (kr_byId kr) (word_of_nat n) = None"
    using kr(4) u by (metis getByKeyId_def less_irrefl)
  moreover have "\<not> (map_of (kr_pathToId kr) p = None \<and> kr_maxKeys kr \<le> length (kr_byId kr))"
    using kr assms(4) by (cases "n = 0") (auto simp: kr_size_def)
  moreover have "unat k < Suc n \<longleftrightarrow> k = word_of_nat n \<or> unat k < n" for k :: u32
    using u by (auto simp: less_Suc_eq word_unat_eq_iff)
  ultimately show ?case
    using kr by (auto simp: rfold_append registerOne_def kr_size_def getByKeyId_def)
qed

text \<open>The limit \<open>maxKeys\<close> does not bound the registry: it is only consulted for a path that is not
  registered, so a peer that announces one path under ever new ids files an entry for each of
  them.\<close>

theorem key_limit_bypassed:
  assumes "n < 2 ^ 32" and "key_path p" and "length p \<le> 200" and "0 < m"
  shows "\<exists>kr. rfold (\<lambda>i kr. registerOne kr (word_of_nat i) p t) [0..<n] (new_registry m) = Inr kr
    \<and> kr_size kr = n"
  using alias_run [OF assms] by blast

theorem key_limit_bypassed_witness:
  "\<exists>kr. rfold (\<lambda>i kr. registerOne kr (word_of_nat i) ''a'' DT_Bool) [0..<100000] (new_registry 1) = Inr kr
    \<and> kr_size kr = 100000"
proof (rule key_limit_bypassed)
  show "key_path ''a''" unfolding key_path_iff by code_simp
qed simp_all

text \<open>Reassigning an id leaves its old path behind: the path still exists and now answers with the
  entry of another path; once that id is deleted the path exists without an entry.\<close>

theorem reassigned_id_leaves_stale_path:
  "\<exists>kr. rbind (registerOne (new_registry 10000) 1 ''a'' DT_Bool) (\<lambda>kr. registerOne kr 1 ''b'' DT_String) = Inr kr
     \<and> getByPath kr ''a'' = Some (mk_entry ''b'' DT_String 1)
     \<and> hasPath (fst (removeByKeyId kr 1)) ''a'' \<and> getByPath (fst (removeByKeyId kr 1)) ''a'' = None"
proof (intro exI conjI)
  let ?kr = "projr (rbind (registerOne (new_registry 10000) 1 ''a'' DT_Bool) (\<lambda>kr. registerOne kr 1 ''b'' DT_String))"
  show "rbind (registerOne (new_registry 10000) 1 ''a'' DT_Bool) (\<lambda>kr. registerOne kr 1 ''b'' DT_String) = Inr ?kr"
    by code_simp
  show "getByPath ?kr ''a'' = Some (mk_entry ''b'' DT_String 1)" by code_simp
  show "hasPath (fst (removeByKeyId ?kr 1)) ''a''" by code_simp
  show "getByPath (fst (removeByKeyId ?kr 1)) ''a'' = None" by code_simp
qed

end
