(* ===== verification/Connection.thy ===== *)
theory Connection
  imports Key_Registry
begin

text \<open>
  The connection layer: \<open>connection/bulk_queue.h\<close>, \<open>connection/heartbeat_manager.cpp\<close> and
  \<open>connection/reconnect_engine.cpp\<close>. Both managers own a \<open>std::thread\<close>; its handle is part of
  the state, because assigning to or destroying a joinable handle calls \<open>std::terminate\<close> and
  joining oneself throws. The flag \<open>on_timer\<close> of an operation says that its caller runs on the
  manager's own timer thread. Times are \<open>steady_clock\<close> readings in nanoseconds.
\<close>

section \<open>The client-side send queue\<close>

text \<open>The bytes given to \<open>onFlush_\<close>, if it is set and there is something to send.\<close>

definition bq_enqueue :: "bool \<Rightarrow> frame \<Rightarrow> bytes list res" where
  "bq_enqueue onFlush f = (if onFlush then rbind (encode f) (\<lambda>data. Inr [data]) else Inr [])"

definition bq_enqueueBatch :: "bool \<Rightarrow> frame list \<Rightarrow> bytes list res" where
  "bq_enqueueBatch onFlush fs =
     (if onFlush \<and> fs \<noteq> [] then rbind (encodeBatch fs) (\<lambda>data. Inr [data]) else Inr [])"

section \<open>Timer threads\<close>

text \<open>A \<open>std::thread\<close> member: empty, joinable with its loop running, or joinable with the loop left.\<close>

datatype timer_thread = No_Thread | Looping | Finished

definition joinable :: "timer_thread \<Rightarrow> bool" where
  "joinable t \<longleftrightarrow> t \<noteq> No_Thread"

text \<open>\<open>if (t.joinable()) t.join()\<close> and \<open>t = std::thread(...)\<close>.\<close>

definition join_thread :: "bool \<Rightarrow> timer_thread \<Rightarrow> timer_thread res" where
  "join_thread on_timer t =
     (if \<not> joinable t then Inr t else if on_timer then Inl System_Error else Inr No_Thread)"

definition assign_thread :: "timer_thread \<Rightarrow> timer_thread res" where
  "assign_thread t = (if joinable t then Inl Terminate else Inr Looping)"

section \<open>Heartbeats\<close>

definition SEND_INTERVAL_MS :: int where "SEND_INTERVAL_MS = 10000"
definition TIMEOUT_THRESHOLD_MS :: int where "TIMEOUT_THRESHOLD_MS = 15000"
definition CHECK_INTERVAL_MS :: int where "CHECK_INTERVAL_MS = 5000"

record heartbeat =
  hb_running :: bool
  hb_stopRequested :: bool
  hb_lastReceived :: int
  hb_lastSent :: int
  hb_thread :: timer_thread

definition new_heartbeat :: heartbeat where
  "new_heartbeat = \<lparr>hb_running = False, hb_stopRequested = False, hb_lastReceived = 0,
     hb_lastSent = 0, hb_thread = No_Thread\<rparr>"

definition hb_stop :: "bool \<Rightarrow> heartbeat \<Rightarrow> heartbeat res" where
  "hb_stop on_timer hb =
     (if \<not> hb_running hb then Inr hb
      else rbind (join_thread on_timer (hb_thread hb)) (\<lambda>t.
        Inr (hb\<lparr>hb_stopRequested := True, hb_running := False, hb_thread := t\<rparr>)))"

definition hb_start :: "bool \<Rightarrow> int \<Rightarrow> heartbeat \<Rightarrow> heartbeat res" where
  "hb_start on_timer now hb =
     rbind (hb_stop on_timer hb) (\<lambda>hb.
     rbind (assign_thread (hb_thread hb)) (\<lambda>t.
       Inr (hb\<lparr>hb_lastReceived := now, hb_lastSent := now, hb_stopRequested := False,
               hb_running := True, hb_thread := t\<rparr>)))"

definition hb_received :: "int \<Rightarrow> heartbeat \<Rightarrow> heartbeat" where
  "hb_received now hb = hb\<lparr>hb_lastReceived := now\<rparr>"

text \<open>The member's destructor: \<open>stop()\<close>, then the thread handle is destroyed.\<close>

definition hb_destroy :: "bool \<Rightarrow> heartbeat \<Rightarrow> unit res" where
  "hb_destroy on_timer hb =
     rbind (hb_stop on_timer hb) (\<lambda>hb. if joinable (hb_thread hb) then Inl Terminate else Inr ())"

datatype hb_event = HB_Timeout | HB_Send bytes

text \<open>\<open>duration_cast<milliseconds>\<close> truncates.\<close>

definition to_ms :: "int \<Rightarrow> int" where
  "to_ms ns = (if 0 \<le> ns then ns div 1000000 else - ((- ns) div 1000000))"

text \<open>One round of \<open>timerLoop\<close>, woken up at \<open>now\<close>.\<close>

definition hb_tick :: "int \<Rightarrow> heartbeat \<Rightarrow> heartbeat \<times> hb_event list" where
  "hb_tick now hb =
     (if hb_thread hb \<noteq> Looping then (hb, [])
      else if hb_stopRequested hb then (hb\<lparr>hb_thread := Finished\<rparr>, [])
      else if to_ms (now - hb_lastReceived hb) > TIMEOUT_THRESHOLD_MS
      then (hb\<lparr>hb_running := False, hb_thread := Finished\<rparr>, [HB_Timeout])
      else if SEND_INTERVAL_MS \<le> to_ms (now - hb_lastSent hb)
      then (hb\<lparr>hb_lastSent := now\<rparr>, [HB_Send encodeHeartbeat])
      else (hb, []))"

definition hb_active :: "heartbeat \<Rightarrow> bool" where
  "hb_active hb \<longleftrightarrow> hb_running hb \<and> \<not> hb_stopRequested hb \<and> hb_thread hb = Looping"

lemma hb_start_active:
  "hb_start on_timer now hb = Inr hb' \<Longrightarrow>
     hb_active hb' \<and> hb_lastReceived hb' = now \<and> hb_lastSent hb' = now"
  by (auto simp: hb_start_def hb_active_def assign_thread_def rbind_eq_Inr split: if_splits)

lemma hb_start_new [simp]: "\<exists>hb'. hb_start on_timer now new_heartbeat = Inr hb'"
  by (simp add: hb_start_def hb_stop_def new_heartbeat_def assign_thread_def joinable_def)

lemma to_ms_le: "0 \<le> d \<Longrightarrow> d \<le> 1000000 * n \<Longrightarrow> to_ms d \<le> n"
  by (simp add: to_ms_def)

lemma to_ms_ge: "1000000 * n \<le> d \<Longrightarrow> 0 \<le> n \<Longrightarrow> n \<le> to_ms d"
  by (simp add: to_ms_def)

section \<open>Reconnection\<close>

text \<open>
  The delays and the multiplier of the options are taken to be non-negative. An exception is the
  end of the caller's flow; what the object holds afterwards is not tracked.
\<close>

record reconnect_options =
  ro_enabled :: bool
  ro_maxRetries :: int
  ro_baseDelayMs :: nat
  ro_maxDelayMs :: nat
  ro_backoffMultiplier :: u64
  ro_jitter :: bool

definition default_reconnect :: reconnect_options where
  "default_reconnect = \<lparr>ro_enabled = True, ro_maxRetries = 10, ro_baseDelayMs = 1000,
     ro_maxDelayMs = 30000, ro_backoffMultiplier = 0x4000000000000000, ro_jitter = True\<rparr>"

record reconnect =
  rc_options :: reconnect_options
  rc_attempt :: int
  rc_active :: bool
  rc_stopRequested :: bool
  rc_thread :: timer_thread

definition new_reconnect :: "reconnect_options \<Rightarrow> reconnect" where
  "new_reconnect opt = \<lparr>rc_options = opt, rc_attempt = 0, rc_active = False,
     rc_stopRequested = False, rc_thread = No_Thread\<rparr>"

text \<open>
  \<open>std::pow(m, k)\<close> and the product with an \<open>int\<close>, for a finite non-negative \<open>m\<close>, correctly
  rounded. \<open>None\<close> is the NaN of \<open>0 * infinity\<close>.
\<close>

definition d_pow :: "u64 \<Rightarrow> nat \<Rightarrow> u64" where
  "d_pow m k = (let (n, d) = d_magnitude m in round_double (n ^ k) (d ^ k))"

definition scaled_delay :: "nat \<Rightarrow> u64 \<Rightarrow> u64 option" where
  "scaled_delay base p =
     (if \<not> d_isfinite p then (if base = 0 then None else Some p)
      else let (n, d) = d_magnitude p in Some (round_double (base * n) d))"

text \<open>\<open>static_cast<int>\<close> of a non-negative double.\<close>

definition double_to_int :: "u64 \<Rightarrow> int res" where
  "double_to_int x =
     (if \<not> d_isfinite x then Inl Undefined
      else let (n, d) = d_magnitude x; q = int (n div d)
           in if q \<le> INT_MAX then Inr q else Inl Undefined)"

definition capped_delay :: "reconnect_options \<Rightarrow> int \<Rightarrow> int res" where
  "capped_delay opt attempt =
     (case scaled_delay (ro_baseDelayMs opt) (d_pow (ro_backoffMultiplier opt) (nat (attempt - 1))) of
        None \<Rightarrow> Inl Undefined
      | Some raw \<Rightarrow>
          if \<not> d_isfinite raw then Inr (int (ro_maxDelayMs opt))
          else let (n, d) = d_magnitude raw
               in if d * ro_maxDelayMs opt < n then Inr (int (ro_maxDelayMs opt))
                  else double_to_int raw)"

text \<open>\<open>jitter\<close> is the bit pattern that \<open>std::uniform_real_distribution\<close> draws from [0.5, 1.5).\<close>

definition calculateDelay :: "reconnect_options \<Rightarrow> u64 \<Rightarrow> int \<Rightarrow> int res" where
  "calculateDelay opt jitter attempt =
     rbind (capped_delay opt attempt) (\<lambda>capped.
       if ro_jitter opt
       then (let (n, d) = d_magnitude jitter in double_to_int (round_double (nat capped * n) d))
       else Inr capped)"

datatype rc_event = RC_Reconnecting int int | RC_Exhausted | RC_Attempt

definition rc_scheduleNext :: "bool \<Rightarrow> u64 \<Rightarrow> reconnect \<Rightarrow> (reconnect \<times> rc_event list) res" where
  "rc_scheduleNext on_timer jitter rc =
     (let rc = rc\<lparr>rc_attempt := rc_attempt rc + 1\<rparr>; opt = rc_options rc
      in if 0 < ro_maxRetries opt \<and> ro_maxRetries opt < rc_attempt rc
         then Inr (rc\<lparr>rc_active := False\<rparr>, [RC_Exhausted])
         else rbind (calculateDelay opt jitter (rc_attempt rc)) (\<lambda>delay.
              rbind (join_thread on_timer (rc_thread rc)) (\<lambda>t.
              rbind (assign_thread t) (\<lambda>t.
                Inr (rc\<lparr>rc_thread := t\<rparr>, [RC_Reconnecting (rc_attempt rc) delay])))))"

definition rc_start :: "bool \<Rightarrow> u64 \<Rightarrow> reconnect \<Rightarrow> (reconnect \<times> rc_event list) res" where
  "rc_start on_timer jitter rc =
     (if \<not> ro_enabled (rc_options rc) \<or> rc_active rc then Inr (rc, [])
      else rc_scheduleNext on_timer jitter
             (rc\<lparr>rc_active := True, rc_attempt := 0, rc_stopRequested := False\<rparr>))"

definition rc_stop :: "bool \<Rightarrow> reconnect \<Rightarrow> reconnect res" where
  "rc_stop on_timer rc =
     rbind (join_thread on_timer (rc_thread rc)) (\<lambda>t.
       Inr (rc\<lparr>rc_stopRequested := True, rc_active := False, rc_attempt := 0, rc_thread := t\<rparr>))"

definition rc_dispose :: "bool \<Rightarrow> reconnect \<Rightarrow> reconnect res" where
  "rc_dispose on_timer rc = rc_stop on_timer rc"

definition rc_retry :: "bool \<Rightarrow> u64 \<Rightarrow> reconnect \<Rightarrow> (reconnect \<times> rc_event list) res" where
  "rc_retry on_timer jitter rc =
     (if rc_active rc then rc_scheduleNext on_timer jitter rc else Inr (rc, []))"

text \<open>
  \<open>timerLoop\<close> once its wait is over. The attempt itself runs on the timer thread; the loop is
  over when \<open>onAttempt_\<close> returns, which is \<open>rc_loop_end\<close>.
\<close>

definition rc_fire :: "reconnect \<Rightarrow> rc_event list" where
  "rc_fire rc = (if rc_thread rc = Looping \<and> \<not> rc_stopRequested rc then [RC_Attempt] else [])"

definition rc_loop_end :: "reconnect \<Rightarrow> reconnect" where
  "rc_loop_end rc = (if rc_thread rc = Looping then rc\<lparr>rc_thread := Finished\<rparr> else rc)"

section \<open>Properties\<close>

lemma capped_delay_bounds:
  assumes "0 < ro_baseDelayMs opt" "int (ro_maxDelayMs opt) \<le> INT_MAX"
  shows "\<exists>d. capped_delay opt k = Inr d \<and> 0 \<le> d \<and> d \<le> int (ro_maxDelayMs opt)"
proof -
  obtain raw where raw: "scaled_delay (ro_baseDelayMs opt) (d_pow (ro_backoffMultiplier opt) (nat (k - 1))) = Some raw"
    using assms(1) unfolding scaled_delay_def by (metis (no_types, lifting) case_prod_unfold less_irrefl)
  obtain n d where nd: "d_magnitude raw = (n, d)" by (cases "d_magnitude raw")
  have "n div d \<le> ro_maxDelayMs opt" if "n \<le> d * ro_maxDelayMs opt"
    using div_le_mono [OF that, of d] by (cases "d = 0") simp_all
  then show ?thesis
    using assms(2) raw nd by (auto simp: capped_delay_def double_to_int_def not_less Let_def)
qed

text \<open>Without jitter every reconnect delay is defined, and between zero and \<open>maxDelayMs\<close>,
  for whatever attempt number and multiplier.\<close>

theorem reconnect_delay_bounds:
  assumes "\<not> ro_jitter opt" and "0 < ro_baseDelayMs opt" and "int (ro_maxDelayMs opt) \<le> INT_MAX"
  shows "\<exists>d. calculateDelay opt j k = Inr d \<and> 0 \<le> d \<and> d \<le> int (ro_maxDelayMs opt)"
  using capped_delay_bounds [OF assms(2,3), of k] assms(1) by (auto simp: calculateDelay_def)

theorem reconnect_delay_bounds_witness:
  "(\<exists>d. calculateDelay (default_reconnect\<lparr>ro_jitter := False\<rparr>) 0 6 = Inr d \<and> 0 \<le> d \<and> d \<le> 30000)
   \<and> calculateDelay (default_reconnect\<lparr>ro_jitter := False\<rparr>) 0 4 = Inr 8000"
proof
  show "\<exists>d. calculateDelay (default_reconnect\<lparr>ro_jitter := False\<rparr>) 0 6 = Inr d \<and> 0 \<le> d \<and> d \<le> 30000"
    using reconnect_delay_bounds [of "default_reconnect\<lparr>ro_jitter := False\<rparr>" 0 6]
    by (simp add: default_reconnect_def INT_MAX_def)
  show "calculateDelay (default_reconnect\<lparr>ro_jitter := False\<rparr>) 0 4 = Inr 8000"
    by code_simp
qed

text \<open>One reconnect cycle: \<open>start()\<close>, then a \<open>retry()\<close> after each failed attempt, every one from
  outside the timer thread once its loop is over.\<close>

fun rc_retries :: "u64 list \<Rightarrow> reconnect \<Rightarrow> (reconnect \<times> rc_event list) res" where
  "rc_retries [] rc = Inr (rc, [])"
| "rc_retries (j # js) rc =
     rbind (rc_retry False j (rc_loop_end rc)) (\<lambda>(rc, evs).
     rbind (rc_retries js rc) (\<lambda>(rc, evs'). Inr (rc, evs @ evs')))"

definition rc_cycle :: "u64 list \<Rightarrow> reconnect_options \<Rightarrow> (reconnect \<times> rc_event list) res" where
  "rc_cycle js opt =
     rbind (rc_start False (hd js) (new_reconnect opt)) (\<lambda>(rc, evs).
     rbind (rc_retries (tl js) rc) (\<lambda>(rc, evs'). Inr (rc, evs @ evs')))"

fun attempt_no :: "rc_event \<Rightarrow> int option" where
  "attempt_no (RC_Reconnecting a d) = Some a"
| "attempt_no _ = None"

definition delays_defined :: "reconnect_options \<Rightarrow> u64 list \<Rightarrow> bool" where
  "delays_defined opt js \<longleftrightarrow> (\<forall>j \<in> set js. \<forall>k. \<not> isl (calculateDelay opt j k))"

lemma rc_scheduleNext_outside:
  assumes "\<not> isl (calculateDelay (rc_options rc) j (rc_attempt rc + 1))" "rc_active rc"
    "0 < ro_maxRetries (rc_options rc)"
  shows "\<exists>d. rc_scheduleNext False j rc =
    (if rc_attempt rc < ro_maxRetries (rc_options rc)
     then Inr (rc\<lparr>rc_attempt := rc_attempt rc + 1, rc_thread := Looping\<rparr>, [RC_Reconnecting (rc_attempt rc + 1) d])
     else Inr (rc\<lparr>rc_attempt := rc_attempt rc + 1, rc_active := False\<rparr>, [RC_Exhausted]))"
proof (cases "calculateDelay (rc_options rc) j (rc_attempt rc + 1)")
  case (Inr d)
  then show ?thesis
    using assms
    by (intro exI [of _ d])
       (simp add: rc_scheduleNext_def Let_def join_thread_def assign_thread_def joinable_def)
qed (use assms(1) in simp)

lemma rc_loop_end_inactive: "rc_active (rc_loop_end rc) = rc_active rc"
  by (simp add: rc_loop_end_def)

lemma rc_retries_inactive: "\<not> rc_active rc \<Longrightarrow> \<exists>rc'. rc_retries js rc = Inr (rc', []) \<and> \<not> rc_active rc'"
proof (induction js arbitrary: rc)
  case (Cons j js)
  then obtain rc' where "rc_retries js (rc_loop_end rc) = Inr (rc', [])" "\<not> rc_active rc'"
    by (metis rc_loop_end_inactive)
  then show ?case using Cons.prems by (simp add: rc_retry_def rc_loop_end_inactive)
qed simp

lemma rc_retries_run:
  assumes "rc_active rc" "delays_defined (rc_options rc) js" "rc_attempt rc \<le> ro_maxRetries (rc_options rc)"
    "0 < ro_maxRetries (rc_options rc)"
  shows "\<exists>rc' evs. rc_retries js rc = Inr (rc', evs)
    \<and> List.map_filter attempt_no evs
      = [rc_attempt rc + 1 .. min (rc_attempt rc + int (length js)) (ro_maxRetries (rc_options rc))]
    \<and> (rc_active rc' \<longleftrightarrow> rc_attempt rc + int (length js) \<le> ro_maxRetries (rc_options rc))
    \<and> count_list evs RC_Exhausted = (if rc_active rc' then 0 else 1)"
  using assms
proof (induction js arbitrary: rc)
  case Nil
  then show ?case by (simp add: map_filter_simps)
next
  case (Cons j js)
  let ?rc = "rc_loop_end rc"
  have e: "rc_options ?rc = rc_options rc" "rc_attempt ?rc = rc_attempt rc" "rc_active ?rc"
    using Cons.prems(1) by (simp_all add: rc_loop_end_def)
  have "\<not> isl (calculateDelay (rc_options ?rc) j (rc_attempt ?rc + 1))"
    using Cons.prems(2) by (simp add: delays_defined_def e)
  then obtain d where d: "rc_scheduleNext False j ?rc =
    (if rc_attempt rc < ro_maxRetries (rc_options rc)
     then Inr (?rc\<lparr>rc_attempt := rc_attempt rc + 1, rc_thread := Looping\<rparr>, [RC_Reconnecting (rc_attempt rc + 1) d])
     else Inr (?rc\<lparr>rc_attempt := rc_attempt rc + 1, rc_active := False\<rparr>, [RC_Exhausted]))"
    using rc_scheduleNext_outside [of ?rc j, unfolded e(1,2)] Cons.prems(4) e by metis
  show ?case
  proof (cases "rc_attempt rc < ro_maxRetries (rc_options rc)")
    case True
    let ?rc' = "?rc\<lparr>rc_attempt := rc_attempt rc + 1, rc_thread := Looping\<rparr>"
    obtain rc' evs where IH: "rc_retries js ?rc' = Inr (rc', evs)"
      "List.map_filter attempt_no evs
        = [2 + rc_attempt rc .. min (rc_attempt rc + 1 + int (length js)) (ro_maxRetries (rc_options rc))]"
      "rc_active rc' \<longleftrightarrow> rc_attempt rc + 1 + int (length js) \<le> ro_maxRetries (rc_options rc)"
      "count_list evs RC_Exhausted = (if rc_active rc' then 0 else 1)"
      using Cons.IH [of ?rc'] Cons.prems True by (auto simp: e delays_defined_def)
    then show ?thesis
      using d True e(3) upto_rec1 [of "rc_attempt rc + 1"]
      by (auto simp: rc_retry_def map_filter_simps add.commute add.left_commute)
  next
    case False
    then show ?thesis
      using d e(3) Cons.prems(3) rc_retries_inactive [of "?rc\<lparr>rc_attempt := rc_attempt rc + 1, rc_active := False\<rparr>" js]
      by (auto simp: rc_retry_def map_filter_simps)
  qed
qed

text \<open>C28. A reconnect cycle announces the attempts 1, 2, 3, ... without a gap, at most \<open>maxRetries\<close> of
  them; the next failure reports exhaustion exactly once and leaves the engine inactive.\<close>

theorem reconnect_cycle_bounded:
  assumes "ro_enabled opt" and "0 < ro_maxRetries opt" and "js \<noteq> []" and "delays_defined opt js"
  shows "\<exists>rc evs. rc_cycle js opt = Inr (rc, evs)
    \<and> List.map_filter attempt_no evs = [1 .. min (int (length js)) (ro_maxRetries opt)]
    \<and> (rc_active rc \<longleftrightarrow> int (length js) \<le> ro_maxRetries opt)
    \<and> count_list evs RC_Exhausted = (if rc_active rc then 0 else 1)"
proof -
  let ?rc0 = "new_reconnect opt\<lparr>rc_active := True, rc_attempt := 0, rc_stopRequested := False\<rparr>"
  obtain j js' where js: "js = j # js'" using assms(3) by (cases js) auto
  have o: "rc_options ?rc0 = opt" "rc_attempt ?rc0 = 0" by (simp_all add: new_reconnect_def)
  obtain d where d: "rc_scheduleNext False j ?rc0
      = Inr (?rc0\<lparr>rc_attempt := 1, rc_thread := Looping\<rparr>, [RC_Reconnecting 1 d])"
    using rc_scheduleNext_outside [of ?rc0 j] assms by (auto simp: o js delays_defined_def)
  then have start: "rc_start False j (new_reconnect opt)
      = Inr (?rc0\<lparr>rc_attempt := 1, rc_thread := Looping\<rparr>, [RC_Reconnecting 1 d])"
    using assms(1) by (simp add: rc_start_def new_reconnect_def)
  let ?rc1 = "?rc0\<lparr>rc_attempt := 1, rc_thread := Looping\<rparr>"
  have o1: "rc_options ?rc1 = opt" "rc_attempt ?rc1 = 1" "rc_active ?rc1"
    by (simp_all add: new_reconnect_def)
  obtain rc evs where run: "rc_retries js' ?rc1 = Inr (rc, evs)"
    "List.map_filter attempt_no evs = [2 .. min (1 + int (length js')) (ro_maxRetries opt)]"
    "rc_active rc \<longleftrightarrow> 1 + int (length js') \<le> ro_maxRetries opt"
    "count_list evs RC_Exhausted = (if rc_active rc then 0 else 1)"
    using rc_retries_run [of ?rc1 js', unfolded o1] assms o1(3) by (auto simp: js delays_defined_def)
  have "[1 .. min (int (length js)) (ro_maxRetries opt)]
      = 1 # [2 .. min (1 + int (length js')) (ro_maxRetries opt)]"
    using assms(2) by (subst upto_rec1) (simp_all add: js)
  then have "rc_cycle js opt = Inr (rc, RC_Reconnecting 1 d # evs)"
    "List.map_filter attempt_no (RC_Reconnecting 1 d # evs) = [1 .. min (int (length js)) (ro_maxRetries opt)]"
    using run by (simp_all add: js rc_cycle_def start map_filter_simps)
  then show ?thesis using run(3,4) by (auto simp: js)
qed

theorem reconnect_cycle_bounded_witness:
  "\<exists>rc evs. rc_cycle [0, 0, 0] (default_reconnect\<lparr>ro_jitter := False, ro_maxRetries := 2\<rparr>) = Inr (rc, evs)
    \<and> List.map_filter attempt_no evs = [1, 2] \<and> \<not> rc_active rc \<and> count_list evs RC_Exhausted = 1"
proof -
  let ?opt = "default_reconnect\<lparr>ro_jitter := False, ro_maxRetries := 2\<rparr>"
  have "\<not> isl (calculateDelay ?opt j k)" for j k
    using capped_delay_bounds [of ?opt k] by (auto simp: calculateDelay_def default_reconnect_def INT_MAX_def)
  then have "delays_defined ?opt [0, 0, 0]" by (simp add: delays_defined_def)
  then show ?thesis
    using reconnect_cycle_bounded [of ?opt "[0, 0, 0]"] by (auto simp: default_reconnect_def upto_rec1)
qed

text \<open>C39. Two ways in which the timer threads end the process or the attempt. Starting the heartbeat
  again after it has timed out assigns to a thread handle that was never joined, which calls
  \<open>std::terminate\<close>: the timeout clears \<open>running_\<close>, so \<open>stop()\<close> returns before its join. And an
  attempt that fails on the timer thread itself, as a synchronous connect failure does, makes the
  engine join its own thread, which throws.\<close>

theorem timer_thread_hazards:
  "(\<forall>hb t hb' on_timer now. hb_active hb \<longrightarrow> hb_tick t hb = (hb', [HB_Timeout])
      \<longrightarrow> hb_start on_timer now hb' = Inl Terminate)
   \<and> (\<forall>rc j d. rc_active rc \<longrightarrow> rc_fire rc = [RC_Attempt]
      \<longrightarrow> ro_maxRetries (rc_options rc) \<le> 0 \<or> rc_attempt rc < ro_maxRetries (rc_options rc)
      \<longrightarrow> calculateDelay (rc_options rc) j (rc_attempt rc + 1) = Inr d
      \<longrightarrow> rc_retry True j rc = Inl System_Error)"
  by (auto simp: hb_tick_def hb_active_def hb_start_def hb_stop_def assign_thread_def joinable_def
      rc_fire_def rc_retry_def rc_scheduleNext_def join_thread_def Let_def split: if_splits)

lemma hb_can_time_out:
  "hb_tick 15002000000 (new_heartbeat\<lparr>hb_running := True, hb_thread := Looping\<rparr>)
   = (new_heartbeat\<lparr>hb_thread := Finished\<rparr>, [HB_Timeout])"
  by (simp add: hb_tick_def new_heartbeat_def to_ms_def TIMEOUT_THRESHOLD_MS_def)

theorem timer_thread_hazards_witness:
  "hb_start False 20000000000 (new_heartbeat\<lparr>hb_thread := Finished\<rparr>) = Inl Terminate"
proof -
  have "hb_active (new_heartbeat\<lparr>hb_running := True, hb_thread := Looping\<rparr>)"
    by (simp add: hb_active_def new_heartbeat_def)
  then show ?thesis using timer_thread_hazards [THEN conjunct1] hb_can_time_out by blast
qed

text \<open>What happens to a running heartbeat manager: its loop wakes up, or a message arrives.\<close>

datatype hb_input = Tick int | Recv int

fun hb_run :: "hb_input list \<Rightarrow> heartbeat \<Rightarrow> heartbeat \<times> (int \<times> hb_event) list" where
  "hb_run [] hb = (hb, [])"
| "hb_run (Tick t # es) hb =
     (let (hb, out) = hb_tick t hb; (hb, out') = hb_run es hb in (hb, map (Pair t) out @ out'))"
| "hb_run (Recv t # es) hb = hb_run es (hb_received t hb)"

text \<open>The loop wakes up every 5 to 7 seconds (5 are asked for), and there is never more than 15
  seconds of silence when it does; \<open>woke\<close> and \<open>heard\<close> are the latest wake-up and message.\<close>

fun lively :: "int \<Rightarrow> int \<Rightarrow> hb_input list \<Rightarrow> bool" where
  "lively woke heard [] = True"
| "lively woke heard (Tick t # es) =
     (woke + 5000000000 \<le> t \<and> t \<le> woke + 7000000000 \<and> heard \<le> t \<and> t \<le> heard + 15000000000 \<and> lively t heard es)"
| "lively woke heard (Recv t # es) = (heard \<le> t \<and> lively woke t es)"

definition sends :: "(int \<times> hb_event) list \<Rightarrow> int list" where
  "sends out = map fst (filter (\<lambda>(t, e). e \<noteq> HB_Timeout) out)"

lemma hb_run_lively:
  assumes "hb_active hb" "lively woke (hb_lastReceived hb) es"
    "hb_lastSent hb = woke \<or> hb_lastSent hb + 5000000000 \<le> woke \<and> woke \<le> hb_lastSent hb + 7000000000"
  shows "(\<forall>t. (t, HB_Timeout) \<notin> set (snd (hb_run es hb))) \<and> hb_active (fst (hb_run es hb))
    \<and> successively (\<lambda>a b. b \<le> a + 14000000000) (hb_lastSent hb # sends (snd (hb_run es hb)))"
  using assms
proof (induction es arbitrary: hb woke)
  case Nil
  then show ?case by (simp add: sends_def)
next
  case (Cons e es)
  show ?case
  proof (cases e)
    case (Recv t)
    then show ?thesis
      using Cons.IH [of "hb_received t hb" woke] Cons.prems by (simp add: hb_active_def hb_received_def)
  next
    case (Tick t)
    with Cons.prems have t: "woke + 5000000000 \<le> t" "t \<le> woke + 7000000000"
      "hb_lastReceived hb \<le> t" "t \<le> hb_lastReceived hb + 15000000000" "lively t (hb_lastReceived hb) es"
      by simp_all
    have quiet: "to_ms (t - hb_lastReceived hb) \<le> TIMEOUT_THRESHOLD_MS"
      using t by (simp add: TIMEOUT_THRESHOLD_MS_def to_ms_le)
    show ?thesis
    proof (cases "SEND_INTERVAL_MS \<le> to_ms (t - hb_lastSent hb)")
      case True
      then have tick: "hb_tick t hb = (hb\<lparr>hb_lastSent := t\<rparr>, [HB_Send encodeHeartbeat])"
        using Cons.prems(1) quiet by (simp add: hb_tick_def hb_active_def)
      have "t \<le> hb_lastSent hb + 14000000000" using Cons.prems(3) t by linarith
      then show ?thesis
        using Cons.IH [of "hb\<lparr>hb_lastSent := t\<rparr>" t] Cons.prems(1) t tick Tick
        by (auto simp: hb_active_def sends_def split: prod.splits)
    next
      case False
      then have tick: "hb_tick t hb = (hb, [])"
        using Cons.prems(1) quiet by (simp add: hb_tick_def hb_active_def)
      have "hb_lastSent hb = woke"
        using False to_ms_ge [of 10000 "t - hb_lastSent hb"] Cons.prems(3) t
        by (auto simp: SEND_INTERVAL_MS_def)
      then show ?thesis
        using Cons.IH [of hb t] Cons.prems(1) t tick Tick by (auto split: prod.splits)
    qed
  qed
qed



end
