(* ===== verification/Flat_State.thy ===== *)
theory Flat_State
  imports Connection
begin

text \<open>
  \<open>api/flat_state.cpp\<close>: the server-side key/value store that turns every change into protocol
  frames. Its three callbacks become data: \<open>allocateKeyId\<close> is a counter that all owners
  implement as \<open>nextKeyId_++\<close> and that is passed in and returned, and the calls of \<open>enqueue\<close>
  and \<open>onResync\<close> are a list of outputs in call order. Every call of \<open>onResync\<close> is the last
  thing an operation does, so its owner can run it on the returned state.
\<close>

record fs_entry =
  fe_keyId :: u32
  fe_type :: data_type
  fe_value :: payload

record flat_state =
  fs_wirePrefix :: string
  fs_entries :: "(string, fs_entry) umap"
  fs_byKeyId :: "(u32, string) umap"

datatype fs_out = Enqueue frame | Resync

definition mk_fs_entry :: "u32 \<Rightarrow> data_type \<Rightarrow> payload \<Rightarrow> fs_entry" where
  "mk_fs_entry k t v = \<lparr>fe_keyId = k, fe_type = t, fe_value = v\<rparr>"

lemma mk_fs_entry_simps [simp]:
  "fe_keyId (mk_fs_entry k t v) = k" "fe_type (mk_fs_entry k t v) = t" "fe_value (mk_fs_entry k t v) = v"
  "mk_fs_entry k t v\<lparr>fe_value := w\<rparr> = mk_fs_entry k t w"
  by (simp_all add: mk_fs_entry_def)

definition new_flat_state :: "string \<Rightarrow> flat_state" where
  "new_flat_state prefix = \<lparr>fs_wirePrefix = prefix, fs_entries = [], fs_byKeyId = []\<rparr>"

definition fs_wirePath :: "flat_state \<Rightarrow> string \<Rightarrow> string" where
  "fs_wirePath fs key = (if fs_wirePrefix fs = [] then key else fs_wirePrefix fs @ key)"

text \<open>The three frames of a new key.\<close>

definition announce :: "flat_state \<Rightarrow> u32 \<Rightarrow> string \<Rightarrow> payload \<Rightarrow> fs_out list" where
  "announce fs kid key value =
     [Enqueue (mk_frame ServerKeyRegistration kid (detectDataType value) (PString (fs_wirePath fs key))),
      Enqueue (signal ServerSync 0),
      Enqueue (mk_frame ServerValue kid (detectDataType value) value)]"

definition add_entry :: "flat_state \<Rightarrow> u32 \<Rightarrow> string \<Rightarrow> payload \<Rightarrow> flat_state" where
  "add_entry fs kid key value =
     fs\<lparr>fs_entries := AList.update key (mk_fs_entry kid (detectDataType value) value) (fs_entries fs),
        fs_byKeyId := AList.update kid key (fs_byKeyId fs)\<rparr>"

definition drop_entry :: "flat_state \<Rightarrow> fs_entry \<Rightarrow> string \<Rightarrow> flat_state" where
  "drop_entry fs e key =
     fs\<lparr>fs_byKeyId := AList.delete (fe_keyId e) (fs_byKeyId fs),
        fs_entries := AList.delete key (fs_entries fs)\<rparr>"

definition setLeaf :: "flat_state \<Rightarrow> u32 \<Rightarrow> string \<Rightarrow> payload
    \<Rightarrow> flat_state \<times> u32 \<times> fs_out list \<times> bool" where
  "setLeaf fs nxt key value =
     (let newType = detectDataType value
      in case map_of (fs_entries fs) key of
           Some e \<Rightarrow>
             if fe_type e \<noteq> newType
             then let fs = drop_entry fs e key
                  in (add_entry fs nxt key value, nxt + 1,
                      Enqueue (signal ServerKeyDelete (fe_keyId e)) # announce fs nxt key value, False)
             else (fs\<lparr>fs_entries := AList.update key (e\<lparr>fe_value := value\<rparr>) (fs_entries fs)\<rparr>, nxt,
                   [Enqueue (mk_frame ServerValue (fe_keyId e) (fe_type e) value)], False)
         | None \<Rightarrow> (add_entry fs nxt key value, nxt + 1, announce fs nxt key value, True))"

definition fs_set :: "flat_state \<Rightarrow> u32 \<Rightarrow> string \<Rightarrow> payload \<Rightarrow> flat_state \<times> u32 \<times> fs_out list" where
  "fs_set fs nxt key value =
     (let (fs', nxt', out, _) = setLeaf fs nxt key value in (fs', nxt', out))"

definition fs_get :: "flat_state \<Rightarrow> string \<Rightarrow> payload" where
  "fs_get fs key = (case map_of (fs_entries fs) key of None \<Rightarrow> PNull | Some e \<Rightarrow> fe_value e)"

definition fs_keys :: "flat_state \<Rightarrow> string list" where
  "fs_keys fs = map fst (fs_entries fs)"

definition fs_size :: "flat_state \<Rightarrow> nat" where
  "fs_size fs = length (fs_entries fs)"

definition fs_clear_all :: "flat_state \<Rightarrow> flat_state \<times> fs_out list" where
  "fs_clear_all fs =
     (if fs_entries fs = [] then (fs, [])
      else (fs\<lparr>fs_entries := [], fs_byKeyId := []\<rparr>, [Resync]))"

definition fs_clear :: "flat_state \<Rightarrow> string \<Rightarrow> flat_state \<times> fs_out list" where
  "fs_clear fs key =
     (case map_of (fs_entries fs) key of
        None \<Rightarrow> (fs, [])
      | Some e \<Rightarrow> (drop_entry fs e key, [Enqueue (signal ServerKeyDelete (fe_keyId e))]))"

definition buildKeyFrames :: "flat_state \<Rightarrow> frame list" where
  "buildKeyFrames fs =
     map (\<lambda>(key, e). mk_frame ServerKeyRegistration (fe_keyId e) (fe_type e) (PString (fs_wirePath fs key)))
       (fs_entries fs)"

definition buildValueFrames :: "flat_state \<Rightarrow> frame list" where
  "buildValueFrames fs =
     map (\<lambda>(key, e). mk_frame ServerValue (fe_keyId e) (fe_type e) (fe_value e)) (fs_entries fs)"

definition fs_getByKeyId :: "flat_state \<Rightarrow> u32 \<Rightarrow> fs_entry option" where
  "fs_getByKeyId fs kid =
     (case map_of (fs_byKeyId fs) kid of None \<Rightarrow> None | Some key \<Rightarrow> map_of (fs_entries fs) key)"

definition fs_getPathByKeyId :: "flat_state \<Rightarrow> u32 \<Rightarrow> string" where
  "fs_getPathByKeyId fs kid =
     (case map_of (fs_byKeyId fs) kid of None \<Rightarrow> [] | Some key \<Rightarrow> key)"

section \<open>Invariant\<close>

lemma word_less_Suc: "nxt \<noteq> - 1 \<Longrightarrow> (nxt :: u32) < nxt + 1"
  by (metis add.commute add_eq_0_iff2 lessI unatSuc word_less_nat_alt)

text \<open>
  The two maps are inverse, values are stored under the type that is detected for them, and all
  ids are below the owner's counter. The counter is read as a number: the invariant is about
  counters that have not wrapped around.
\<close>

definition fs_wf :: "flat_state \<Rightarrow> u32 \<Rightarrow> bool" where
  "fs_wf fs nxt \<longleftrightarrow> um_wf (fs_entries fs) \<and> um_wf (fs_byKeyId fs)
     \<and> (\<forall>key e. map_of (fs_entries fs) key = Some e \<longrightarrow>
          map_of (fs_byKeyId fs) (fe_keyId e) = Some key \<and> fe_type e = detectDataType (fe_value e)
          \<and> fe_keyId e < nxt)
     \<and> (\<forall>k key. map_of (fs_byKeyId fs) k = Some key \<longrightarrow>
          (\<exists>e. map_of (fs_entries fs) key = Some e \<and> fe_keyId e = k))"

lemma fs_wf_entry:
  assumes "fs_wf fs nxt" "map_of (fs_entries fs) key = Some e"
  shows "map_of (fs_byKeyId fs) (fe_keyId e) = Some key" "fe_type e = detectDataType (fe_value e)"
    "fe_keyId e < nxt" "e = mk_fs_entry (fe_keyId e) (detectDataType (fe_value e)) (fe_value e)"
  using assms by (simp_all add: fs_wf_def mk_fs_entry_def)

lemma fs_wf_id:
  assumes "fs_wf fs nxt" "map_of (fs_byKeyId fs) k = Some key"
  obtains e where "map_of (fs_entries fs) key = Some e" "fe_keyId e = k"
  using assms unfolding fs_wf_def by blast

lemma fs_wf_fresh:
  assumes "fs_wf fs nxt" "nxt \<le> k"
  shows "map_of (fs_byKeyId fs) k = None"
proof (cases "map_of (fs_byKeyId fs) k")
  case (Some key)
  then obtain e where "map_of (fs_entries fs) key = Some e" "fe_keyId e = k"
    by (rule fs_wf_id [OF assms(1)])
  then have "k < nxt" using fs_wf_entry(3) [OF assms(1)] by blast
  with assms(2) show ?thesis by simp
qed

lemma fs_wf_inj:
  "fs_wf fs nxt \<Longrightarrow> map_of (fs_entries fs) key = Some e \<Longrightarrow> map_of (fs_entries fs) key' = Some e'
    \<Longrightarrow> fe_keyId e = fe_keyId e' \<Longrightarrow> key = key'"
  by (metis fs_wf_entry(1) option.inject)

lemma fs_wf_new [simp, inv_intros]: "fs_wf (new_flat_state prefix) nxt"
  by (simp add: fs_wf_def new_flat_state_def)

lemma fs_wf_mono: "fs_wf fs nxt \<Longrightarrow> nxt \<le> nxt' \<Longrightarrow> fs_wf fs nxt'"
  unfolding fs_wf_def by (meson order_less_le_trans)

lemma lookup_add_entry [simp]:
  "map_of (fs_entries (add_entry fs k key v)) = (map_of (fs_entries fs))(key \<mapsto> mk_fs_entry k (detectDataType v) v)"
  "map_of (fs_byKeyId (add_entry fs k key v)) = (map_of (fs_byKeyId fs))(k \<mapsto> key)"
  "fs_wirePrefix (add_entry fs k key v) = fs_wirePrefix fs"
  by (simp_all add: add_entry_def)

lemma lookup_drop_entry [simp]:
  "map_of (fs_entries (drop_entry fs e key)) = (map_of (fs_entries fs))(key := None)"
  "map_of (fs_byKeyId (drop_entry fs e key)) = (map_of (fs_byKeyId fs))(fe_keyId e := None)"
  "fs_wirePrefix (drop_entry fs e key) = fs_wirePrefix fs"
  by (simp_all add: drop_entry_def)

lemma fs_wf_drop [inv_intros]:
  assumes "fs_wf fs nxt" "map_of (fs_entries fs) key = Some e"
  shows "fs_wf (drop_entry fs e key) nxt"
  unfolding fs_wf_def
proof (intro conjI allI impI)
  show "um_wf (fs_entries (drop_entry fs e key))" "um_wf (fs_byKeyId (drop_entry fs e key))"
    using assms(1) by (simp_all add: fs_wf_def drop_entry_def)
next
  fix key' e'
  assume "map_of (fs_entries (drop_entry fs e key)) key' = Some e'"
  then have e': "map_of (fs_entries fs) key' = Some e'" "key' \<noteq> key" by (auto split: if_splits)
  then show "map_of (fs_byKeyId (drop_entry fs e key)) (fe_keyId e') = Some key'"
    using fs_wf_entry(1) [OF assms(1)] fs_wf_inj [OF assms(1) e'(1) assms(2)] by auto
  show "fe_type e' = detectDataType (fe_value e')" "fe_keyId e' < nxt"
    using fs_wf_entry [OF assms(1) e'(1)] by simp_all
next
  fix k key'
  assume "map_of (fs_byKeyId (drop_entry fs e key)) k = Some key'"
  then have k: "map_of (fs_byKeyId fs) k = Some key'" "k \<noteq> fe_keyId e" by (auto split: if_splits)
  then obtain e' where "map_of (fs_entries fs) key' = Some e'" "fe_keyId e' = k"
    using fs_wf_id [OF assms(1)] by metis
  then show "\<exists>e'. map_of (fs_entries (drop_entry fs e key)) key' = Some e' \<and> fe_keyId e' = k"
    using k(2) assms(2) by auto
qed

lemma fs_wf_add [inv_intros]:
  assumes "fs_wf fs nxt" "map_of (fs_entries fs) key = None" "nxt \<noteq> - 1"
  shows "fs_wf (add_entry fs nxt key v) (nxt + 1)"
  unfolding fs_wf_def
proof (intro conjI allI impI)
  have less: "k < nxt + 1" if "k \<le> nxt" for k
    using that word_less_Suc [OF assms(3)] by simp
  show "um_wf (fs_entries (add_entry fs nxt key v))" "um_wf (fs_byKeyId (add_entry fs nxt key v))"
    using assms(1) by (simp_all add: fs_wf_def add_entry_def)
  fix key' e'
  assume e': "map_of (fs_entries (add_entry fs nxt key v)) key' = Some e'"
  have "map_of (fs_byKeyId (add_entry fs nxt key v)) (fe_keyId e') = Some key'
    \<and> fe_type e' = detectDataType (fe_value e') \<and> fe_keyId e' < nxt + 1"
  proof (cases "key' = key")
    case True
    then have "e' = mk_fs_entry nxt (detectDataType v) v" using e' by simp
    then show ?thesis
      using True less [of nxt] by simp_all
  next
    case False
    then have old: "map_of (fs_entries fs) key' = Some e'" using e' by simp
    then show ?thesis
      using fs_wf_entry [OF assms(1) old] less by auto
  qed
  then show "map_of (fs_byKeyId (add_entry fs nxt key v)) (fe_keyId e') = Some key'"
    "fe_type e' = detectDataType (fe_value e')" "fe_keyId e' < nxt + 1"
    by blast+
next
  fix k key'
  assume k: "map_of (fs_byKeyId (add_entry fs nxt key v)) k = Some key'"
  show "\<exists>e'. map_of (fs_entries (add_entry fs nxt key v)) key' = Some e' \<and> fe_keyId e' = k"
  proof (cases "k = nxt")
    case True
    then show ?thesis using k by simp
  next
    case False
    then have "map_of (fs_byKeyId fs) k = Some key'" using k by simp
    then obtain e' where e': "map_of (fs_entries fs) key' = Some e'" "fe_keyId e' = k"
      by (rule fs_wf_id [OF assms(1)])
    then have "key' \<noteq> key" using assms(2) by auto
    with e' show ?thesis by simp
  qed
qed

lemma fs_wf_value [inv_intros]:
  assumes "fs_wf fs nxt" "map_of (fs_entries fs) key = Some e" "fe_type e = detectDataType v"
  shows "fs_wf (fs\<lparr>fs_entries := AList.update key (e\<lparr>fe_value := v\<rparr>) (fs_entries fs)\<rparr>) nxt"
  unfolding fs_wf_def
proof (intro conjI allI impI)
  let ?fs = "fs\<lparr>fs_entries := AList.update key (e\<lparr>fe_value := v\<rparr>) (fs_entries fs)\<rparr>"
  show "um_wf (fs_entries ?fs)" "um_wf (fs_byKeyId ?fs)"
    using assms(1) by (simp_all add: fs_wf_def)
  fix key' e'
  assume e': "map_of (fs_entries ?fs) key' = Some e'"
  have "map_of (fs_byKeyId ?fs) (fe_keyId e') = Some key'
    \<and> fe_type e' = detectDataType (fe_value e') \<and> fe_keyId e' < nxt"
  proof (cases "key' = key")
    case True
    then have "e' = e\<lparr>fe_value := v\<rparr>" using e' by simp
    then show ?thesis
      using True fs_wf_entry [OF assms(1,2)] assms(3) by simp_all
  next
    case False
    then have old: "map_of (fs_entries fs) key' = Some e'" using e' by simp
    then show ?thesis
      using fs_wf_entry [OF assms(1) old] by simp_all
  qed
  then show "map_of (fs_byKeyId ?fs) (fe_keyId e') = Some key'"
    "fe_type e' = detectDataType (fe_value e')" "fe_keyId e' < nxt"
    by blast+
next
  let ?fs = "fs\<lparr>fs_entries := AList.update key (e\<lparr>fe_value := v\<rparr>) (fs_entries fs)\<rparr>"
  fix k key'
  assume "map_of (fs_byKeyId ?fs) k = Some key'"
  then have "map_of (fs_byKeyId fs) k = Some key'" by simp
  then obtain e' where "map_of (fs_entries fs) key' = Some e'" "fe_keyId e' = k"
    by (rule fs_wf_id [OF assms(1)])
  then show "\<exists>e'. map_of (fs_entries ?fs) key' = Some e' \<and> fe_keyId e' = k"
    using assms(2) by (cases "key' = key") auto
qed

section \<open>The operations\<close>

text \<open>How much of the counter a \<open>set\<close> uses up: one id for a new key or a new type, else none.\<close>

definition needs_id :: "flat_state \<Rightarrow> string \<Rightarrow> payload \<Rightarrow> bool" where
  "needs_id fs key v \<longleftrightarrow>
     (case map_of (fs_entries fs) key of None \<Rightarrow> True | Some e \<Rightarrow> fe_type e \<noteq> detectDataType v)"

lemma fs_set_cases:
  obtains (value_only) e where "map_of (fs_entries fs) key = Some e" "fe_type e = detectDataType v" "\<not> needs_id fs key v"
      "fs_set fs nxt key v = (fs\<lparr>fs_entries := AList.update key (e\<lparr>fe_value := v\<rparr>) (fs_entries fs)\<rparr>, nxt,
         [Enqueue (mk_frame ServerValue (fe_keyId e) (detectDataType v) v)])"
  | (new_type) e where "map_of (fs_entries fs) key = Some e" "fe_type e \<noteq> detectDataType v" "needs_id fs key v"
      "fs_set fs nxt key v = (add_entry (drop_entry fs e key) nxt key v, nxt + 1,
         Enqueue (signal ServerKeyDelete (fe_keyId e)) # announce fs nxt key v)"
  | (new_key) "map_of (fs_entries fs) key = None" "needs_id fs key v"
      "fs_set fs nxt key v = (add_entry fs nxt key v, nxt + 1, announce fs nxt key v)"
proof (cases "map_of (fs_entries fs) key")
  case None
  then show ?thesis
    by (intro new_key) (simp_all add: needs_id_def fs_set_def setLeaf_def)
next
  case (Some e)
  have "announce (drop_entry fs e key) = announce fs"
    by (simp add: fun_eq_iff announce_def fs_wirePath_def)
  then show ?thesis
    using Some value_only [of e] new_type [of e]
    by (cases "fe_type e = detectDataType v") (simp_all add: needs_id_def fs_set_def setLeaf_def Let_def)
qed

lemma fs_wf_set [inv_intros]:
  assumes "fs_wf fs nxt" "nxt \<noteq> - 1" "fs_set fs nxt key v = (fs', nxt', out)"
  shows "fs_wf fs' nxt'"
proof (cases rule: fs_set_cases [of fs key v nxt])
  case (value_only e)
  then show ?thesis using assms fs_wf_value [of fs nxt key e v] by simp
next
  case (new_type e)
  then show ?thesis
    using assms fs_wf_add [OF fs_wf_drop [OF assms(1) new_type(1)], of key v] by simp
next
  case new_key
  then show ?thesis using assms fs_wf_add [of fs nxt key v] by simp
qed

lemma fs_wf_clear_all [inv_intros]: "fs_wf fs nxt \<Longrightarrow> fs_wf (fst (fs_clear_all fs)) nxt'"
  by (cases "fs_entries fs = []") (auto simp: fs_clear_all_def fs_wf_def)

lemma fs_wf_clear [inv_intros]: "fs_wf fs nxt \<Longrightarrow> fs_wf (fst (fs_clear fs key)) nxt"
  using fs_wf_drop by (auto simp: fs_clear_def split: option.split)

lemma fs_get_set: "fs_set fs nxt key v = (fs', nxt', out) \<Longrightarrow>
    fs_get fs' key' = (if key' = key then v else fs_get fs key')"
  by (cases rule: fs_set_cases [of fs key v nxt]) (auto simp: fs_get_def)

lemma fs_prefix_set [simp]: "fs_set fs nxt key v = (fs', nxt', out) \<Longrightarrow> fs_wirePrefix fs' = fs_wirePrefix fs"
  by (cases rule: fs_set_cases [of fs key v nxt]) auto

lemma fs_get_clear: "fs_get (fst (fs_clear fs key)) key' = (if key' = key then PNull else fs_get fs key')"
  by (auto simp: fs_clear_def fs_get_def split: option.splits)

lemma fs_keys_set: "fs_set fs nxt key v = (fs', nxt', out) \<Longrightarrow> set (fs_keys fs') = insert key (set (fs_keys fs))"
proof -
  have k: "set (fs_keys fs) = dom (map_of (fs_entries fs))" for fs
    by (simp add: fs_keys_def um_dom)
  assume "fs_set fs nxt key v = (fs', nxt', out)"
  then show ?thesis
    unfolding k by (cases rule: fs_set_cases [of fs key v nxt]) auto
qed

lemma fs_keys_clear: "set (fs_keys (fst (fs_clear fs key))) = set (fs_keys fs) - {key}"
proof (cases "map_of (fs_entries fs) key")
  case None
  then have "key \<notin> set (fs_keys fs)" by (simp add: fs_keys_def map_of_eq_None_iff)
  then show ?thesis using None by (simp add: fs_clear_def)
next
  case (Some e)
  then show ?thesis by (auto simp: fs_keys_def fs_clear_def drop_entry_def set_delete_eq)
qed

section \<open>Key/value stores\<close>

text \<open>
  The contract that the flat state, a principal and a topic payload all offer to the code that
  sets, reads and clears keys.
\<close>

locale kv_store =
  fixes put :: "'s \<Rightarrow> string \<Rightarrow> payload \<Rightarrow> 's"
    and get :: "'s \<Rightarrow> string \<Rightarrow> payload"
    and keys :: "'s \<Rightarrow> string list"
    and del :: "'s \<Rightarrow> string \<Rightarrow> 's"
    and wipe :: "'s \<Rightarrow> 's"
  assumes get_put: "get (put s k v) k' = (if k' = k then v else get s k')"
    and keys_put: "set (keys (put s k v)) = insert k (set (keys s))"
    and get_del: "get (del s k) k' = (if k' = k then PNull else get s k')"
    and keys_del: "set (keys (del s k)) = set (keys s) - {k}"
    and keys_wipe: "keys (wipe s) = []"
    and get_unknown: "k \<notin> set (keys s) \<Longrightarrow> get s k = PNull"
begin

lemma get_wipe: "get (wipe s) k = PNull"
  by (rule get_unknown) (simp add: keys_wipe)

lemma put_put_same: "get (put (put s k v) k w) = get (put s k w)"
  by (simp add: fun_eq_iff get_put)

lemma put_commute: "k \<noteq> k' \<Longrightarrow> get (put (put s k v) k' w) = get (put (put s k' w) k v)"
  by (auto simp: fun_eq_iff get_put)

lemma get_puts: "get (foldl (\<lambda>s (k, v). put s k v) s kvs) k
    = (case map_of (rev kvs) k of Some v \<Rightarrow> v | None \<Rightarrow> get s k)"
  by (induction kvs arbitrary: s) (auto simp: get_put map_add_def split: option.split)

lemma keys_puts: "set (keys (foldl (\<lambda>s (k, v). put s k v) s kvs)) = set (keys s) \<union> fst ` set kvs"
  by (induction kvs arbitrary: s) (auto simp: keys_put)

end

definition fs_put :: "flat_state \<times> u32 \<Rightarrow> string \<Rightarrow> payload \<Rightarrow> flat_state \<times> u32" where
  "fs_put s key v = (let (fs', nxt', _) = fs_set (fst s) (snd s) key v in (fs', nxt'))"

lemma fs_put_pair: "fs_put (fs, nxt) key v = (fs', nxt') \<longleftrightarrow> (\<exists>out. fs_set fs nxt key v = (fs', nxt', out))"
  by (cases "fs_set fs nxt key v") (auto simp: fs_put_def)

lemma fs_put_E: obtains fs' nxt' out where "fs_set (fst s) (snd s) key v = (fs', nxt', out)" "fs_put s key v = (fs', nxt')"
  by (cases "fs_set (fst s) (snd s) key v") (simp add: fs_put_def)

interpretation flat: kv_store fs_put "\<lambda>s. fs_get (fst s)" "\<lambda>s. fs_keys (fst s)"
    "\<lambda>s key. (fst (fs_clear (fst s) key), snd s)" "\<lambda>s. (fst (fs_clear_all (fst s)), snd s)"
proof (unfold_locales, goal_cases)
  case (1 s k v k')
  show ?case by (rule fs_put_E [of s k v]) (simp add: fs_get_set)
next
  case (2 s k v)
  show ?case by (rule fs_put_E [of s k v]) (simp add: fs_keys_set)
next
  case (6 k s)
  then have "map_of (fs_entries (fst s)) k = None" by (simp add: fs_keys_def map_of_eq_None_iff)
  then show ?case by (simp add: fs_get_def)
qed (simp_all add: fs_get_clear fs_keys_clear, simp add: fs_keys_def fs_clear_all_def)

section \<open>What a client makes of the frames\<close>

text \<open>
  The abstract specification of the stream of frames: a mirror is what its receiver knows, the
  path and type of each announced id and the last value of each.
\<close>

record mirror =
  mi_keys :: "u32 \<rightharpoonup> string \<times> data_type"
  mi_vals :: "u32 \<rightharpoonup> payload"

definition empty_mirror :: mirror where
  "empty_mirror = \<lparr>mi_keys = Map.empty, mi_vals = Map.empty\<rparr>"

definition mirror_frame :: "mirror \<Rightarrow> frame \<Rightarrow> mirror" where
  "mirror_frame m f =
     (case frameType f of
        ServerKeyRegistration \<Rightarrow>
          (case payload f of
             PString path \<Rightarrow> m\<lparr>mi_keys := (mi_keys m)(keyId f \<mapsto> (path, dataType f))\<rparr>
           | _ \<Rightarrow> m)
      | ServerValue \<Rightarrow>
          if mi_keys m (keyId f) = None then m
          else m\<lparr>mi_vals := (mi_vals m)(keyId f \<mapsto> payload f)\<rparr>
      | ServerKeyDelete \<Rightarrow>
          m\<lparr>mi_keys := (mi_keys m)(keyId f := None), mi_vals := (mi_vals m)(keyId f := None)\<rparr>
      | ServerReset \<Rightarrow> empty_mirror
      | _ \<Rightarrow> m)"

definition mirror_out :: "mirror \<Rightarrow> fs_out list \<Rightarrow> mirror" where
  "mirror_out m out = foldl (\<lambda>m ev. case ev of Enqueue f \<Rightarrow> mirror_frame m f | Resync \<Rightarrow> m) m out"

text \<open>The mirror that is up to date with a store.\<close>

definition view :: "flat_state \<Rightarrow> mirror" where
  "view fs = \<lparr>mi_keys = (\<lambda>k. case map_of (fs_byKeyId fs) k of None \<Rightarrow> None | Some key \<Rightarrow>
                  map_option (\<lambda>e. (fs_wirePath fs key, fe_type e)) (map_of (fs_entries fs) key)),
               mi_vals = (\<lambda>k. map_option fe_value (fs_getByKeyId fs k))\<rparr>"

lemma mirror_frame_simps [simp]:
  "mirror_frame m (mk_frame ServerKeyRegistration k dt (PString path))
     = m\<lparr>mi_keys := (mi_keys m)(k \<mapsto> (path, dt))\<rparr>"
  "mirror_frame m (mk_frame ServerValue k dt v)
     = (if mi_keys m k = None then m else m\<lparr>mi_vals := (mi_vals m)(k \<mapsto> v)\<rparr>)"
  "mirror_frame m (signal ServerKeyDelete k)
     = m\<lparr>mi_keys := (mi_keys m)(k := None), mi_vals := (mi_vals m)(k := None)\<rparr>"
  "mirror_frame m (signal ServerReset k) = empty_mirror"
  "mirror_frame m (signal ServerSync k) = m"
  by (simp_all add: mirror_frame_def mk_frame_def)

lemma mirror_out_simps [simp]:
  "mirror_out m [] = m"
  "mirror_out m (Enqueue f # out) = mirror_out (mirror_frame m f) out"
  "mirror_out m (Resync # out) = mirror_out m out"
  by (simp_all add: mirror_out_def)

lemma view_value:
  assumes "fs_wf fs nxt" "map_of (fs_entries fs) key = Some e"
  shows "view (fs\<lparr>fs_entries := AList.update key (e\<lparr>fe_value := v\<rparr>) (fs_entries fs)\<rparr>)
    = (view fs)\<lparr>mi_vals := (mi_vals (view fs))(fe_keyId e \<mapsto> v)\<rparr>"
proof -
  let ?E = "map_of (fs_entries fs)" and ?B = "map_of (fs_byKeyId fs)"
  note e = fs_wf_entry [OF assms]
  have same: "k = fe_keyId e" if "?B k = Some key" for k
    using fs_wf_id [OF assms(1) that] assms(2) by (metis option.inject)
  have "mi_keys (view (fs\<lparr>fs_entries := AList.update key (e\<lparr>fe_value := v\<rparr>) (fs_entries fs)\<rparr>)) k
      = mi_keys (view fs) k" for k
    using assms(2) by (auto simp: view_def fs_wirePath_def split: option.split)
  moreover have "mi_vals (view (fs\<lparr>fs_entries := AList.update key (e\<lparr>fe_value := v\<rparr>) (fs_entries fs)\<rparr>)) k
      = ((mi_vals (view fs))(fe_keyId e \<mapsto> v)) k" for k
  proof (cases "k = fe_keyId e")
    case True
    then show ?thesis using e(1) by (simp add: view_def fs_getByKeyId_def)
  next
    case False
    then have "map_of (fs_byKeyId fs) k \<noteq> Some key" using same by blast
    then show ?thesis using False by (auto simp: view_def fs_getByKeyId_def split: option.split)
  qed
  ultimately show ?thesis by (auto simp: fun_eq_iff)
qed

lemma view_add:
  assumes "fs_wf fs nxt" "map_of (fs_entries fs) key = None"
  shows "view (add_entry fs nxt key v) =
    (view fs)\<lparr>mi_keys := (mi_keys (view fs))(nxt \<mapsto> (fs_wirePath fs key, detectDataType v)),
              mi_vals := (mi_vals (view fs))(nxt \<mapsto> v)\<rparr>"
proof -
  have none: "map_of (fs_byKeyId fs) k \<noteq> Some key" for k
    using fs_wf_id [OF assms(1), of k key] assms(2) by auto
  have w: "fs_wirePath (add_entry fs nxt key v) = fs_wirePath fs"
    by (simp add: fun_eq_iff fs_wirePath_def)
  have "mi_keys (view (add_entry fs nxt key v)) k
      = ((mi_keys (view fs))(nxt \<mapsto> (fs_wirePath fs key, detectDataType v))) k"
    "mi_vals (view (add_entry fs nxt key v)) k = ((mi_vals (view fs))(nxt \<mapsto> v)) k" for k
    using none [of k] by (auto simp: view_def w fs_getByKeyId_def split: option.split)
  then show ?thesis by (auto simp: fun_eq_iff)
qed

lemma view_drop:
  assumes "fs_wf fs nxt" "map_of (fs_entries fs) key = Some e"
  shows "view (drop_entry fs e key) =
    (view fs)\<lparr>mi_keys := (mi_keys (view fs))(fe_keyId e := None),
              mi_vals := (mi_vals (view fs))(fe_keyId e := None)\<rparr>"
proof -
  have same: "k = fe_keyId e" if "map_of (fs_byKeyId fs) k = Some key" for k
    using fs_wf_id [OF assms(1) that] assms(2) by (metis option.inject)
  have w: "fs_wirePath (drop_entry fs e key) = fs_wirePath fs"
    by (simp add: fun_eq_iff fs_wirePath_def)
  have "mi_keys (view (drop_entry fs e key)) k = ((mi_keys (view fs))(fe_keyId e := None)) k"
    "mi_vals (view (drop_entry fs e key)) k = ((mi_vals (view fs))(fe_keyId e := None)) k" for k
    using same [of k] by (auto simp: view_def w fs_getByKeyId_def split: option.split)
  then show ?thesis by (auto simp: fun_eq_iff)
qed

lemma mirror_announce:
  "mirror_out m (announce fs nxt key v) =
     m\<lparr>mi_keys := (mi_keys m)(nxt \<mapsto> (fs_wirePath fs key, detectDataType v)), mi_vals := (mi_vals m)(nxt \<mapsto> v)\<rparr>"
  by (simp add: announce_def)

lemma mirror_set:
  assumes "fs_wf fs nxt" "fs_set fs nxt key v = (fs', nxt', out)"
  shows "mirror_out (view fs) out = view fs'"
proof (cases rule: fs_set_cases [of fs key v nxt])
  case (value_only e)
  have "mi_keys (view fs) (fe_keyId e) \<noteq> None"
    using fs_wf_entry [OF assms(1) value_only(1)] value_only(1) by (simp add: view_def)
  then show ?thesis
    using assms(2) value_only view_value [OF assms(1) value_only(1)] by auto
next
  case (new_type e)
  have "announce fs = announce (drop_entry fs e key)"
    by (simp add: fun_eq_iff announce_def fs_wirePath_def)
  then show ?thesis
    using assms(2) new_type(4) view_drop [OF assms(1) new_type(1)]
      view_add [OF fs_wf_drop [OF assms(1) new_type(1)], of key v]
    by (auto simp: mirror_announce)
next
  case new_key
  then show ?thesis
    using assms(2) view_add [OF assms(1) new_key(1)] by (auto simp: mirror_announce)
qed

lemma mirror_clear:
  "fs_wf fs nxt \<Longrightarrow> mirror_out (view fs) (snd (fs_clear fs key)) = view (fst (fs_clear fs key))"
  using view_drop by (auto simp: fs_clear_def split: option.split)

text \<open>The complete picture that a newly synchronised client gets.\<close>

definition full_sync :: "flat_state \<Rightarrow> frame list" where
  "full_sync fs = signal ServerReset 0 # buildKeyFrames fs @ signal ServerSync 0 # buildValueFrames fs"

lemma mirror_keys_fold:
  "foldl mirror_frame m (map (\<lambda>(key, e). mk_frame ServerKeyRegistration (fe_keyId e) (fe_type e) (PString (w key))) es)
   = m\<lparr>mi_keys := mi_keys m ++ map_of (rev (map (\<lambda>(key, e). (fe_keyId e, (w key, fe_type e))) es))\<rparr>"
  by (induction es arbitrary: m) (auto simp: map_add_def fun_eq_iff split: option.split)

lemma mirror_vals_fold:
  "\<forall>(key, e) \<in> set es. mi_keys m (fe_keyId e) \<noteq> None \<Longrightarrow>
   foldl mirror_frame m (map (\<lambda>(key, e). mk_frame ServerValue (fe_keyId e) (fe_type e) (fe_value e)) es)
   = m\<lparr>mi_vals := mi_vals m ++ map_of (rev (map (\<lambda>(key, e). (fe_keyId e, fe_value e)) es))\<rparr>"
proof (induction es arbitrary: m)
  case (Cons x es)
  obtain key e where x: "x = (key, e)" by (cases x)
  have "foldl mirror_frame (m\<lparr>mi_vals := (mi_vals m)(fe_keyId e \<mapsto> fe_value e)\<rparr>)
      (map (\<lambda>(key, e). mk_frame ServerValue (fe_keyId e) (fe_type e) (fe_value e)) es)
    = m\<lparr>mi_vals := (mi_vals m)(fe_keyId e \<mapsto> fe_value e) ++ map_of (rev (map (\<lambda>(key, e). (fe_keyId e, fe_value e)) es))\<rparr>"
    using Cons.prems by (subst Cons.IH) auto
  then show ?case using Cons.prems by (auto simp: x map_add_def fun_eq_iff split: option.split)
qed simp

lemma map_of_by_id:
  assumes "fs_wf fs nxt"
  shows "map_of (rev (map (\<lambda>(key, e). (fe_keyId e, h key e)) (fs_entries fs))) k
    = (case map_of (fs_byKeyId fs) k of None \<Rightarrow> None | Some key \<Rightarrow> map_option (h key) (map_of (fs_entries fs) key))"
proof -
  let ?l = "map (\<lambda>(key, e). (fe_keyId e, h key e)) (fs_entries fs)"
  have wf: "um_wf (fs_entries fs)" using assms by (simp add: fs_wf_def)
  have look: "(key, e) \<in> set (fs_entries fs) \<longleftrightarrow> map_of (fs_entries fs) key = Some e" for key e
    using um_lookup_iff [OF wf] by blast
  have "inj_on (fe_keyId \<circ> snd) (set (fs_entries fs))"
    using fs_wf_inj [OF assms] look by (fastforce simp: inj_on_def)
  then have "distinct (map (fe_keyId \<circ> snd) (fs_entries fs))"
    using wf by (auto simp: distinct_map um_wf_def)
  moreover have "map fst ?l = map (fe_keyId \<circ> snd) (fs_entries fs)" by (simp add: split_beta)
  ultimately have d: "distinct (map fst (rev ?l))" by (simp only: rev_map [symmetric] distinct_rev)
  show ?thesis
  proof (cases "map_of (fs_byKeyId fs) k")
    case None
    then have "k \<notin> fst ` set (rev ?l)" using fs_wf_entry(1) [OF assms] look by fastforce
    then have "map_of (rev ?l) k = None" by (simp only: map_of_eq_None_iff not_False_eq_True)
    then show ?thesis using None by simp
  next
    case (Some key)
    then obtain e where e: "map_of (fs_entries fs) key = Some e" "fe_keyId e = k"
      by (rule fs_wf_id [OF assms])
    then have "(k, h key e) \<in> set (rev ?l)" using look by force
    then show ?thesis using Some e map_of_is_SomeI [OF d] by simp
  qed
qed

lemma mirror_full_sync:
  assumes "fs_wf fs nxt"
  shows "foldl mirror_frame m (full_sync fs) = view fs"
proof -
  let ?K = "map_of (rev (map (\<lambda>(key, e). (fe_keyId e, (fs_wirePath fs key, fe_type e))) (fs_entries fs)))"
  have "\<forall>(key, e) \<in> set (fs_entries fs). ?K (fe_keyId e) \<noteq> None"
    by (auto simp: map_of_eq_None_iff image_iff split_beta)
  then have "foldl mirror_frame m (full_sync fs)
      = \<lparr>mi_keys = ?K, mi_vals = map_of (rev (map (\<lambda>(key, e). (fe_keyId e, fe_value e)) (fs_entries fs)))\<rparr>"
    unfolding full_sync_def buildKeyFrames_def buildValueFrames_def
    by (simp add: mirror_keys_fold mirror_vals_fold empty_mirror_def)
  then show ?thesis
    using map_of_by_id [OF assms, of "\<lambda>key e. (fs_wirePath fs key, fe_type e)"]
      map_of_by_id [OF assms, of "\<lambda>key e. fe_value e"]
    by (simp add: view_def fun_eq_iff fs_getByKeyId_def split: option.split)
qed

section \<open>Properties\<close>

text \<open>What the owner of a flat state does with it.\<close>

datatype fs_op = Set_Key string payload | Clear_Key string

definition fs_step :: "flat_state \<times> u32 \<times> fs_out list \<Rightarrow> fs_op \<Rightarrow> flat_state \<times> u32 \<times> fs_out list" where
  "fs_step s op = (case s of (fs, nxt, out) \<Rightarrow>
     (case op of
        Set_Key key v \<Rightarrow> (let (fs', nxt', out') = fs_set fs nxt key v in (fs', nxt', out @ out'))
      | Clear_Key key \<Rightarrow> (let (fs', out') = fs_clear fs key in (fs', nxt, out @ out'))))"

lemma fs_step_simps:
  "fs_step (fs, nxt, out) (Set_Key key v) = (let (fs', nxt', out') = fs_set fs nxt key v in (fs', nxt', out @ out'))"
  "fs_step (fs, nxt, out) (Clear_Key key) = (let (fs', out') = fs_clear fs key in (fs', nxt, out @ out'))"
  by (simp_all add: fs_step_def)

lemma mirror_out_append [simp]: "mirror_out m (out @ out') = mirror_out (mirror_out m out) out'"
  by (simp add: mirror_out_def)

lemma nxt_grows:
  assumes "fs_set fs nxt key v = (fs', nxt', out)" "nxt \<noteq> - 1"
  shows "unat nxt' \<le> Suc (unat nxt)"
proof -
  have "1 + nxt \<noteq> 0" using assms(2) by (metis add_eq_0_iff)
  then have "unat (nxt + 1) = Suc (unat nxt)" by (simp add: unatSuc add.commute)
  then show ?thesis
    using assms(1) by (cases rule: fs_set_cases [of fs key v nxt]) auto
qed

lemma fs_run:
  assumes "fs_wf fs nxt" "unat nxt + length ops < 2 ^ 32" "mirror_out m0 out = view fs"
    "foldl fs_step (fs, nxt, out) ops = (fs', nxt', out')"
  shows "fs_wf fs' nxt' \<and> mirror_out m0 out' = view fs'"
  using assms
proof (induction ops arbitrary: fs nxt out)
  case (Cons op ops)
  have "nxt \<noteq> - 1"
  proof
    assume "nxt = - 1"
    then have "unat nxt = 2 ^ 32 - 1" by (simp add: unsigned_minus_1_eq_mask mask_eq_exp_minus_1)
    with Cons.prems(2) show False by simp
  qed
  show ?case
  proof (cases op)
    case (Set_Key key v)
    obtain fs1 nxt1 out1 where s: "fs_set fs nxt key v = (fs1, nxt1, out1)"
      by (cases "fs_set fs nxt key v")
    show ?thesis
    proof (rule Cons.IH)
      show "fs_wf fs1 nxt1" by (rule fs_wf_set [OF Cons.prems(1) \<open>nxt \<noteq> - 1\<close> s])
      show "unat nxt1 + length ops < 2 ^ 32" using nxt_grows [OF s \<open>nxt \<noteq> - 1\<close>] Cons.prems(2) by simp
      show "mirror_out m0 (out @ out1) = view fs1"
        using mirror_set [OF Cons.prems(1) s] Cons.prems(3) by simp
      show "foldl fs_step (fs1, nxt1, out @ out1) ops = (fs', nxt', out')"
        using Cons.prems(4) s Set_Key by (simp add: fs_step_simps)
    qed
  next
    case (Clear_Key key)
    obtain fs1 out1 where s: "fs_clear fs key = (fs1, out1)" by (cases "fs_clear fs key")
    show ?thesis
    proof (rule Cons.IH)
      show "fs_wf fs1 nxt" using fs_wf_clear [OF Cons.prems(1), of key] s by simp
      show "unat nxt + length ops < 2 ^ 32" using Cons.prems(2) by simp
      show "mirror_out m0 (out @ out1) = view fs1"
        using mirror_clear [OF Cons.prems(1), of key] s Cons.prems(3) by simp
      show "foldl fs_step (fs1, nxt, out @ out1) ops = (fs', nxt', out')"
        using Cons.prems(4) s Clear_Key by (simp add: fs_step_simps)
    qed
  qed
qed simp

text \<open>C18. The frames that a store sends keep its receivers in step: starting from the empty store and
  a receiver that knows nothing, after any sequence of sets and clears (as long as the id counter
  does not wrap around) the frames sent so far leave the receiver with exactly the paths, types
  and values of the store, no key left over and none missing.\<close>

theorem flat_state_frames_mirror_it:
  assumes "length ops < 2 ^ 32 - 1"
    and "foldl fs_step (new_flat_state prefix, 1, []) ops = (fs, nxt, out)"
  shows "mirror_out empty_mirror out = view fs \<and> fs_wf fs nxt"
  using fs_run [of "new_flat_state prefix" 1 ops empty_mirror "[]" fs nxt out] assms
  by (auto simp: view_def new_flat_state_def empty_mirror_def fs_getByKeyId_def fs_wf_def)

theorem flat_state_frames_mirror_it_witness:
  "let (fs, nxt, out) = foldl fs_step (new_flat_state ''t.0.'', 1, [])
         [Set_Key ''a'' (PBool True), Set_Key ''b'' (PString ''x''), Set_Key ''a'' (PInt32 7), Clear_Key ''b'']
   in mirror_out empty_mirror out = view fs \<and> length out = 11"
proof -
  obtain fs nxt out where run: "foldl fs_step (new_flat_state ''t.0.'', 1, [])
      [Set_Key ''a'' (PBool True), Set_Key ''b'' (PString ''x''), Set_Key ''a'' (PInt32 7), Clear_Key ''b'']
      = (fs, nxt, out)"
    using prod_cases3 by blast
  have "length (snd (snd (foldl fs_step (new_flat_state ''t.0.'', 1, [])
      [Set_Key ''a'' (PBool True), Set_Key ''b'' (PString ''x''), Set_Key ''a'' (PInt32 7), Clear_Key ''b'']))) = 11"
    by code_simp
  then have "length out = 11" unfolding run by simp
  then show ?thesis using flat_state_frames_mirror_it [OF _ run] unfolding run by simp
qed

text \<open>Whatever the receiver knew before, a reset followed by the key frames, the sync marker and the
  value frames of a consistent store leaves it with exactly the contents of the store.\<close>

theorem full_sync_restores_mirror:
  assumes "fs_wf fs nxt"
  shows "foldl mirror_frame m (full_sync fs) = view fs"
  using assms by (rule mirror_full_sync)

theorem full_sync_restores_mirror_witness:
  "foldl mirror_frame empty_mirror (full_sync (fst (fs_set (new_flat_state []) 1 ''a'' (PBool True))))
   = view (fst (fs_set (new_flat_state []) 1 ''a'' (PBool True)))"
proof -
  obtain fs nxt out where s: "fs_set (new_flat_state []) 1 ''a'' (PBool True) = (fs, nxt, out)"
    using prod_cases3 by blast
  have "fs_wf fs nxt" by (rule fs_wf_set [OF fs_wf_new _ s]) simp
  then show ?thesis unfolding s fst_conv by (rule full_sync_restores_mirror)
qed

text \<open>A store answers with the value set last: after any sequence of \<open>set\<close> calls, \<open>get\<close> returns the
  value of the latest call for the key, the previous value if there was none, and the keys are
  those there were and those that were set, whatever types the values have.\<close>

theorem flat_state_last_set_wins:
  "fs_get (fst (foldl (\<lambda>s (key, v). fs_put s key v) (fs, nxt) kvs)) key
     = (case map_of (rev kvs) key of Some v \<Rightarrow> v | None \<Rightarrow> fs_get fs key)
   \<and> set (fs_keys (fst (foldl (\<lambda>s (key, v). fs_put s key v) (fs, nxt) kvs))) = set (fs_keys fs) \<union> fst ` set kvs"
  using flat.get_puts [of "(fs, nxt)" kvs key] flat.keys_puts [of "(fs, nxt)" kvs]
  by (simp only: fst_conv simp_thms)

end
