(* ===== verification/Principal_TX.thy ===== *)
theory Principal_TX
  imports Flat_State "HOL-Library.Multiset"
begin

text \<open>
  \<open>api/principal_tx.cpp\<close>: the state shared by all sessions of a principal, with its cache of
  key frames, and the registry of principals with the number of sessions of each. The callback
  \<open>onIncrementalKey_\<close> is never called by the code and left out. \<open>onNewPrincipal_\<close> only installs
  the server's callbacks, which the server's theory reads off the outputs.
\<close>

record principal_tx =
  pt_name :: string
  pt_nextKeyId :: u32
  pt_flatState :: flat_state
  pt_cachedKeyFrames :: "frame list"
  pt_keyFramesCached :: bool

definition new_principal_tx :: "string \<Rightarrow> principal_tx" where
  "new_principal_tx name = \<lparr>pt_name = name, pt_nextKeyId = 1, pt_flatState = new_flat_state [],
     pt_cachedKeyFrames = [], pt_keyFramesCached = False\<rparr>"

text \<open>\<open>triggerResync\<close> drops the cache and then calls \<open>onKeysChanged_\<close>, the output \<open>Resync\<close>.\<close>

definition pt_triggerResync :: "principal_tx \<Rightarrow> principal_tx" where
  "pt_triggerResync pt = pt\<lparr>pt_keyFramesCached := False, pt_cachedKeyFrames := []\<rparr>"

definition pt_set :: "principal_tx \<Rightarrow> string \<Rightarrow> payload \<Rightarrow> principal_tx \<times> fs_out list" where
  "pt_set pt key value =
     (let (fs, nxt, out) = fs_set (pt_flatState pt) (pt_nextKeyId pt) key value
      in (pt\<lparr>pt_flatState := fs, pt_nextKeyId := nxt\<rparr>, out))"

definition pt_get :: "principal_tx \<Rightarrow> string \<Rightarrow> payload" where
  "pt_get pt key = fs_get (pt_flatState pt) key"

definition pt_keys :: "principal_tx \<Rightarrow> string list" where
  "pt_keys pt = fs_keys (pt_flatState pt)"

definition pt_clear_all :: "principal_tx \<Rightarrow> principal_tx \<times> fs_out list" where
  "pt_clear_all pt =
     (let (fs, out) = fs_clear_all (pt_flatState pt);
          pt = pt\<lparr>pt_flatState := fs\<rparr>;
          pt = (if Resync \<in> set out then pt_triggerResync pt else pt)
      in (pt\<lparr>pt_nextKeyId := 1\<rparr>, out))"

definition pt_clear :: "principal_tx \<Rightarrow> string \<Rightarrow> principal_tx \<times> fs_out list" where
  "pt_clear pt key =
     (let (fs, out) = fs_clear (pt_flatState pt) key in (pt\<lparr>pt_flatState := fs\<rparr>, out))"

definition pt_buildKeyFrames :: "principal_tx \<Rightarrow> frame list \<times> principal_tx" where
  "pt_buildKeyFrames pt =
     (if pt_keyFramesCached pt then (pt_cachedKeyFrames pt, pt)
      else let frames = buildKeyFrames (pt_flatState pt) @ [signal ServerSync 0]
           in (frames, pt\<lparr>pt_cachedKeyFrames := frames, pt_keyFramesCached := True\<rparr>))"

definition pt_buildValueFrames :: "principal_tx \<Rightarrow> frame list" where
  "pt_buildValueFrames pt = buildValueFrames (pt_flatState pt)"

lemma pt_set_flat:
  obtains fs nxt out where "fs_set (pt_flatState pt) (pt_nextKeyId pt) key v = (fs, nxt, out)"
    "pt_set pt key v = (pt\<lparr>pt_flatState := fs, pt_nextKeyId := nxt\<rparr>, out)"
  by (cases "fs_set (pt_flatState pt) (pt_nextKeyId pt) key v") (simp add: pt_set_def)

lemma pt_clear_flat [simp]:
  "pt_flatState (fst (pt_clear pt key)) = fst (fs_clear (pt_flatState pt) key)"
  "snd (pt_clear pt key) = snd (fs_clear (pt_flatState pt) key)"
  "pt_flatState (fst (pt_clear_all pt)) = fst (fs_clear_all (pt_flatState pt))"
  by (simp_all add: pt_clear_def pt_clear_all_def pt_triggerResync_def Let_def split_beta)

text \<open>A principal offers the same key/value contract as its flat state.\<close>

interpretation principal: kv_store "\<lambda>pt key v. fst (pt_set pt key v)" pt_get pt_keys
    "\<lambda>pt key. fst (pt_clear pt key)" "\<lambda>pt. fst (pt_clear_all pt)"
proof (unfold_locales, goal_cases)
  case (1 s k v k')
  show ?case by (rule pt_set_flat [of s k v]) (simp add: pt_get_def fs_get_set)
next
  case (2 s k v)
  show ?case by (rule pt_set_flat [of s k v]) (simp add: pt_keys_def fs_keys_set)
next
  case (6 k s)
  then show ?case using flat.get_unknown [of k "(pt_flatState s, 0)"] by (simp add: pt_get_def pt_keys_def)
qed (simp_all add: pt_get_def pt_keys_def fs_get_clear fs_keys_clear, simp add: fs_keys_def fs_clear_all_def)

text \<open>The invariant of the underlying store, and when the cache is up to date.\<close>

definition pt_wf :: "principal_tx \<Rightarrow> bool" where
  "pt_wf pt \<longleftrightarrow> fs_wf (pt_flatState pt) (pt_nextKeyId pt) \<and> fs_wirePrefix (pt_flatState pt) = []"

definition pt_fresh :: "principal_tx \<Rightarrow> bool" where
  "pt_fresh pt \<longleftrightarrow> (pt_keyFramesCached pt \<longrightarrow>
     pt_cachedKeyFrames pt = buildKeyFrames (pt_flatState pt) @ [signal ServerSync 0])"

lemma pt_wf_new [simp, inv_intros]: "pt_wf (new_principal_tx name)"
  by (simp add: pt_wf_def new_principal_tx_def) (simp add: new_flat_state_def)

lemma pt_fresh_new [simp, inv_intros]: "pt_fresh (new_principal_tx name)"
  by (simp add: pt_fresh_def new_principal_tx_def)

lemma pt_wf_set [inv_intros]: "pt_wf pt \<Longrightarrow> pt_nextKeyId pt \<noteq> - 1 \<Longrightarrow> pt_wf (fst (pt_set pt key v))"
  by (rule pt_set_flat [of pt key v]) (auto simp: pt_wf_def intro: fs_wf_set)

lemma fs_prefix_clear [simp]: "fs_wirePrefix (fst (fs_clear fs key)) = fs_wirePrefix fs"
  by (auto simp: fs_clear_def split: option.split)

lemma pt_wf_clear [inv_intros]: "pt_wf pt \<Longrightarrow> pt_wf (fst (pt_clear pt key))"
  by (simp add: pt_wf_def pt_clear_def split_beta fs_wf_clear)

lemma pt_wf_clear_all [inv_intros]: "pt_wf pt \<Longrightarrow> pt_wf (fst (pt_clear_all pt))"
  by (auto simp: pt_wf_def fs_wf_clear_all) (auto simp: fs_clear_all_def)

lemma pt_fresh_build:
  assumes "pt_fresh pt"
  shows "fst (pt_buildKeyFrames pt) = buildKeyFrames (pt_flatState pt) @ [signal ServerSync 0]"
    and "pt_fresh (snd (pt_buildKeyFrames pt))"
  using assms by (auto simp: pt_buildKeyFrames_def pt_fresh_def Let_def)

lemma pt_fresh_clear_all [inv_intros]: "pt_fresh pt \<Longrightarrow> pt_fresh (fst (pt_clear_all pt))"
  by (auto simp: pt_fresh_def pt_clear_all_def fs_clear_all_def pt_triggerResync_def)

lemma buildKeyFrames_update_value:
  "map_of es key = Some e \<Longrightarrow>
   map (\<lambda>(key, e). mk_frame ServerKeyRegistration (fe_keyId e) (fe_type e) (PString (w key)))
     (AList.update key (e\<lparr>fe_value := v\<rparr>) es)
   = map (\<lambda>(key, e). mk_frame ServerKeyRegistration (fe_keyId e) (fe_type e) (PString (w key))) es"
  by (induction es) (auto split: if_splits)

lemma pt_fresh_set [inv_intros]:
  assumes "pt_fresh pt" "\<not> needs_id (pt_flatState pt) key v"
  shows "pt_fresh (fst (pt_set pt key v))"
proof (cases rule: fs_set_cases [of "pt_flatState pt" key v "pt_nextKeyId pt"])
  case (value_only e)
  let ?fs = "pt_flatState pt\<lparr>fs_entries := AList.update key (e\<lparr>fe_value := v\<rparr>) (fs_entries (pt_flatState pt))\<rparr>"
  have "fs_wirePath ?fs = fs_wirePath (pt_flatState pt)"
    by (simp add: fun_eq_iff fs_wirePath_def)
  then have "buildKeyFrames ?fs = buildKeyFrames (pt_flatState pt)"
    using value_only(1) by (simp add: buildKeyFrames_def buildKeyFrames_update_value)
  then show ?thesis
    using assms(1) value_only by (simp add: pt_fresh_def pt_set_def)
qed (use assms(2) in auto)

section \<open>The principals of a server\<close>

record principal_manager =
  pm_principals :: "(string, principal_tx) umap"
  pm_sessionCounts :: "(string, int) umap"

definition new_principal_manager :: principal_manager where
  "new_principal_manager = \<lparr>pm_principals = [], pm_sessionCounts = []\<rparr>"

text \<open>\<open>principal(name)\<close> returns a reference; the model returns the manager that holds it.\<close>

definition pm_principal :: "principal_manager \<Rightarrow> string \<Rightarrow> principal_manager \<times> principal_tx" where
  "pm_principal pm name =
     (case map_of (pm_principals pm) name of
        Some pt \<Rightarrow> (pm, pt)
      | None \<Rightarrow> (let pt = new_principal_tx name
                in (pm\<lparr>pm_principals := AList.update name pt (pm_principals pm)\<rparr>, pt)))"

text \<open>Writing back through that reference.\<close>

definition pm_store :: "principal_manager \<Rightarrow> string \<Rightarrow> principal_tx \<Rightarrow> principal_manager" where
  "pm_store pm name pt = pm\<lparr>pm_principals := AList.update name pt (pm_principals pm)\<rparr>"

definition pm_has :: "principal_manager \<Rightarrow> string \<Rightarrow> bool" where
  "pm_has pm name = (map_of (pm_principals pm) name \<noteq> None)"

definition pm_remove :: "principal_manager \<Rightarrow> string \<Rightarrow> principal_manager" where
  "pm_remove pm name = pm\<lparr>pm_principals := AList.delete name (pm_principals pm),
     pm_sessionCounts := AList.delete name (pm_sessionCounts pm)\<rparr>"

definition pm_size :: "principal_manager \<Rightarrow> nat" where
  "pm_size pm = length (pm_principals pm)"

definition pm_principalNames :: "principal_manager \<Rightarrow> string list" where
  "pm_principalNames pm = map fst (filter (\<lambda>(name, count). 0 < count) (pm_sessionCounts pm))"

definition pm_addSession :: "principal_manager \<Rightarrow> string \<Rightarrow> principal_manager" where
  "pm_addSession pm p =
     (let count = (case map_of (pm_sessionCounts pm) p of Some c \<Rightarrow> c | None \<Rightarrow> 0)
      in pm\<lparr>pm_sessionCounts := AList.update p (count + 1) (pm_sessionCounts pm)\<rparr>)"

definition pm_removeSession :: "principal_manager \<Rightarrow> string \<Rightarrow> principal_manager \<times> bool" where
  "pm_removeSession pm p =
     (case map_of (pm_sessionCounts pm) p of
        None \<Rightarrow> (pm, True)
      | Some c \<Rightarrow>
          if c - 1 \<le> 0 then (pm\<lparr>pm_sessionCounts := AList.delete p (pm_sessionCounts pm)\<rparr>, True)
          else (pm\<lparr>pm_sessionCounts := AList.update p (c - 1) (pm_sessionCounts pm)\<rparr>, False))"

definition pm_hasActiveSessions :: "principal_manager \<Rightarrow> string \<Rightarrow> bool" where
  "pm_hasActiveSessions pm p =
     (case map_of (pm_sessionCounts pm) p of None \<Rightarrow> False | Some c \<Rightarrow> 0 < c)"

text \<open>The manager keeps the bag of the principals of the running sessions.\<close>

definition counts :: "principal_manager \<Rightarrow> string multiset \<Rightarrow> bool" where
  "counts pm M \<longleftrightarrow> um_wf (pm_sessionCounts pm)
     \<and> (\<forall>p. map_of (pm_sessionCounts pm) p = (if p \<in># M then Some (int (count M p)) else None))"

lemma counts_new [simp, inv_intros]: "counts new_principal_manager {#}"
  by (simp add: counts_def new_principal_manager_def)

lemma counts_add [inv_intros]: "counts pm M \<Longrightarrow> counts (pm_addSession pm p) (add_mset p M)"
  by (auto simp: counts_def pm_addSession_def Let_def not_in_iff)

lemma counts_remove [inv_intros]: "counts pm M \<Longrightarrow> counts (fst (pm_removeSession pm p)) (M - {#p#})"
  by (auto simp: counts_def pm_removeSession_def not_in_iff in_diff_count split: option.splits)

lemma counts_remove_result:
  "counts pm M \<Longrightarrow> snd (pm_removeSession pm p) \<longleftrightarrow> p \<notin># M - {#p#}"
  by (auto simp: counts_def pm_removeSession_def not_in_iff in_diff_count split: option.splits)

lemma counts_active: "counts pm M \<Longrightarrow> pm_hasActiveSessions pm p \<longleftrightarrow> p \<in># M"
  by (auto simp: counts_def pm_hasActiveSessions_def count_greater_zero_iff)

lemma counts_names: "counts pm M \<Longrightarrow> set (pm_principalNames pm) = set_mset M"
proof -
  assume c: "counts pm M"
  have "p \<in> set (pm_principalNames pm) \<longleftrightarrow> (\<exists>n. map_of (pm_sessionCounts pm) p = Some n \<and> 0 < n)" for p
    using c um_lookup_iff [of "pm_sessionCounts pm" p] by (force simp: pm_principalNames_def counts_def)
  then show ?thesis using c by (auto simp: counts_def split: if_splits)
qed

section \<open>Properties\<close>

datatype session_op = Add_Session string | Remove_Session string

fun pm_step :: "principal_manager \<Rightarrow> session_op \<Rightarrow> principal_manager" where
  "pm_step pm (Add_Session p) = pm_addSession pm p"
| "pm_step pm (Remove_Session p) = fst (pm_removeSession pm p)"

fun bag_step :: "string multiset \<Rightarrow> session_op \<Rightarrow> string multiset" where
  "bag_step M (Add_Session p) = add_mset p M"
| "bag_step M (Remove_Session p) = M - {#p#}"

lemma counts_run: "counts pm M \<Longrightarrow> counts (foldl pm_step pm ops) (foldl bag_step M ops)"
proof (induction ops arbitrary: pm M)
  case (Cons op ops)
  then show ?case by (cases op) (auto intro: counts_add counts_remove)
qed simp

text \<open>The session counts implement a bag of principals: after any sequence of additions and
  removals (removing what is not there included) a principal has active sessions exactly when it
  is in the bag, the listed names are its elements, and a removal reports whether it took out the
  last one.\<close>

theorem session_counts_implement_bag:
  "let pm = foldl pm_step new_principal_manager ops; M = foldl bag_step {#} ops
   in (pm_hasActiveSessions pm p \<longleftrightarrow> p \<in># M) \<and> set (pm_principalNames pm) = set_mset M
      \<and> (snd (pm_removeSession pm p) \<longleftrightarrow> count M p \<le> 1)"
  using counts_run [OF counts_new, of ops]
  by (simp add: Let_def counts_active counts_names counts_remove_result not_in_iff)

text \<open>The frames with which a session that is synchronised now starts.\<close>

definition registered_paths :: "frame list \<Rightarrow> string list" where
  "registered_paths fs = List.map_filter (\<lambda>f.
     case (frameType f, payload f) of (ServerKeyRegistration, PString p) \<Rightarrow> Some p | _ \<Rightarrow> None) fs"

lemma registered_paths_simps [simp]:
  "registered_paths [] = []"
  "registered_paths (mk_frame ServerKeyRegistration k t (PString p) # fs) = p # registered_paths fs"
  "registered_paths (signal ServerSync 0 # fs) = registered_paths fs"
  by (simp_all add: registered_paths_def map_filter_simps mk_frame_def)

lemma registered_buildKeyFrames:
  assumes "fs_wirePrefix fs = []"
  shows "registered_paths (buildKeyFrames fs @ [signal ServerSync 0]) = fs_keys fs"
proof -
  have "registered_paths (map (\<lambda>(key, e). mk_frame ServerKeyRegistration (fe_keyId e) (fe_type e) (PString key)) es
      @ [signal ServerSync 0]) = map fst es" for es
    by (induction es) auto
  then show ?thesis using assms by (simp add: buildKeyFrames_def fs_wirePath_def fs_keys_def)
qed

text \<open>The cache of key frames is not dropped when a key is added: once the frames have been built
  for one session, a key that is set afterwards is missing from the frames of every later
  session, although its value is sent to them.\<close>

theorem new_key_missing_from_cached_frames:
  assumes "pt_wf pt" and "pt_fresh pt" and "key \<notin> set (pt_keys pt)"
    and "pt_set (snd (pt_buildKeyFrames pt)) key v = (pt', out)"
  shows "fst (pt_buildKeyFrames pt') = buildKeyFrames (pt_flatState pt) @ [signal ServerSync 0]
    \<and> key \<notin> set (registered_paths (fst (pt_buildKeyFrames pt')))
    \<and> mk_frame ServerValue (pt_nextKeyId pt) (detectDataType v) v \<in> set (pt_buildValueFrames pt')"
proof -
  let ?pt = "snd (pt_buildKeyFrames pt)"
  have b: "pt_keyFramesCached ?pt" "pt_cachedKeyFrames ?pt = buildKeyFrames (pt_flatState pt) @ [signal ServerSync 0]"
    "pt_flatState ?pt = pt_flatState pt" "pt_nextKeyId ?pt = pt_nextKeyId pt"
    using assms(2) by (auto simp: pt_buildKeyFrames_def pt_fresh_def Let_def)
  have none: "map_of (fs_entries (pt_flatState pt)) key = None"
    using assms(3) by (simp add: pt_keys_def fs_keys_def map_of_eq_None_iff)
  have pt': "pt' = ?pt\<lparr>pt_flatState := add_entry (pt_flatState pt) (pt_nextKeyId pt) key v,
      pt_nextKeyId := pt_nextKeyId pt + 1\<rparr>"
    using assms(4) none by (cases rule: fs_set_cases [of "pt_flatState pt" key v "pt_nextKeyId pt"])
      (auto simp: pt_set_def b)
  have frames: "fst (pt_buildKeyFrames pt') = buildKeyFrames (pt_flatState pt) @ [signal ServerSync 0]"
    using b by (simp add: pt' pt_buildKeyFrames_def)
  have "map_of (fs_entries (pt_flatState pt')) key = Some (mk_fs_entry (pt_nextKeyId pt) (detectDataType v) v)"
    by (simp add: pt')
  from map_of_SomeD [OF this]
  have "mk_frame ServerValue (pt_nextKeyId pt) (detectDataType v) v \<in> set (pt_buildValueFrames pt')"
    by (force simp: pt_buildValueFrames_def buildValueFrames_def)
  moreover have "set (registered_paths (buildKeyFrames (pt_flatState pt) @ [signal ServerSync 0])) = set (pt_keys pt)"
    using assms(1) by (simp add: registered_buildKeyFrames pt_wf_def pt_keys_def)
  ultimately show ?thesis using frames assms(3) by simp
qed

theorem new_key_missing_from_cached_frames_witness:
  "let pt = fst (pt_set (snd (pt_buildKeyFrames (new_principal_tx ''p''))) ''a'' (PBool True))
   in fst (pt_buildKeyFrames pt) = [signal ServerSync 0]
      \<and> pt_buildValueFrames pt = [mk_frame ServerValue 1 DT_Bool (PBool True)]"
proof -
  obtain pt out where s: "pt_set (snd (pt_buildKeyFrames (new_principal_tx ''p''))) ''a'' (PBool True) = (pt, out)"
    by (cases "pt_set (snd (pt_buildKeyFrames (new_principal_tx ''p''))) ''a'' (PBool True)")
  have "''a'' \<notin> set (pt_keys (new_principal_tx ''p''))" by code_simp
  moreover have "buildKeyFrames (pt_flatState (new_principal_tx ''p'')) = []" by code_simp
  moreover have "pt_buildValueFrames (fst (pt_set (snd (pt_buildKeyFrames (new_principal_tx ''p''))) ''a'' (PBool True)))
      = [mk_frame ServerValue 1 DT_Bool (PBool True)]" by code_simp
  ultimately show ?thesis
    using new_key_missing_from_cached_frames [OF pt_wf_new pt_fresh_new _ s] by (simp add: s)
qed

text \<open>C25. Where the cache is not stale the key frames and the value frames fit together: a receiver in any
  state that is sent the reset, the key frames and the value frames of a principal ends up with
  exactly its contents; and clearing all keys or changing values never makes the cache stale.\<close>

theorem principal_sync_complete:
  assumes "pt_wf pt" and "pt_fresh pt"
  shows "foldl mirror_frame m (signal ServerReset 0 # fst (pt_buildKeyFrames pt) @ pt_buildValueFrames pt)
      = view (pt_flatState pt)
    \<and> pt_fresh (snd (pt_buildKeyFrames pt)) \<and> pt_fresh (fst (pt_clear_all pt))
    \<and> (\<forall>key v. needs_id (pt_flatState pt) key v \<or> pt_fresh (fst (pt_set pt key v)))"
proof -
  have "signal ServerReset 0 # fst (pt_buildKeyFrames pt) @ pt_buildValueFrames pt = full_sync (pt_flatState pt)"
    by (simp add: pt_fresh_build [OF assms(2)] full_sync_def pt_buildValueFrames_def)
  then show ?thesis
    using mirror_full_sync [of "pt_flatState pt" "pt_nextKeyId pt" m] assms pt_fresh_build [OF assms(2)]
      pt_fresh_clear_all [OF assms(2)] pt_fresh_set [OF assms(2)]
    by (auto simp: pt_wf_def)
qed

theorem principal_sync_complete_witness:
  "foldl mirror_frame empty_mirror
     (signal ServerReset 0 # fst (pt_buildKeyFrames (fst (pt_set (new_principal_tx ''p'') ''a'' (PBool True))))
       @ pt_buildValueFrames (fst (pt_set (new_principal_tx ''p'') ''a'' (PBool True))))
   = view (pt_flatState (fst (pt_set (new_principal_tx ''p'') ''a'' (PBool True))))"
proof -
  have "pt_nextKeyId (new_principal_tx ''p'') \<noteq> - 1" by (simp add: new_principal_tx_def)
  moreover have "pt_fresh (fst (pt_set (new_principal_tx ''p'') ''a'' (PBool True)))"
    by (rule pt_set_flat [of "new_principal_tx ''p''" "''a''" "PBool True"])
       (simp add: pt_fresh_def new_principal_tx_def)
  ultimately show ?thesis
    using principal_sync_complete [OF pt_wf_set [OF pt_wf_new]] by blast
qed

end
