(* ===== verification/Topic_Handle.thy ===== *)
theory Topic_Handle
  imports Principal_TX
begin

text \<open>
  \<open>api/topic_handle.cpp\<close>: the payload store of one topic of one session, and the handle with
  its parameters, its user callback and its periodic task. Key ids come from the session's
  counter, which is passed in and returned. The user's callback is not called in the model: each
  call is an event, and the flag \<open>th_callback\<close> says whether one is installed. The flag
  \<open>on_task\<close> of an operation says that its caller runs on the task's thread.
\<close>

section \<open>Payload\<close>

record topic_payload =
  tp_index :: int
  tp_flatState :: flat_state
  tp_bound :: bool

definition topic_prefix :: "int \<Rightarrow> string" where
  "topic_prefix index = ''t.'' @ show_int index @ ''.''"

definition new_topic_payload :: "int \<Rightarrow> topic_payload" where
  "new_topic_payload index =
     \<lparr>tp_index = index, tp_flatState = new_flat_state (topic_prefix index), tp_bound = False\<rparr>"

text \<open>\<open>_bind\<close> replaces the store by an empty one that has somewhere to send its frames.\<close>

definition tp_bind :: "topic_payload \<Rightarrow> topic_payload" where
  "tp_bind tp = tp\<lparr>tp_flatState := new_flat_state (topic_prefix (tp_index tp)), tp_bound := True\<rparr>"

definition tp_emit :: "topic_payload \<Rightarrow> fs_out list \<Rightarrow> fs_out list" where
  "tp_emit tp out = (if tp_bound tp then out else [])"

definition tp_set :: "topic_payload \<Rightarrow> u32 \<Rightarrow> string \<Rightarrow> payload \<Rightarrow> topic_payload \<times> u32 \<times> fs_out list" where
  "tp_set tp nxt key value =
     (let (fs, nxt', out) = fs_set (tp_flatState tp) nxt key value
      in (tp\<lparr>tp_flatState := fs\<rparr>, nxt', tp_emit tp out))"

definition tp_get :: "topic_payload \<Rightarrow> string \<Rightarrow> payload" where
  "tp_get tp key = fs_get (tp_flatState tp) key"

definition tp_keys :: "topic_payload \<Rightarrow> string list" where
  "tp_keys tp = fs_keys (tp_flatState tp)"

definition tp_clear_all :: "topic_payload \<Rightarrow> topic_payload \<times> fs_out list" where
  "tp_clear_all tp =
     (let (fs, out) = fs_clear_all (tp_flatState tp) in (tp\<lparr>tp_flatState := fs\<rparr>, tp_emit tp out))"

definition tp_clear :: "topic_payload \<Rightarrow> string \<Rightarrow> topic_payload \<times> fs_out list" where
  "tp_clear tp key =
     (let (fs, out) = fs_clear (tp_flatState tp) key in (tp\<lparr>tp_flatState := fs\<rparr>, tp_emit tp out))"

definition tp_buildKeyFrames :: "topic_payload \<Rightarrow> frame list" where
  "tp_buildKeyFrames tp = buildKeyFrames (tp_flatState tp)"

definition tp_buildValueFrames :: "topic_payload \<Rightarrow> frame list" where
  "tp_buildValueFrames tp = buildValueFrames (tp_flatState tp)"

definition tp_size :: "topic_payload \<Rightarrow> nat" where
  "tp_size tp = fs_size (tp_flatState tp)"

interpretation topic: kv_store
    "\<lambda>s key v. let (tp, nxt, _) = tp_set (fst s) (snd s) key v in (tp, nxt)"
    "\<lambda>s. tp_get (fst s)" "\<lambda>s. tp_keys (fst s)"
    "\<lambda>s key. (fst (tp_clear (fst s) key), snd s)" "\<lambda>s. (fst (tp_clear_all (fst s)), snd s)"
proof (unfold_locales, goal_cases)
  case (1 s k v k')
  show ?case
    by (cases "fs_set (tp_flatState (fst s)) (snd s) k v") (simp add: tp_set_def tp_get_def fs_get_set)
next
  case (2 s k v)
  show ?case
    by (cases "fs_set (tp_flatState (fst s)) (snd s) k v") (simp add: tp_set_def tp_keys_def fs_keys_set)
next
  case (6 k s)
  then show ?case
    using flat.get_unknown [of k "(tp_flatState (fst s), 0)"] by (simp add: tp_get_def tp_keys_def)
qed (simp_all add: tp_get_def tp_keys_def tp_clear_def tp_clear_all_def split_beta fs_get_clear fs_keys_clear,
     simp add: fs_keys_def fs_clear_all_def)

section \<open>Handle\<close>

datatype topic_event = Subscribe | ChangedParams | DelayedTask

record topic_handle =
  th_name :: string
  th_params :: "(string \<times> payload) list"
  th_payload :: topic_payload
  th_callback :: bool
  th_taskRunning :: bool
  th_taskStop :: bool
  th_taskIntervalMs :: int
  th_taskThread :: timer_thread

definition new_topic_handle :: "string \<Rightarrow> (string \<times> payload) list \<Rightarrow> topic_payload \<Rightarrow> topic_handle" where
  "new_topic_handle name params tp =
     \<lparr>th_name = name, th_params = params, th_payload = tp, th_callback = False,
      th_taskRunning = False, th_taskStop = False, th_taskIntervalMs = 0, th_taskThread = No_Thread\<rparr>"

definition th_setCallback :: "topic_handle \<Rightarrow> bool \<Rightarrow> topic_handle \<times> topic_event list" where
  "th_setCallback th fn = (th\<lparr>th_callback := fn\<rparr>, if fn then [Subscribe] else [])"

text \<open>The state is returned beside the result: a throwing join leaves \<open>taskStop_\<close> set.\<close>

definition th_clearDelayedTask :: "bool \<Rightarrow> topic_handle \<Rightarrow> topic_handle \<times> unit res" where
  "th_clearDelayedTask on_task th =
     (if \<not> th_taskRunning th then (th, Inr ())
      else let th = th\<lparr>th_taskStop := True\<rparr>
           in case join_thread on_task (th_taskThread th) of
                Inl e \<Rightarrow> (th, Inl e)
              | Inr t \<Rightarrow> (th\<lparr>th_taskThread := t, th_taskRunning := False\<rparr>, Inr ()))"

definition th_setDelayedTask :: "bool \<Rightarrow> topic_handle \<Rightarrow> int \<Rightarrow> topic_handle \<times> unit res" where
  "th_setDelayedTask on_task th intervalMs =
     (case th_clearDelayedTask on_task th of
        (th, Inl e) \<Rightarrow> (th, Inl e)
      | (th, Inr _) \<Rightarrow>
          let th = th\<lparr>th_taskIntervalMs := intervalMs, th_taskStop := False, th_taskRunning := True\<rparr>
          in (case assign_thread (th_taskThread th) of
                Inl e \<Rightarrow> (th, Inl e)
              | Inr t \<Rightarrow> (th\<lparr>th_taskThread := t\<rparr>, Inr ())))"

text \<open>One round of \<open>taskLoop\<close> after its sleep.\<close>

definition th_taskRound :: "topic_handle \<Rightarrow> topic_handle \<times> topic_event list" where
  "th_taskRound th =
     (if th_taskThread th \<noteq> Looping then (th, [])
      else if th_taskStop th then (th\<lparr>th_taskThread := Finished\<rparr>, [])
      else (th, if th_callback th then [DelayedTask] else []))"

definition th_updateParams :: "bool \<Rightarrow> topic_handle \<Rightarrow> (string \<times> payload) list
    \<Rightarrow> topic_handle \<times> topic_event list \<times> unit res" where
  "th_updateParams on_task th newParams =
     (let th = th\<lparr>th_params := newParams\<rparr>;
          hadTask = th_taskRunning th;
          savedMs = th_taskIntervalMs th
      in case th_clearDelayedTask on_task th of
           (th, Inl e) \<Rightarrow> (th, [], Inl e)
         | (th, Inr _) \<Rightarrow>
             let evs = (if th_callback th then [ChangedParams] else [])
             in if hadTask \<and> 0 < savedMs
                then (let (th, r) = th_setDelayedTask on_task th savedMs in (th, evs, r))
                else (th, evs, Inr ()))"

definition th_dispose :: "bool \<Rightarrow> topic_handle \<Rightarrow> topic_handle \<times> unit res" where
  "th_dispose on_task th =
     (case th_clearDelayedTask on_task th of
        (th, Inl e) \<Rightarrow> (th, Inl e)
      | (th, Inr _) \<Rightarrow> (th\<lparr>th_callback := False\<rparr>, Inr ()))"

text \<open>A running task has a thread, and no thread is left when none runs.\<close>

definition th_ok :: "topic_handle \<Rightarrow> bool" where
  "th_ok th \<longleftrightarrow> (th_taskRunning th \<longleftrightarrow> joinable (th_taskThread th))"

lemma th_ok_new [simp, inv_intros]: "th_ok (new_topic_handle name params tp)"
  by (simp add: th_ok_def new_topic_handle_def joinable_def)

lemma th_clear_outside:
  "th_ok th \<Longrightarrow> \<exists>th'. th_clearDelayedTask False th = (th', Inr ()) \<and> \<not> th_taskRunning th'
     \<and> th_taskThread th' = No_Thread \<and> th_callback th' = th_callback th \<and> th_payload th' = th_payload th"
  by (auto simp: th_clearDelayedTask_def join_thread_def th_ok_def joinable_def)

lemma th_set_outside:
  assumes "th_ok th"
  shows "\<exists>th'. th_setDelayedTask False th ms = (th', Inr ()) \<and> th_ok th' \<and> th_taskRunning th'
    \<and> \<not> th_taskStop th' \<and> th_taskIntervalMs th' = ms"
proof -
  obtain th' where "th_clearDelayedTask False th = (th', Inr ())" "th_taskThread th' = No_Thread"
    using th_clear_outside [OF assms] by blast
  then show ?thesis
    by (simp add: th_setDelayedTask_def assign_thread_def joinable_def th_ok_def)
qed

lemma th_dispose_outside:
  "th_ok th \<Longrightarrow> \<exists>th'. th_dispose False th = (th', Inr ()) \<and> \<not> th_taskRunning th' \<and> \<not> th_callback th' \<and> th_ok th'"
  using th_clear_outside [of th] by (auto simp: th_dispose_def th_ok_def joinable_def)

lemma th_round_ok [inv_intros]: "th_ok th \<Longrightarrow> th_ok (fst (th_taskRound th))"
  by (auto simp: th_taskRound_def th_ok_def joinable_def)

lemma th_clear_on_task:
  "th_ok th \<Longrightarrow> th_taskRunning th \<Longrightarrow>
     th_clearDelayedTask True th = (th\<lparr>th_taskStop := True\<rparr>, Inl System_Error)"
  by (simp add: th_clearDelayedTask_def join_thread_def th_ok_def)

section \<open>Properties\<close>

text \<open>C34. The periodic task of a topic, used from outside its own thread, never leaks or reuses a
  thread: setting it always succeeds and leaves exactly one running task with the new interval,
  disposing always succeeds, leaves no thread, and no callback is delivered afterwards. From
  inside a callback of the task itself, however, both throw (a thread cannot join itself) and the
  task stops for good, since the stop flag stays set.\<close>

theorem topic_task_lifecycle:
  assumes "th_ok th"
  shows "(\<exists>th'. th_setDelayedTask False th ms = (th', Inr ()) \<and> th_ok th' \<and> th_taskRunning th'
            \<and> \<not> th_taskStop th' \<and> th_taskIntervalMs th' = ms)
    \<and> (\<exists>th'. th_dispose False th = (th', Inr ()) \<and> th_ok th' \<and> \<not> th_taskRunning th'
            \<and> snd (th_taskRound th') = [])
    \<and> (th_taskRunning th \<longrightarrow> (\<exists>th'. th_setDelayedTask True th ms = (th', Inl System_Error)
            \<and> th_dispose True th = (th', Inl System_Error) \<and> snd (th_taskRound th') = []))"
proof (intro conjI impI)
  show "\<exists>th'. th_setDelayedTask False th ms = (th', Inr ()) \<and> th_ok th' \<and> th_taskRunning th'
      \<and> \<not> th_taskStop th' \<and> th_taskIntervalMs th' = ms"
    by (rule th_set_outside [OF assms])
  show "\<exists>th'. th_dispose False th = (th', Inr ()) \<and> th_ok th' \<and> \<not> th_taskRunning th' \<and> snd (th_taskRound th') = []"
  proof -
    obtain th' where th': "th_dispose False th = (th', Inr ())" "\<not> th_taskRunning th'" "th_ok th'"
      using th_dispose_outside [OF assms] by blast
    then have "snd (th_taskRound th') = []"
      by (simp add: th_taskRound_def th_ok_def joinable_def)
    with th' show ?thesis by blast
  qed
  show "\<exists>th'. th_setDelayedTask True th ms = (th', Inl System_Error)
      \<and> th_dispose True th = (th', Inl System_Error) \<and> snd (th_taskRound th') = []"
    if "th_taskRunning th"
    using th_clear_on_task [OF assms that]
    by (simp add: th_setDelayedTask_def th_dispose_def th_taskRound_def)
qed

theorem topic_task_lifecycle_witness:
  "\<exists>th'. th_setDelayedTask False (new_topic_handle ''board'' [] (new_topic_payload 0)) 250 = (th', Inr ())
     \<and> th_taskRunning th' \<and> th_taskIntervalMs th' = 250"
  using topic_task_lifecycle [OF th_ok_new, of "''board''" "[]" "new_topic_payload 0" 250] by blast

end
