(* ===== verification/Session.thy ===== *)
theory Session
  imports Topic_Handle
begin

text \<open>
  \<open>api/session.cpp\<close>: the server's view of one client. The three functions that the server
  installs become flags: \<open>ss_enqueueFrame\<close> and \<open>ss_sessionEnqueue\<close> say that a send queue is
  bound (both lead to the session's queue, so the frames are outputs), and \<open>ss_txProvider\<close> says
  that the frame providers are; they always come from one principal, which is an argument of the
  operations that call them and is returned because building key frames fills its cache.
\<close>

datatype session_state = SS_Pending | SS_Authorized | SS_Synchronizing | SS_Ready | SS_Disconnected

record session =
  ss_id :: string
  ss_principal :: string
  ss_authorized :: bool
  ss_connected :: bool
  ss_state :: session_state
  ss_enqueueFrame :: bool
  ss_txProvider :: bool
  ss_serverSyncSent :: bool
  ss_nextKeyId :: u32
  ss_sessionEnqueue :: bool
  ss_sessionBound :: bool
  ss_flatState :: "flat_state option"
  ss_topicHandles :: "(string \<times> topic_handle) list"
  ss_topicIndex :: int

datatype sess_out =
    S_Frame frame
  | S_Ready
  | S_Disconnected

definition new_session :: "string \<Rightarrow> session" where
  "new_session clientUuid =
     \<lparr>ss_id = clientUuid, ss_principal = [], ss_authorized = False, ss_connected = True,
      ss_state = SS_Pending, ss_enqueueFrame = False, ss_txProvider = False,
      ss_serverSyncSent = False, ss_nextKeyId = 1, ss_sessionEnqueue = False,
      ss_sessionBound = False, ss_flatState = None, ss_topicHandles = [], ss_topicIndex = 0\<rparr>"

section \<open>Synchronisation of the session's own data\<close>

definition ss_flatKeyFrames :: "session \<Rightarrow> frame list" where
  "ss_flatKeyFrames ss = (case ss_flatState ss of Some fs \<Rightarrow> buildKeyFrames fs | None \<Rightarrow> [])"

definition ss_flatValueFrames :: "session \<Rightarrow> frame list" where
  "ss_flatValueFrames ss = (case ss_flatState ss of Some fs \<Rightarrow> buildValueFrames fs | None \<Rightarrow> [])"

definition triggerSessionResync :: "session \<Rightarrow> sess_out list" where
  "triggerSessionResync ss =
     (if \<not> ss_sessionEnqueue ss then []
      else map S_Frame
        (signal ServerReset 0
         # ss_flatKeyFrames ss
         @ concat (map (\<lambda>(_, th). tp_buildKeyFrames (th_payload th)) (ss_topicHandles ss))
         @ signal ServerSync 0
         # ss_flatValueFrames ss
         @ concat (map (\<lambda>(_, th). tp_buildValueFrames (th_payload th)) (ss_topicHandles ss))))"

text \<open>The outputs of a store of the session: its frames go to the queue, its resync request is
  answered from the session's state after the operation.\<close>

definition ss_run_out :: "session \<Rightarrow> fs_out list \<Rightarrow> sess_out list" where
  "ss_run_out ss out =
     concat (map (\<lambda>ev. case ev of Enqueue f \<Rightarrow> (if ss_sessionEnqueue ss then [S_Frame f] else [])
                             | Resync \<Rightarrow> triggerSessionResync ss) out)"

section \<open>Session data\<close>

definition ss_set :: "session \<Rightarrow> string \<Rightarrow> payload \<Rightarrow> (session \<times> sess_out list) res" where
  "ss_set ss key value =
     (case ss_flatState ss of
        Some fs \<Rightarrow>
          if ss_sessionBound ss
          then (let (fs, nxt, out) = fs_set fs (ss_nextKeyId ss) key value;
                    ss = ss\<lparr>ss_flatState := Some fs, ss_nextKeyId := nxt\<rparr>
                in Inr (ss, ss_run_out ss out))
          else Inl (DanWSError ''INVALID_MODE'' ''session.set() is only available in topic modes.'')
      | None \<Rightarrow> Inl (DanWSError ''INVALID_MODE'' ''session.set() is only available in topic modes.''))"

definition ss_get :: "session \<Rightarrow> string \<Rightarrow> payload" where
  "ss_get ss key = (case ss_flatState ss of None \<Rightarrow> PNull | Some fs \<Rightarrow> fs_get fs key)"

definition ss_keys :: "session \<Rightarrow> string list" where
  "ss_keys ss = (case ss_flatState ss of None \<Rightarrow> [] | Some fs \<Rightarrow> fs_keys fs)"

definition ss_clearKey :: "session \<Rightarrow> string \<Rightarrow> session \<times> sess_out list" where
  "ss_clearKey ss key =
     (case ss_flatState ss of
        Some fs \<Rightarrow>
          if ss_sessionBound ss
          then (let (fs, out) = fs_clear fs key; ss = ss\<lparr>ss_flatState := Some fs\<rparr>
                in (ss, ss_run_out ss out))
          else (ss, [])
      | None \<Rightarrow> (ss, []))"

definition ss_clearAll :: "session \<Rightarrow> session \<times> sess_out list" where
  "ss_clearAll ss =
     (case ss_flatState ss of
        Some fs \<Rightarrow>
          if ss_sessionBound ss
          then (let (fs, out) = fs_clear_all fs; ss = ss\<lparr>ss_flatState := Some fs\<rparr>
                in (ss, ss_run_out ss out))
          else (ss, [])
      | None \<Rightarrow> (ss, []))"

text \<open>Setting a key of a topic's payload, through its handle.\<close>

definition ss_topic_set :: "session \<Rightarrow> string \<Rightarrow> string \<Rightarrow> payload \<Rightarrow> session \<times> sess_out list" where
  "ss_topic_set ss name key value =
     (case map_of (ss_topicHandles ss) name of
        None \<Rightarrow> (ss, [])
      | Some th \<Rightarrow>
          let (tp, nxt, out) = tp_set (th_payload th) (ss_nextKeyId ss) key value;
              ss = ss\<lparr>ss_topicHandles := om_put name (th\<lparr>th_payload := tp\<rparr>) (ss_topicHandles ss),
                      ss_nextKeyId := nxt\<rparr>
          in (ss, ss_run_out ss out))"

section \<open>Topic handles\<close>

definition ss_getTopicHandle :: "session \<Rightarrow> string \<Rightarrow> topic_handle option" where
  "ss_getTopicHandle ss name = map_of (ss_topicHandles ss) name"

definition ss_topics :: "session \<Rightarrow> string list" where
  "ss_topics ss = map fst (ss_topicHandles ss)"

text \<open>\<open>topicIndex_\<close> is an \<open>int\<close>: going past the largest one is undefined.\<close>

definition ss_createTopicHandle ::
    "session \<Rightarrow> string \<Rightarrow> (string \<times> payload) list \<Rightarrow> int \<Rightarrow> session res" where
  "ss_createTopicHandle ss name params wireIndex =
     rbind (if 0 \<le> wireIndex then Inr (wireIndex, ss_topicIndex ss)
            else if ss_topicIndex ss = INT_MAX then Inl Undefined
            else Inr (ss_topicIndex ss, ss_topicIndex ss + 1)) (\<lambda>(index, topicIndex).
     rbind (if topicIndex \<le> index
            then (if index = INT_MAX then Inl Undefined else Inr (index + 1))
            else Inr topicIndex) (\<lambda>topicIndex.
       let tp = new_topic_payload index;
           tp = (if ss_sessionEnqueue ss then tp_bind tp else tp)
       in Inr (ss\<lparr>ss_topicIndex := topicIndex,
                  ss_topicHandles := om_put name (new_topic_handle name params tp) (ss_topicHandles ss)\<rparr>)))"

definition ss_removeTopicHandle :: "session \<Rightarrow> string \<Rightarrow> (session \<times> sess_out list) res" where
  "ss_removeTopicHandle ss name =
     (case map_of (ss_topicHandles ss) name of
        None \<Rightarrow> Inr (ss, [])
      | Some th \<Rightarrow>
          rbind (snd (th_dispose False th)) (\<lambda>_.
            let ss = ss\<lparr>ss_topicHandles := om_del name (ss_topicHandles ss)\<rparr>
            in Inr (ss, triggerSessionResync ss)))"

definition ss_disposeAllTopicHandles :: "session \<Rightarrow> session res" where
  "ss_disposeAllTopicHandles ss =
     rbind (rfold (\<lambda>(_, th) u. snd (th_dispose False th)) (ss_topicHandles ss) ()) (\<lambda>_.
       Inr (ss\<lparr>ss_topicHandles := []\<rparr>))"

section \<open>Protocol\<close>

definition ss_setEnqueue :: "session \<Rightarrow> session" where
  "ss_setEnqueue ss = ss\<lparr>ss_enqueueFrame := True\<rparr>"

definition ss_setTxProviders :: "session \<Rightarrow> session" where
  "ss_setTxProviders ss = ss\<lparr>ss_txProvider := True\<rparr>"

definition ss_authorize :: "session \<Rightarrow> string \<Rightarrow> session" where
  "ss_authorize ss name =
     ss\<lparr>ss_principal := name, ss_authorized := True, ss_state := SS_Authorized\<rparr>"

definition ss_bindSessionTX :: "session \<Rightarrow> session" where
  "ss_bindSessionTX ss =
     ss\<lparr>ss_sessionEnqueue := True, ss_sessionBound := True, ss_flatState := Some (new_flat_state [])\<rparr>"

definition ss_startSync :: "session \<Rightarrow> principal_tx \<Rightarrow> session \<times> principal_tx \<times> sess_out list" where
  "ss_startSync ss pt =
     (let ss = ss\<lparr>ss_state := SS_Synchronizing, ss_serverSyncSent := False\<rparr>
      in if ss_txProvider ss \<and> ss_enqueueFrame ss
         then (let (frames, pt) = pt_buildKeyFrames pt
               in if frames \<noteq> []
                  then (ss\<lparr>ss_serverSyncSent := True\<rparr>, pt, map S_Frame frames)
                  else (ss\<lparr>ss_serverSyncSent := True\<rparr>, pt, [S_Frame (signal ServerSync 0)]))
         else (ss\<lparr>ss_state := SS_Ready\<rparr>, pt, [S_Ready]))"

text \<open>Answering a request for one key: the first source that knows the id.\<close>

definition answer_from_frames :: "frame list \<Rightarrow> u32 \<Rightarrow> frame \<Rightarrow> sess_out list" where
  "answer_from_frames valueFrames k f =
     S_Frame f # S_Frame (signal ServerSync 0)
     # (case find (\<lambda>vf. keyId vf = k) valueFrames of Some vf \<Rightarrow> [S_Frame vf] | None \<Rightarrow> [])"

fun topics_answer :: "(string \<times> topic_handle) list \<Rightarrow> u32 \<Rightarrow> sess_out list" where
  "topics_answer [] k = []"
| "topics_answer ((_, th) # ths) k =
     (case find (\<lambda>f. keyId f = k) (tp_buildKeyFrames (th_payload th)) of
        Some f \<Rightarrow> answer_from_frames (tp_buildValueFrames (th_payload th)) k f
      | None \<Rightarrow> topics_answer ths k)"

definition session_answer :: "session \<Rightarrow> u32 \<Rightarrow> sess_out list" where
  "session_answer ss k =
     (case (case ss_flatState ss of None \<Rightarrow> None
            | Some fs \<Rightarrow> map_option (Pair fs) (fs_getByKeyId fs k)) of
        Some (fs, e) \<Rightarrow>
          map S_Frame [mk_frame ServerKeyRegistration (fe_keyId e) (fe_type e) (PString (fs_getPathByKeyId fs k)),
                       signal ServerSync 0,
                       mk_frame ServerValue (fe_keyId e) (fe_type e) (fe_value e)]
      | None \<Rightarrow> topics_answer (ss_topicHandles ss) k)"

definition handleKeyRequest :: "session \<Rightarrow> principal_tx \<Rightarrow> u32 \<Rightarrow> principal_tx \<times> sess_out list" where
  "handleKeyRequest ss pt k =
     (if \<not> ss_enqueueFrame ss then (pt, [])
      else if ss_txProvider ss
      then (let (keyFrames, pt) = pt_buildKeyFrames pt
            in case find (\<lambda>f. frameType f = ServerKeyRegistration \<and> keyId f = k) keyFrames of
                 Some f \<Rightarrow> (pt, answer_from_frames (pt_buildValueFrames pt) k f)
               | None \<Rightarrow> (pt, session_answer ss k))
      else (pt, session_answer ss k))"

definition ss_handleFrame :: "session \<Rightarrow> principal_tx \<Rightarrow> frame \<Rightarrow> session \<times> principal_tx \<times> sess_out list" where
  "ss_handleFrame ss pt f =
     (case frameType f of
        ClientReady \<Rightarrow>
          if ss_state ss = SS_Ready then (ss, pt, [])
          else
            let values = (if ss_txProvider ss \<and> ss_enqueueFrame ss
                          then map S_Frame (pt_buildValueFrames pt) else [])
            in if ss_serverSyncSent ss then (ss\<lparr>ss_state := SS_Ready\<rparr>, pt, values @ [S_Ready])
               else (ss, pt, values)
      | ClientResyncReq \<Rightarrow>
          if ss_txProvider ss \<and> ss_enqueueFrame ss
          then (let (frames, pt) = pt_buildKeyFrames pt
                in (ss, pt, S_Frame (signal ServerReset 0) # map S_Frame frames))
          else (ss, pt, [])
      | ClientKeyRequest \<Rightarrow> (let (pt, out) = handleKeyRequest ss pt (keyId f) in (ss, pt, out))
      | _ \<Rightarrow> (ss, pt, []))"

definition ss_handleDisconnect :: "session \<Rightarrow> session \<times> sess_out list" where
  "ss_handleDisconnect ss =
     (ss\<lparr>ss_connected := False, ss_state := SS_Disconnected\<rparr>, [S_Disconnected])"

definition ss_handleReconnect :: "session \<Rightarrow> session" where
  "ss_handleReconnect ss = ss\<lparr>ss_connected := True, ss_state := SS_Authorized\<rparr>"

section \<open>What is sent\<close>

definition sent :: "sess_out list \<Rightarrow> frame list" where
  "sent out = List.map_filter (\<lambda>ev. case ev of S_Frame f \<Rightarrow> Some f | _ \<Rightarrow> None) out"

lemma sent_simps [simp]:
  "sent [] = []"
  "sent (S_Frame f # out) = f # sent out"
  "sent (S_Ready # out) = sent out"
  "sent (S_Disconnected # out) = sent out"
  by (simp_all add: sent_def map_filter_simps)

lemma sent_append [simp]: "sent (out @ out') = sent out @ sent out'"
  by (simp add: sent_def List.map_filter_def)

lemma sent_frames [simp]: "sent (map S_Frame fs) = fs"
  by (induction fs) simp_all

section \<open>The handshake\<close>

lemma mirror_from_empty: "mirror_frame empty_mirror (signal ServerReset 0) = empty_mirror"
  by simp

lemma buildKeyFrames_types: "f \<in> set (buildKeyFrames fs) \<Longrightarrow> frameType f = ServerKeyRegistration"
  by (auto simp: buildKeyFrames_def mk_frame_def)

lemma find_entry:
  assumes "distinct (map (h \<circ> g) es)" "x \<in> set es" "h (g x) = k" "\<And>y. y \<in> set es \<Longrightarrow> P (g y)"
  shows "find (\<lambda>f. P f \<and> h f = k) (map g es @ rest) = Some (g x)"
  using assms by (induction es) (auto simp: image_iff)

lemma fs_wf_distinct_ids:
  assumes "fs_wf fs nxt"
  shows "distinct (map (\<lambda>(key, e). fe_keyId e) (fs_entries fs))"
proof -
  have wf: "um_wf (fs_entries fs)" using assms by (simp add: fs_wf_def)
  have look: "(key, e) \<in> set (fs_entries fs) \<longleftrightarrow> map_of (fs_entries fs) key = Some e" for key e
    using um_lookup_iff [OF wf] by blast
  have "inj_on (\<lambda>(key, e). fe_keyId e) (set (fs_entries fs))"
  proof (rule inj_onI, clarify)
    fix key e key' e'
    assume "(key, e) \<in> set (fs_entries fs)" "(key', e') \<in> set (fs_entries fs)" "fe_keyId e = fe_keyId e'"
    moreover from this have "key = key'" using fs_wf_inj [OF assms] look by blast
    ultimately show "key = key' \<and> e = e'" using look by simp
  qed
  then show ?thesis using wf by (auto simp: distinct_map um_wf_def)
qed

lemma find_frames:
  assumes "fs_wf fs nxt" "map_of (fs_entries fs) key = Some e"
  shows "find (\<lambda>f. frameType f = ServerKeyRegistration \<and> keyId f = fe_keyId e) (buildKeyFrames fs @ rest)
      = Some (mk_frame ServerKeyRegistration (fe_keyId e) (fe_type e) (PString (fs_wirePath fs key)))"
    and "find (\<lambda>f. keyId f = fe_keyId e) (buildKeyFrames fs)
      = Some (mk_frame ServerKeyRegistration (fe_keyId e) (fe_type e) (PString (fs_wirePath fs key)))"
    and "find (\<lambda>f. keyId f = fe_keyId e) (buildValueFrames fs)
      = Some (mk_frame ServerValue (fe_keyId e) (fe_type e) (fe_value e))"
proof -
  let ?K = "\<lambda>(key, e). mk_frame ServerKeyRegistration (fe_keyId e) (fe_type e) (PString (fs_wirePath fs key))"
  let ?V = "\<lambda>(key :: string, e). mk_frame ServerValue (fe_keyId e) (fe_type e) (fe_value e)"
  have m: "(key, e) \<in> set (fs_entries fs)" using assms(2) by (rule map_of_SomeD)
  have K: "keyId \<circ> ?K = (\<lambda>(key, e). fe_keyId e)" and V: "keyId \<circ> ?V = (\<lambda>(key, e). fe_keyId e)"
    by (auto simp: fun_eq_iff mk_frame_def)
  have d: "distinct (map (keyId \<circ> ?K) (fs_entries fs))" "distinct (map (keyId \<circ> ?V) (fs_entries fs))"
    unfolding K V by (rule fs_wf_distinct_ids [OF assms(1)])+
  show "find (\<lambda>f. frameType f = ServerKeyRegistration \<and> keyId f = fe_keyId e) (buildKeyFrames fs @ rest)
      = Some (mk_frame ServerKeyRegistration (fe_keyId e) (fe_type e) (PString (fs_wirePath fs key)))"
    using find_entry [OF d(1) m, of "fe_keyId e" "\<lambda>f. frameType f = ServerKeyRegistration" rest]
    by (auto simp: buildKeyFrames_def mk_frame_def)
  show "find (\<lambda>f. keyId f = fe_keyId e) (buildKeyFrames fs)
      = Some (mk_frame ServerKeyRegistration (fe_keyId e) (fe_type e) (PString (fs_wirePath fs key)))"
    using find_entry [OF d(1) m, of "fe_keyId e" "\<lambda>f. True" "[]"]
    by (auto simp: buildKeyFrames_def mk_frame_def)
  show "find (\<lambda>f. keyId f = fe_keyId e) (buildValueFrames fs)
      = Some (mk_frame ServerValue (fe_keyId e) (fe_type e) (fe_value e))"
    using find_entry [OF d(2) m, of "fe_keyId e" "\<lambda>f. True" "[]"]
    by (auto simp: buildValueFrames_def mk_frame_def)
qed

section \<open>Resynchronisation of topics\<close>

definition session_stores :: "session \<Rightarrow> flat_state list" where
  "session_stores ss =
     (case ss_flatState ss of Some fs \<Rightarrow> [fs] | None \<Rightarrow> [])
     @ map (\<lambda>(_, th). tp_flatState (th_payload th)) (ss_topicHandles ss)"

lemma resync_frames:
  "ss_sessionEnqueue ss \<Longrightarrow> sent (triggerSessionResync ss) =
     signal ServerReset 0 # concat (map buildKeyFrames (session_stores ss))
     @ signal ServerSync 0 # concat (map buildValueFrames (session_stores ss))"
  unfolding triggerSessionResync_def
  by (simp only: not_True_eq_False if_False sent_frames)
     (auto simp: session_stores_def ss_flatKeyFrames_def ss_flatValueFrames_def
       tp_buildKeyFrames_def tp_buildValueFrames_def o_def case_prod_unfold split: option.split)

lemma mirror_keys_view:
  assumes "fs_wf fs nxt"
  shows "foldl mirror_frame m (buildKeyFrames fs) = m\<lparr>mi_keys := mi_keys m ++ mi_keys (view fs)\<rparr>"
proof -
  have "map_of (rev (map (\<lambda>(key, e). (fe_keyId e, fs_wirePath fs key, fe_type e)) (fs_entries fs))) = mi_keys (view fs)"
    by (rule ext) (simp add: map_of_by_id [OF assms, of "\<lambda>key e. (fs_wirePath fs key, fe_type e)"] view_def)
  then show ?thesis by (simp add: buildKeyFrames_def mirror_keys_fold)
qed

lemma mirror_vals_view:
  assumes "fs_wf fs nxt" "dom (mi_keys (view fs)) \<subseteq> dom (mi_keys m)"
  shows "foldl mirror_frame m (buildValueFrames fs) = m\<lparr>mi_vals := mi_vals m ++ mi_vals (view fs)\<rparr>"
proof -
  have "mi_keys m (fe_keyId e) \<noteq> None" if "(key, e) \<in> set (fs_entries fs)" for key e
  proof -
    have e: "map_of (fs_entries fs) key = Some e"
      using assms(1) that um_lookup_iff [of "fs_entries fs" key e] by (simp add: fs_wf_def)
    then have "fe_keyId e \<in> dom (mi_keys (view fs))"
      using fs_wf_entry(1) [OF assms(1) e] by (auto simp: view_def)
    then show ?thesis using assms(2) by auto
  qed
  then have "\<forall>(key, e) \<in> set (fs_entries fs). mi_keys m (fe_keyId e) \<noteq> None" by blast
  moreover have "map_of (rev (map (\<lambda>(key, e). (fe_keyId e, fe_value e)) (fs_entries fs))) = mi_vals (view fs)"
    using map_of_by_id [OF assms(1), of "\<lambda>key e. fe_value e"]
    by (auto simp: fun_eq_iff view_def fs_getByKeyId_def split: option.split)
  ultimately show ?thesis
    unfolding buildValueFrames_def by (subst mirror_vals_fold) simp_all
qed

lemma mirror_keys_stores:
  "\<forall>fs \<in> set fss. \<exists>nxt. fs_wf fs nxt \<Longrightarrow> foldl mirror_frame m (concat (map buildKeyFrames fss))
    = m\<lparr>mi_keys := foldl (\<lambda>a fs. a ++ mi_keys (view fs)) (mi_keys m) fss\<rparr>"
proof (induction fss arbitrary: m)
  case (Cons fs fss)
  then obtain nxt where "fs_wf fs nxt" by auto
  then show ?case using Cons by (simp add: mirror_keys_view)
qed simp

lemma dom_foldl_add: "dom (foldl (\<lambda>a fs. a ++ h fs) a0 fss) = dom a0 \<union> (\<Union>fs \<in> set fss. dom (h fs))"
  by (induction fss arbitrary: a0) auto

lemma mirror_vals_stores:
  "\<forall>fs \<in> set fss. \<exists>nxt. fs_wf fs nxt \<Longrightarrow> (\<Union>fs \<in> set fss. dom (mi_keys (view fs))) \<subseteq> dom (mi_keys m) \<Longrightarrow>
   foldl mirror_frame m (concat (map buildValueFrames fss))
    = m\<lparr>mi_vals := foldl (\<lambda>a fs. a ++ mi_vals (view fs)) (mi_vals m) fss\<rparr>"
proof (induction fss arbitrary: m)
  case (Cons fs fss)
  then obtain nxt where "fs_wf fs nxt" by auto
  then show ?case using Cons by (simp add: mirror_vals_view)
qed simp

section \<open>The states a session can reach\<close>

text \<open>
  The calls the server makes: it binds the queue first, gives the providers only to authorized
  sessions and starts their synchronisation then, and routes frames only to connected ones.
\<close>

inductive session_reach :: "session \<Rightarrow> bool" where
  fresh: "session_reach (ss_setEnqueue (new_session uuid))"
| authorize: "session_reach ss \<Longrightarrow> session_reach (ss_authorize (ss\<lparr>ss_connected := True\<rparr>) p)"
| bind: "session_reach ss \<Longrightarrow> session_reach (ss_bindSessionTX ss)"
| start: "session_reach ss \<Longrightarrow> ss_state ss = SS_Authorized \<Longrightarrow> ss_connected ss
    \<Longrightarrow> session_reach (fst (ss_startSync (ss_setTxProviders ss) pt))"
| frame: "session_reach ss \<Longrightarrow> ss_connected ss \<Longrightarrow> session_reach (fst (ss_handleFrame ss pt f))"
| disconnect: "session_reach ss \<Longrightarrow> session_reach (fst (ss_handleDisconnect ss))"
| reconnect: "session_reach ss \<Longrightarrow> ss_authorized ss \<Longrightarrow> session_reach (ss_handleReconnect ss)"

inductive_cases session_reachE: "session_reach ss"

lemma answer_no_ready:
  "S_Ready \<notin> set (answer_from_frames vfs k f)" "S_Ready \<notin> set (topics_answer ths k)"
  "S_Ready \<notin> set (session_answer ss k)"
proof -
  show a: "S_Ready \<notin> set (answer_from_frames vfs k f)" for vfs k f
    by (auto simp: answer_from_frames_def split: option.split)
  show t: "S_Ready \<notin> set (topics_answer ths k)" for ths k
    by (induction ths k rule: topics_answer.induct) (auto simp: a split: option.split)
  show "S_Ready \<notin> set (session_answer ss k)"
    by (auto simp: session_answer_def t split: option.splits)
qed

lemma handleKeyRequest_no_ready: "handleKeyRequest ss pt k = (pt', out) \<Longrightarrow> S_Ready \<notin> set out"
  by (auto simp: handleKeyRequest_def answer_no_ready split: if_splits option.splits prod.splits)

lemma ss_handleFrame_other:
  "frameType f \<notin> {ClientReady, ClientResyncReq, ClientKeyRequest} \<Longrightarrow> ss_handleFrame ss pt f = (ss, pt, [])"
  by (cases "frameType f") (simp_all add: ss_handleFrame_def)

lemma ss_handleFrame_state:
  assumes "ss_handleFrame ss pt f = (ss', pt', out)"
  shows "ss' = (if frameType f = ClientReady \<and> ss_serverSyncSent ss then ss\<lparr>ss_state := SS_Ready\<rparr> else ss)"
    and "S_Ready \<in> set out \<longleftrightarrow> frameType f = ClientReady \<and> ss_serverSyncSent ss \<and> ss_state ss \<noteq> SS_Ready"
proof -
  have "ss' = (if frameType f = ClientReady \<and> ss_serverSyncSent ss then ss\<lparr>ss_state := SS_Ready\<rparr> else ss)
    \<and> (S_Ready \<in> set out \<longleftrightarrow> frameType f = ClientReady \<and> ss_serverSyncSent ss \<and> ss_state ss \<noteq> SS_Ready)"
  proof (cases "frameType f \<in> {ClientReady, ClientResyncReq, ClientKeyRequest}")
    case False
    with assms show ?thesis by (auto simp: ss_handleFrame_other)
  next
    case True
    then consider "frameType f = ClientReady" | "frameType f = ClientResyncReq" | "frameType f = ClientKeyRequest"
      by blast
    then show ?thesis
    proof cases
      case 1
      then show ?thesis using assms by (auto simp: ss_handleFrame_def Let_def split: if_splits)
    next
      case 2
      then show ?thesis using assms by (auto simp: ss_handleFrame_def split: if_splits prod.splits)
    next
      case 3
      then show ?thesis
        using assms handleKeyRequest_no_ready [of ss pt "keyId f"]
        by (auto simp: ss_handleFrame_def split: prod.splits)
    qed
  qed
  then show "ss' = (if frameType f = ClientReady \<and> ss_serverSyncSent ss then ss\<lparr>ss_state := SS_Ready\<rparr> else ss)"
    "S_Ready \<in> set out \<longleftrightarrow> frameType f = ClientReady \<and> ss_serverSyncSent ss \<and> ss_state ss \<noteq> SS_Ready"
    by blast+
qed

lemma session_reach_ready:
  "session_reach ss \<Longrightarrow> ss_enqueueFrame ss
     \<and> (ss_state ss = SS_Ready \<longrightarrow> ss_connected ss \<and> ss_serverSyncSent ss)
     \<and> (ss_state ss \<noteq> SS_Pending \<and> ss_state ss \<noteq> SS_Disconnected \<longrightarrow> ss_authorized ss)
     \<and> (ss_serverSyncSent ss \<longrightarrow> ss_txProvider ss \<and> ss_authorized ss)"
proof (induction rule: session_reach.induct)
  case (frame ss pt f)
  obtain ss' pt' out where "ss_handleFrame ss pt f = (ss', pt', out)"
    by (cases "ss_handleFrame ss pt f")
  with frame ss_handleFrame_state(1) [OF this] show ?case by auto
qed (auto simp: ss_setEnqueue_def new_session_def ss_authorize_def ss_bindSessionTX_def ss_startSync_def
      ss_setTxProviders_def ss_handleDisconnect_def ss_handleReconnect_def Let_def split: prod.splits)

section \<open>Properties\<close>

text \<open>C17. The handshake of a session with a principal brings the client up to date: the first step sends
  the key frames and does not report readiness, \<open>ClientReady\<close> is answered with the values and then
  reported as ready, and the client ends with exactly the principal's contents, including every
  value that changed in between. The one condition is that the cached key frames are not stale.\<close>

theorem session_handshake:
  assumes "pt_wf pt" and "pt_fresh pt" and "ss_txProvider ss" and "ss_enqueueFrame ss"
    and "ss_startSync ss pt = (ss1, pt1, out1)"
    and "pt_wf pt'" and "buildKeyFrames (pt_flatState pt') = buildKeyFrames (pt_flatState pt)"
    and "frameType f = ClientReady" and "ss_handleFrame ss1 pt' f = (ss2, pt2, out2)"
  shows "ss_state ss1 = SS_Synchronizing \<and> S_Ready \<notin> set out1
    \<and> ss_state ss2 = SS_Ready \<and> last out2 = S_Ready
    \<and> foldl mirror_frame empty_mirror (sent (out1 @ out2)) = view (pt_flatState pt')"
proof -
  have b: "fst (pt_buildKeyFrames pt) = buildKeyFrames (pt_flatState pt') @ [signal ServerSync 0]"
    using pt_fresh_build(1) [OF assms(2)] assms(7) by simp
  have s1: "ss1 = ss\<lparr>ss_state := SS_Synchronizing, ss_serverSyncSent := True\<rparr>"
    "out1 = map S_Frame (buildKeyFrames (pt_flatState pt') @ [signal ServerSync 0])"
    using assms(3-5) b by (auto simp: ss_startSync_def Let_def split: prod.splits)
  have s2: "ss2 = ss1\<lparr>ss_state := SS_Ready\<rparr>" "out2 = map S_Frame (pt_buildValueFrames pt') @ [S_Ready]"
    using assms(3,4,8,9) by (auto simp: ss_handleFrame_def s1(1) Let_def)
  have "foldl mirror_frame empty_mirror (sent (out1 @ out2))
      = foldl mirror_frame empty_mirror (full_sync (pt_flatState pt'))"
    by (simp add: s1 s2 full_sync_def pt_buildValueFrames_def del: foldl_append map_append)
  also have "\<dots> = view (pt_flatState pt')"
    using mirror_full_sync assms(6) by (auto simp: pt_wf_def)
  finally show ?thesis by (auto simp: s1 s2)
qed

text \<open>A principal with one key, and the session that is being synchronised with it.\<close>

definition demo_principal :: principal_tx where
  "demo_principal = fst (pt_set (new_principal_tx ''p'') ''a'' (PBool True))"

definition demo_session :: session where
  "demo_session = ss_setTxProviders (ss_authorize (ss_setEnqueue (new_session ''u'')) ''p'')"

lemma demo_facts:
  "pt_wf demo_principal" "pt_fresh demo_principal" "ss_txProvider demo_session" "ss_enqueueFrame demo_session"
proof -
  show "pt_wf demo_principal" unfolding demo_principal_def
    by (rule pt_wf_set [OF pt_wf_new]) (simp add: new_principal_tx_def)
  show "pt_fresh demo_principal" unfolding demo_principal_def
    by (rule pt_set_flat [of "new_principal_tx ''p''" "''a''" "PBool True"])
       (simp add: pt_fresh_def new_principal_tx_def)
qed (simp_all add: demo_session_def ss_setTxProviders_def ss_authorize_def ss_setEnqueue_def)

theorem session_handshake_witness:
  "\<exists>ss1 pt1 out1 ss2 pt2 out2. ss_startSync demo_session demo_principal = (ss1, pt1, out1)
     \<and> ss_handleFrame ss1 pt1 (signal ClientReady 0) = (ss2, pt2, out2)
     \<and> foldl mirror_frame empty_mirror (sent (out1 @ out2)) = view (pt_flatState demo_principal)"
proof -
  obtain ss1 pt1 out1 where 1: "ss_startSync demo_session demo_principal = (ss1, pt1, out1)"
    using prod_cases3 by blast
  obtain ss2 pt2 out2 where 2: "ss_handleFrame ss1 pt1 (signal ClientReady 0) = (ss2, pt2, out2)"
    using prod_cases3 by blast
  have pt1: "pt_flatState pt1 = pt_flatState demo_principal" "pt_nextKeyId pt1 = pt_nextKeyId demo_principal"
    using 1 by (auto simp: ss_startSync_def pt_buildKeyFrames_def Let_def split: if_splits prod.splits)
  then have "pt_wf pt1" using demo_facts(1) by (simp add: pt_wf_def)
  then have "foldl mirror_frame empty_mirror (sent (out1 @ out2)) = view (pt_flatState pt1)"
    using session_handshake [OF demo_facts 1 _ _ _ 2] pt1 by (simp add: mk_frame_def)
  then show ?thesis using 1 2 pt1 by auto
qed

text \<open>A client that asks for a key of the principal gets its registration, the sync marker and its
  value, and these three frames teach it the key and change nothing else it knows.\<close>

theorem key_request_answered:
  assumes "pt_wf pt" and "pt_fresh pt" and "ss_txProvider ss" and "ss_enqueueFrame ss"
    and "map_of (fs_entries (pt_flatState pt)) key = Some e"
    and "handleKeyRequest ss pt (fe_keyId e) = (pt', out)"
  shows "foldl mirror_frame m (sent out) =
      m\<lparr>mi_keys := (mi_keys m)(fe_keyId e \<mapsto> (key, fe_type e)), mi_vals := (mi_vals m)(fe_keyId e \<mapsto> fe_value e)\<rparr>
    \<and> length (sent out) = 3"
proof -
  let ?fs = "pt_flatState pt"
  let ?reg = "mk_frame ServerKeyRegistration (fe_keyId e) (fe_type e) (PString key)"
  have wf: "fs_wf ?fs (pt_nextKeyId pt)" "fs_wirePath ?fs key = key"
    using assms(1) by (simp_all add: pt_wf_def fs_wirePath_def)
  obtain pt1 where b: "pt_buildKeyFrames pt = (buildKeyFrames ?fs @ [signal ServerSync 0], pt1)"
    using pt_fresh_build(1) [OF assms(2)] by (cases "pt_buildKeyFrames pt") simp
  have pt1: "pt_flatState pt1 = ?fs"
    using b by (auto simp: pt_buildKeyFrames_def Let_def split: if_splits)
  have "find (\<lambda>f. frameType f = ServerKeyRegistration \<and> keyId f = fe_keyId e)
      (buildKeyFrames ?fs @ [signal ServerSync 0]) = Some ?reg"
    using find_frames(1) [OF wf(1) assms(5)] wf(2) by simp
  moreover have "find (\<lambda>f. keyId f = fe_keyId e) (pt_buildValueFrames pt1)
      = Some (mk_frame ServerValue (fe_keyId e) (fe_type e) (fe_value e))"
    using find_frames(3) [OF wf(1) assms(5)] pt1 by (simp add: pt_buildValueFrames_def)
  ultimately have "out = [S_Frame ?reg, S_Frame (signal ServerSync 0),
      S_Frame (mk_frame ServerValue (fe_keyId e) (fe_type e) (fe_value e))]"
    using assms(3,4,6) by (simp add: handleKeyRequest_def b answer_from_frames_def)
  then show ?thesis by simp
qed

theorem key_request_answered_witness:
  "sent (snd (handleKeyRequest demo_session demo_principal 1))
     = [mk_frame ServerKeyRegistration 1 DT_Bool (PString ''a''), signal ServerSync 0,
        mk_frame ServerValue 1 DT_Bool (PBool True)]
   \<and> length (sent (snd (handleKeyRequest demo_session demo_principal 1))) = 3"
proof
  have e: "map_of (fs_entries (pt_flatState demo_principal)) ''a'' = Some (mk_fs_entry 1 DT_Bool (PBool True))"
    by code_simp
  show "length (sent (snd (handleKeyRequest demo_session demo_principal 1))) = 3"
    using key_request_answered [OF demo_facts e, of _ _ empty_mirror]
    by (cases "handleKeyRequest demo_session demo_principal 1") simp
  show "sent (snd (handleKeyRequest demo_session demo_principal 1))
     = [mk_frame ServerKeyRegistration 1 DT_Bool (PString ''a''), signal ServerSync 0,
        mk_frame ServerValue 1 DT_Bool (PBool True)]"
    by code_simp
qed



text \<open>C30. A resynchronisation of a topic session replaces everything the client knew by the contents of
  the session's own store and of the payloads of all its topics, in this order where ids clash.\<close>

theorem session_resync_restores_stores:
  assumes "ss_sessionEnqueue ss" and "\<forall>fs \<in> set (session_stores ss). \<exists>nxt. fs_wf fs nxt"
  shows "foldl mirror_frame m (sent (triggerSessionResync ss)) =
    \<lparr>mi_keys = foldl (\<lambda>a fs. a ++ mi_keys (view fs)) Map.empty (session_stores ss),
     mi_vals = foldl (\<lambda>a fs. a ++ mi_vals (view fs)) Map.empty (session_stores ss)\<rparr>"
proof -
  let ?m = "empty_mirror\<lparr>mi_keys := foldl (\<lambda>a fs. a ++ mi_keys (view fs)) Map.empty (session_stores ss)\<rparr>"
  have "foldl mirror_frame m (sent (triggerSessionResync ss))
      = foldl mirror_frame ?m (concat (map buildValueFrames (session_stores ss)))"
    unfolding resync_frames [OF assms(1)]
    by (simp add: mirror_keys_stores [OF assms(2)]) (simp add: empty_mirror_def)
  also have "\<dots> = ?m\<lparr>mi_vals := foldl (\<lambda>a fs. a ++ mi_vals (view fs)) Map.empty (session_stores ss)\<rparr>"
    by (subst mirror_vals_stores [OF assms(2)]) (auto simp: dom_foldl_add empty_mirror_def)
  finally show ?thesis by (simp add: empty_mirror_def)
qed

theorem session_resync_restores_stores_witness:
  "mi_vals (foldl mirror_frame empty_mirror (sent (triggerSessionResync
     (ss_bindSessionTX (new_session ''u'')\<lparr>ss_flatState := Some (pt_flatState demo_principal)\<rparr>)))) 1 = Some (PBool True)"
proof -
  let ?ss = "ss_bindSessionTX (new_session ''u'')\<lparr>ss_flatState := Some (pt_flatState demo_principal)\<rparr>"
  have stores: "session_stores ?ss = [pt_flatState demo_principal]" "ss_sessionEnqueue ?ss"
    by (simp_all add: session_stores_def ss_bindSessionTX_def new_session_def)
  have "\<forall>fs \<in> set (session_stores ?ss). \<exists>nxt. fs_wf fs nxt"
    using demo_facts(1) by (auto simp: stores pt_wf_def)
  from session_resync_restores_stores [OF stores(2) this, of empty_mirror]
  have "mi_vals (foldl mirror_frame empty_mirror (sent (triggerSessionResync ?ss))) 1
      = mi_vals (view (pt_flatState demo_principal)) 1"
    by (simp add: stores)
  also have "\<dots> = Some (PBool True)" by code_simp
  finally show ?thesis .
qed

end
