(* ===== verification/Sequencing.thy ===== *)
theory Sequencing
  imports Prelude
begin

text \<open>
  Code that changes a state, produces outputs and may throw. The result of a step holds the state
  even when the step throws: what a throwing handler leaves behind matters, because the stream
  parser catches the exceptions of frame handlers and goes on.
\<close>

type_synonym ('s, 'o) seq_res = "'s \<times> 'o list \<times> exn option"


definition fine :: "'s \<Rightarrow> 'o list \<Rightarrow> ('s, 'o) seq_res" where
  "fine c out = (c, out, None)"

definition and_then :: "('s, 'o) seq_res \<Rightarrow> ('s \<Rightarrow> ('s, 'o) seq_res) \<Rightarrow> ('s, 'o) seq_res" where
  "and_then r k =
     (case r of (c, out, Some e) \<Rightarrow> (c, out, Some e)
      | (c, out, None) \<Rightarrow> (let (c', out', e) = k c in (c', out @ out', e)))"

fun for_each :: "('a \<Rightarrow> 's \<Rightarrow> ('s, 'o) seq_res) \<Rightarrow> 'a list \<Rightarrow> 's \<Rightarrow> ('s, 'o) seq_res" where
  "for_each f [] c = fine c []"
| "for_each f (x # xs) c = and_then (f x c) (for_each f xs)"

definition emit_before :: "'o list \<Rightarrow> ('s, 'o) seq_res \<Rightarrow> ('s, 'o) seq_res" where
  "emit_before out r = (case r of (c, out', e) \<Rightarrow> (c, out @ out', e))"

lemma emit_before_simps [simp]:
  "emit_before out (fine c out') = fine c (out @ out')"
  "emit_before out (c, out', e) = (c, out @ out', e)"
  "emit_before [] r = r"
  by (simp_all add: emit_before_def fine_def split_beta)

lemma and_then_simps [simp]:
  "and_then (fine c out) k = emit_before out (k c)"
  "and_then (c, out, Some e) k = (c, out, Some e)"
  by (simp_all add: and_then_def fine_def emit_before_def)

lemma and_then_None: "and_then (c, out, None) k = emit_before out (k c)"
  by (simp add: and_then_def emit_before_def)

lemma fine_eq [simp]:
  "fine c out = fine c' out' \<longleftrightarrow> c = c' \<and> out = out'"
  "fine c out = (c', out', e) \<longleftrightarrow> c = c' \<and> out = out' \<and> e = None"
  by (auto simp: fine_def)

lemma and_then_assoc: "and_then (and_then r k) l = and_then r (\<lambda>c. and_then (k c) l)"
  by (auto simp: and_then_def split: prod.splits option.splits)

lemma for_each_append: "for_each f (xs @ ys) c = and_then (for_each f xs c) (for_each f ys)"
proof (induction xs arbitrary: c)
  case (Cons x xs)
  have "for_each f (xs @ ys) = (\<lambda>c. and_then (for_each f xs c) (for_each f ys))"
    by (rule ext) (rule Cons)
  then show ?case by (simp add: and_then_assoc)
qed simp

definition run_res :: "'s \<Rightarrow> 'a res \<Rightarrow> ('a \<Rightarrow> ('s, 'o) seq_res) \<Rightarrow> ('s, 'o) seq_res" where
  "run_res c r k = (case r of Inl e \<Rightarrow> (c, [], Some e) | Inr v \<Rightarrow> k v)"

text \<open>\<open>try \<dots> catch\<close>. Undefined behaviour and termination cannot be caught.\<close>

definition catchable :: "exn \<Rightarrow> bool" where
  "catchable e \<longleftrightarrow> e \<noteq> Undefined \<and> e \<noteq> Terminate"

definition catching :: "('s, 'o) seq_res \<Rightarrow> ('s, 'o) seq_res" where
  "catching r = (case r of (c, out, Some e) \<Rightarrow> (if catchable e then fine c out else r) | _ \<Rightarrow> r)"

lemma and_then_fine:
  assumes "and_then r k = fine c out"
  obtains c1 out1 out2 where "r = fine c1 out1" "k c1 = fine c out2" "out = out1 @ out2"
  using assms by (auto simp: and_then_def fine_def split: prod.splits option.splits)

lemma catching_fine [simp]: "catching (fine c out) = fine c out"
  by (simp add: catching_def fine_def)

lemma catching_escapes: "snd (snd (catching r)) = Some e \<Longrightarrow> \<not> catchable e"
  by (auto simp: catching_def fine_def split: prod.splits option.splits if_splits)

lemma for_each_escapes:
  assumes "\<And>x c e. snd (snd (f x c)) = Some e \<Longrightarrow> P e" and "snd (snd (for_each f xs c)) = Some e"
  shows "P e"
  using assms(2)
proof (induction xs arbitrary: c)
  case (Cons x xs)
  obtain c1 out1 e1 where f: "f x c = (c1, out1, e1)" by (cases "f x c")
  show ?case
  proof (cases e1)
    case None
    then have "snd (snd (for_each f xs c1)) = Some e" using Cons.prems f by (simp add: and_then_def split_beta)
    then show ?thesis by (rule Cons.IH)
  next
    case (Some e')
    then have "snd (snd (f x c)) = Some e" using Cons.prems f by simp
    then show ?thesis by (rule assms(1))
  qed
qed (simp add: fine_def)

section \<open>Invariants\<close>

text \<open>
  A result keeps an invariant when its state has it, whether the step throws or not, and every
  output is allowed. The rules follow the structure of the code.
\<close>

named_theorems keeps_intros \<open>results that keep an invariant\<close>

definition keeps :: "('s \<Rightarrow> bool) \<Rightarrow> ('o \<Rightarrow> bool) \<Rightarrow> ('s, 'o) seq_res \<Rightarrow> bool" where
  "keeps good allowed r \<longleftrightarrow> good (fst r) \<and> list_all allowed (fst (snd r))"

lemma keepsD:
  assumes "keeps good allowed r"
  shows "good (fst r)" "list_all allowed (fst (snd r))"
  using assms by (simp_all add: keeps_def)

lemma keeps_fine [keeps_intros]: "good c \<Longrightarrow> list_all allowed out \<Longrightarrow> keeps good allowed (fine c out)"
  by (simp add: keeps_def fine_def)

lemma keeps_throw [keeps_intros]: "good c \<Longrightarrow> list_all allowed out \<Longrightarrow> keeps good allowed (c, out, e)"
  by (simp add: keeps_def)

lemma keeps_emit_before [keeps_intros]:
  "keeps good allowed r \<Longrightarrow> list_all allowed out \<Longrightarrow> keeps good allowed (emit_before out r)"
  by (auto simp: keeps_def emit_before_def split: prod.split)

lemma keeps_and_then_stronger:
  assumes "keeps better allowed r" "\<And>c. better c \<Longrightarrow> keeps good allowed (k c)" "\<And>c. better c \<Longrightarrow> good c"
  shows "keeps good allowed (and_then r k)"
  using assms by (fastforce simp: keeps_def and_then_def split: prod.splits option.splits)

lemma keeps_and_then [keeps_intros]:
  assumes "keeps good allowed r" "\<And>c. good c \<Longrightarrow> keeps good allowed (k c)"
  shows "keeps good allowed (and_then r k)"
  using assms by (rule keeps_and_then_stronger)

lemma keeps_for_each [keeps_intros]:
  assumes "\<And>x c. x \<in> set xs \<Longrightarrow> good c \<Longrightarrow> keeps good allowed (f x c)" "good c"
  shows "keeps good allowed (for_each f xs c)"
  using assms by (induction xs arbitrary: c) (auto intro!: keeps_intros)

lemma keeps_catching [keeps_intros]: "keeps good allowed r \<Longrightarrow> keeps good allowed (catching r)"
  by (auto simp: keeps_def catching_def fine_def split: prod.splits option.splits)

lemma keeps_run_res [keeps_intros]:
  "(\<And>v. r = Inr v \<Longrightarrow> keeps good allowed (k v)) \<Longrightarrow> good c \<Longrightarrow> keeps good allowed (run_res c r k)"
  by (auto simp: run_res_def keeps_def split: sum.split)

end
