(* ===== verification/Client.thy ===== *)
theory Client
  imports Session Sequencing
begin

text \<open>
  \<open>api/client.cpp\<close> and \<open>api/topic_client_handle.cpp\<close>. The user's transport is an interface:
  the model keeps whether there is a socket and whether it is open, sends are outputs, and what
  the transport does (open, message, close, a failing connect) are steps of the environment. The
  user's callbacks are outputs in the order of their calls; what they do in turn is a later step.
  A handler returns the state, the outputs and the exception it ends with, if any: the state that
  a throwing handler leaves behind matters, since the parser catches what frame handlers throw.
\<close>

section \<open>Callback lists\<close>

text \<open>\<open>addCallback\<close>: the returned closure remembers the position of the callback.\<close>

definition addCallback :: "'cb list \<Rightarrow> 'cb \<Rightarrow> 'cb list \<times> nat" where
  "addCallback vec cb = (vec @ [cb], length vec)"

definition unsubscribe_at :: "'cb list \<Rightarrow> nat \<Rightarrow> 'cb list" where
  "unsubscribe_at vec idx = (if idx < length vec then take idx vec @ drop (Suc idx) vec else vec)"

section \<open>State\<close>

datatype client_state =
    CS_Disconnected | CS_Connecting | CS_Identifying | CS_Authorizing | CS_Synchronizing | CS_Ready
  | CS_Reconnecting

record topic_client_handle =
  tc_name :: string
  tc_index :: int
  tc_onUpdate :: nat
  tc_dirty :: bool

definition new_topic_client_handle :: "string \<Rightarrow> int \<Rightarrow> topic_client_handle" where
  [simp]: "new_topic_client_handle name index = \<lparr>tc_name = name, tc_index = index, tc_onUpdate = 0, tc_dirty = False\<rparr>"

text \<open>The operations of a handle that change it: \<open>_setIndex\<close>, the flag that \<open>_notify\<close> leaves, and
  \<open>onUpdate\<close> with the function it returns (only the number of its callbacks is kept).\<close>

definition tc_setIndex :: "int \<Rightarrow> topic_client_handle \<Rightarrow> topic_client_handle" where
  "tc_setIndex idx h = h\<lparr>tc_index := idx\<rparr>"

definition tc_notify :: "topic_client_handle \<Rightarrow> topic_client_handle" where
  "tc_notify h = h\<lparr>tc_dirty := True\<rparr>"

definition tc_addOnUpdate :: "topic_client_handle \<Rightarrow> topic_client_handle \<times> nat" where
  "tc_addOnUpdate h = (h\<lparr>tc_onUpdate := tc_onUpdate h + 1\<rparr>, tc_onUpdate h)"

definition tc_dropOnUpdate :: "nat \<Rightarrow> topic_client_handle \<Rightarrow> topic_client_handle" where
  "tc_dropOnUpdate idx h = (if idx < tc_onUpdate h then h\<lparr>tc_onUpdate := tc_onUpdate h - 1\<rparr> else h)"

datatype client_out =
    Out_Send bytes
  | Out_WsConnect string
  | Out_WsClose
  | Out_Connect
  | Out_Disconnect
  | Out_Ready
  | Out_Receive string payload
  | Out_Update
  | Out_Reconnecting int int
  | Out_Reconnect
  | Out_ReconnectFailed
  | Out_Error string string
  | Out_TopicReceive string string payload
  | Out_TopicUpdate string

record client =
  cl_id :: string
  cl_url :: string
  cl_state :: client_state
  cl_intentionalDisconnect :: bool
  cl_ws :: "bool option"
  cl_registry :: key_registry
  cl_store :: "(u32, payload) umap"
  cl_pendingValues :: "(u32, frame) umap"
  cl_subscriptions :: "(string \<times> (string \<times> payload) list) list"
  cl_topicDirty :: bool
  cl_topicHandles :: "(string \<times> topic_client_handle) list"
  cl_topicIndexMap :: "(string \<times> int) list"
  cl_indexToTopic :: "(int \<times> string) list"
  cl_heartbeat :: heartbeat
  cl_reconnect :: reconnect
  cl_topicKeyCache :: "(u32, (int \<times> string) option) umap"

definition new_client :: "string \<Rightarrow> string \<Rightarrow> reconnect_options \<Rightarrow> client" where
  "new_client uuid url opt =
     \<lparr>cl_id = uuid, cl_url = url, cl_state = CS_Disconnected, cl_intentionalDisconnect = False,
      cl_ws = None, cl_registry = new_registry 10000, cl_store = [], cl_pendingValues = [],
      cl_subscriptions = [], cl_topicDirty = False, cl_topicHandles = [], cl_topicIndexMap = [],
      cl_indexToTopic = [], cl_heartbeat = new_heartbeat, cl_reconnect = new_reconnect opt,
      cl_topicKeyCache = []\<rparr>"

text \<open>\<open>generateUUIDv7\<close>, from the time in milliseconds and the ten random bytes.\<close>

definition format_uuid :: "bytes \<Rightarrow> string" where
  "format_uuid bs = concat (map (\<lambda>i.
     (if i \<in> {4, 6, 8, 10} then ''-'' else '''') @ show_hex2 (bs ! i)) [0..<16])"

definition uuid_v7_bytes :: "u64 \<Rightarrow> bytes \<Rightarrow> bytes" where
  "uuid_v7_bytes ms random =
     (let bs = map (\<lambda>s. ucast (drop_bit s ms AND 0xFF)) [40, 32, 24, 16, 8, 0] @ take 10 random;
          bs = bs[6 := (bs ! 6 AND 0x0F) OR 0x70]
      in bs[8 := (bs ! 8 AND 0x3F) OR 0x80])"

definition generateUUIDv7 :: "u64 \<Rightarrow> bytes \<Rightarrow> string" where
  "generateUUIDv7 ms random = format_uuid (uuid_v7_bytes ms random)"

section \<open>Results\<close>

type_synonym 's out_res = "('s, client_out) seq_res"
type_synonym cres = "client out_res"

section \<open>Sending\<close>

definition ws_open :: "client \<Rightarrow> bool" where
  "ws_open c \<longleftrightarrow> cl_ws c = Some True"

definition sendRaw :: "bytes \<Rightarrow> client \<Rightarrow> cres" where
  "sendRaw data c = fine c (if ws_open c then [Out_Send data] else [])"

text \<open>\<open>sendFrame\<close>, which is also what \<open>bulkQueue_.enqueue\<close> amounts to.\<close>

definition sendFrame :: "frame \<Rightarrow> client \<Rightarrow> cres" where
  "sendFrame f c = (case encode f of Inr data \<Rightarrow> sendRaw data c | Inl e \<Rightarrow> (c, [], Some e))"

section \<open>Topic subscriptions\<close>

text \<open>The paths and values that describe one subscription.\<close>

definition topic_entries :: "int \<Rightarrow> string \<Rightarrow> (string \<times> payload) list \<Rightarrow> (string \<times> payload) list" where
  "topic_entries idx name params =
     (''topic.'' @ show_int idx @ ''.name'', PString name)
     # map (\<lambda>(k, v). (''topic.'' @ show_int idx @ ''.param.'' @ k, v)) params"

fun sync_entries :: "int \<Rightarrow> (string \<times> (string \<times> payload) list) list \<Rightarrow> (string \<times> payload) list" where
  "sync_entries idx [] = []"
| "sync_entries idx ((name, params) # subs) = topic_entries idx name params @ sync_entries (idx + 1) subs"

text \<open>Numbering the subscriptions, with a handle for each.\<close>

fun assign_indices :: "int \<Rightarrow> (string \<times> (string \<times> payload) list) list \<Rightarrow> client \<Rightarrow> client" where
  "assign_indices idx [] c = c"
| "assign_indices idx ((name, _) # subs) c =
     (let h = (case map_of (cl_topicHandles c) name of
                 Some h \<Rightarrow> tc_setIndex idx h
               | None \<Rightarrow> new_topic_client_handle name idx)
      in assign_indices (idx + 1) subs
           (c\<lparr>cl_topicIndexMap := om_put name idx (cl_topicIndexMap c),
              cl_indexToTopic := om_put idx name (cl_indexToTopic c),
              cl_topicHandles := om_put name h (cl_topicHandles c)\<rparr>))"

text \<open>\<open>DanWebSocketClient::detectDataType\<close>, a second copy of the store's function.\<close>

fun cl_detectDataType :: "payload \<Rightarrow> data_type" where
  "cl_detectDataType PNull = DT_Null"
| "cl_detectDataType (PBool _) = DT_Bool"
| "cl_detectDataType (PUint8 _) = DT_Uint8"
| "cl_detectDataType (PUint16 _) = DT_Uint16"
| "cl_detectDataType (PUint32 _) = DT_Uint32"
| "cl_detectDataType (PUint64 _) = DT_Uint64"
| "cl_detectDataType (PInt32 _) = DT_VarInteger"
| "cl_detectDataType (PInt64 _) = DT_Int64"
| "cl_detectDataType (PFloat _) = DT_VarFloat"
| "cl_detectDataType (PDouble _) = DT_VarDouble"
| "cl_detectDataType (PString _) = DT_String"
| "cl_detectDataType (PBinary _) = DT_Binary"

lemma client_detects_same [simp]: "cl_detectDataType v = detectDataType v"
  by (cases v) simp_all

text \<open>The frames of a topic sync: reset, registrations under the ids 1, 2, ..., values, sync.\<close>

definition topic_sync_frames :: "(string \<times> payload) list \<Rightarrow> frame list" where
  "topic_sync_frames entries =
     signal ClientReset 0
     # map (\<lambda>(i, p, v). mk_frame ClientKeyRegistration (word_of_nat i) (cl_detectDataType v) (PString p))
         (enumerate 1 entries)
     @ map (\<lambda>(i, p, v). mk_frame ClientValue (word_of_nat i) (cl_detectDataType v) v) (enumerate 1 entries)
     @ [signal ClientSync 0]"

definition sendTopicSync :: "client \<Rightarrow> cres" where
  "sendTopicSync c =
     (if \<not> ws_open c then fine (c\<lparr>cl_topicDirty := True\<rparr>) []
      else
        let c = assign_indices 0 (cl_subscriptions c) (c\<lparr>cl_topicIndexMap := [], cl_indexToTopic := []\<rparr>)
        in and_then (for_each sendFrame (topic_sync_frames (sync_entries 0 (cl_subscriptions c))) c)
             (\<lambda>c. fine (c\<lparr>cl_topicDirty := False\<rparr>) []))"

definition subscribe :: "string \<Rightarrow> (string \<times> payload) list \<Rightarrow> client \<Rightarrow> cres" where
  "subscribe name params c =
     sendTopicSync (c\<lparr>cl_subscriptions := om_put name params (cl_subscriptions c)\<rparr>)"

definition unsubscribe :: "string \<Rightarrow> client \<Rightarrow> cres" where
  "unsubscribe name c =
     (if map_of (cl_subscriptions c) name = None then fine c []
      else sendTopicSync (c\<lparr>cl_subscriptions := om_del name (cl_subscriptions c),
                            cl_topicHandles := om_del name (cl_topicHandles c)\<rparr>))"

definition cl_topic :: "string \<Rightarrow> client \<Rightarrow> client \<times> topic_client_handle" where
  "cl_topic name c =
     (case map_of (cl_topicHandles c) name of
        Some h \<Rightarrow> (c, h)
      | None \<Rightarrow>
          let idx = (case map_of (cl_topicIndexMap c) name of Some i \<Rightarrow> i | None \<Rightarrow> - 1);
              h = new_topic_client_handle name idx
          in (c\<lparr>cl_topicHandles := om_put name h (cl_topicHandles c)\<rparr>, h))"

definition cl_topics :: "client \<Rightarrow> string list" where
  "cl_topics c = map fst (cl_subscriptions c)"

section \<open>Reading\<close>

definition cl_lookup :: "client \<Rightarrow> string \<Rightarrow> payload" where
  "cl_lookup c path =
     (case getByPath (cl_registry c) path of
        None \<Rightarrow> PNull
      | Some e \<Rightarrow> (case map_of (cl_store c) (ke_keyId e) of None \<Rightarrow> PNull | Some v \<Rightarrow> v))"

definition cl_get :: "client \<Rightarrow> string \<Rightarrow> payload" where
  "cl_get c key = cl_lookup c key"

definition cl_keys :: "client \<Rightarrow> string list" where
  "cl_keys c = kr_paths (cl_registry c)"

definition tc_get :: "client \<Rightarrow> topic_client_handle \<Rightarrow> string \<Rightarrow> payload" where
  "tc_get c h key = cl_lookup c (topic_prefix (tc_index h) @ key)"

definition tc_keys :: "client \<Rightarrow> topic_client_handle \<Rightarrow> string list" where
  "tc_keys c h =
     (let prefix = topic_prefix (tc_index h)
      in map (drop (length prefix)) (filter (is_prefix_of prefix) (kr_paths (cl_registry c))))"

section \<open>Connecting and disconnecting\<close>

text \<open>The thread a handler runs on: the transport's (or the user's), or one of the two timers'.\<close>

datatype caller = Io_Thread | Heartbeat_Thread | Reconnect_Thread

definition stop_heartbeat :: "caller \<Rightarrow> client \<Rightarrow> cres" where
  "stop_heartbeat who c =
     run_res c (hb_stop (who = Heartbeat_Thread) (cl_heartbeat c)) (\<lambda>hb. fine (c\<lparr>cl_heartbeat := hb\<rparr>) [])"

text \<open>Detaching the callbacks, closing and dropping the socket.\<close>

definition drop_ws :: "client \<Rightarrow> cres" where
  "drop_ws c = (case cl_ws c of None \<Rightarrow> fine c [] | Some _ \<Rightarrow> fine (c\<lparr>cl_ws := None\<rparr>) [Out_WsClose])"

definition cleanup :: "caller \<Rightarrow> client \<Rightarrow> cres" where
  "cleanup who c = and_then (stop_heartbeat who c) drop_ws"

text \<open>The callbacks that \<open>setupInternals\<close> gives to the reconnect engine; attempts are steps.\<close>

definition on_rc_event :: "rc_event \<Rightarrow> client \<Rightarrow> cres" where
  "on_rc_event ev c =
     (case ev of
        RC_Reconnecting attempt delay \<Rightarrow> fine c [Out_Reconnecting attempt delay]
      | RC_Exhausted \<Rightarrow>
          fine (c\<lparr>cl_state := CS_Disconnected\<rparr>)
            [Out_Error ''RECONNECT_EXHAUSTED'' ''All reconnection attempts exhausted'', Out_ReconnectFailed]
      | RC_Attempt \<Rightarrow> fine c [])"

definition run_reconnect :: "(reconnect \<times> rc_event list) res \<Rightarrow> client \<Rightarrow> cres" where
  "run_reconnect r c =
     run_res c r (\<lambda>(rc, evs). for_each on_rc_event evs (c\<lparr>cl_reconnect := rc\<rparr>))"

definition handleClose :: "caller \<Rightarrow> u64 \<Rightarrow> client \<Rightarrow> cres" where
  "handleClose who jitter c =
     and_then (and_then (stop_heartbeat who c) drop_ws) (\<lambda>c.
       if cl_intentionalDisconnect c then fine c []
       else and_then (fine c [Out_Disconnect]) (\<lambda>c.
         let c = c\<lparr>cl_state := CS_Reconnecting\<rparr>; on_timer = (who = Reconnect_Thread)
         in if rc_active (cl_reconnect c)
            then run_reconnect (rc_retry on_timer jitter (cl_reconnect c)) c
            else run_reconnect (rc_start on_timer jitter (cl_reconnect c)) c))"

text \<open>Whether the factory and \<open>ws_->connect\<close> return or throw is up to the transport.\<close>

datatype connect_result = Connect_Returns | Factory_Throws | Connect_Throws

definition connect :: "caller \<Rightarrow> u64 \<Rightarrow> connect_result \<Rightarrow> client \<Rightarrow> cres" where
  "connect who jitter result c =
     (if cl_state c \<noteq> CS_Disconnected \<and> cl_state c \<noteq> CS_Reconnecting then fine c []
      else
        let c = c\<lparr>cl_intentionalDisconnect := False, cl_state := CS_Connecting\<rparr>
        in case result of
             Connect_Returns \<Rightarrow> fine (c\<lparr>cl_ws := Some False\<rparr>) [Out_WsConnect (cl_url c)]
           | Factory_Throws \<Rightarrow> handleClose who jitter c
           | Connect_Throws \<Rightarrow>
               and_then (fine (c\<lparr>cl_ws := Some False\<rparr>) [Out_WsConnect (cl_url c)]) (handleClose who jitter))"

definition disconnect :: "caller \<Rightarrow> client \<Rightarrow> cres" where
  "disconnect who c =
     (let c = c\<lparr>cl_intentionalDisconnect := True\<rparr>
      in run_res c (rc_stop (who = Reconnect_Thread) (cl_reconnect c)) (\<lambda>rc.
           and_then (cleanup who (c\<lparr>cl_reconnect := rc\<rparr>)) (\<lambda>c.
             fine (c\<lparr>cl_state := CS_Disconnected\<rparr>) [Out_Disconnect])))"

text \<open>The destructor: its body, then the members. An exception that leaves it ends the process.\<close>

definition cl_destroy :: "caller \<Rightarrow> client \<Rightarrow> cres" where
  "cl_destroy who c =
     (case and_then (cleanup who c) (\<lambda>c.
             run_res c (rc_dispose (who = Reconnect_Thread) (cl_reconnect c)) (\<lambda>rc.
               let c = c\<lparr>cl_reconnect := rc\<rparr>
               in run_res c (hb_destroy (who = Heartbeat_Thread) (cl_heartbeat c)) (\<lambda>_. fine c []))) of
        (c, out, Some e) \<Rightarrow> (c, out, Some (if catchable e then Terminate else e))
      | r \<Rightarrow> r)"

definition cl_authorize :: "string \<Rightarrow> client \<Rightarrow> cres" where
  "cl_authorize token c =
     (if \<not> ws_open c then fine c []
      else and_then (sendFrame (mk_frame Auth 0 DT_String (PString token)) c)
             (\<lambda>c. fine (c\<lparr>cl_state := CS_Authorizing\<rparr>) []))"

text \<open>The sixteen bytes of the id, read back two hexadecimal digits at a time.\<close>

fun hex_bytes :: "string \<Rightarrow> bytes res" where
  "hex_bytes [] = Inr []"
| "hex_bytes [a] = rbind (stoi_base 16 [a]) (\<lambda>v. Inr [word_of_int v])"
| "hex_bytes (a # b # cs) =
     rbind (stoi_base 16 [a, b]) (\<lambda>v. rbind (hex_bytes cs) (\<lambda>bs. Inr (word_of_int v # bs)))"

definition identify_payload :: "string \<Rightarrow> bytes res" where
  "identify_payload uuid =
     rbind (hex_bytes (filter (\<lambda>c. c \<noteq> CHR ''-'') uuid)) (\<lambda>bs. Inr (bs @ [3, 5]))"

definition handleOpen :: "caller \<Rightarrow> int \<Rightarrow> client \<Rightarrow> cres" where
  "handleOpen who now c =
     (let c = c\<lparr>cl_state := CS_Identifying\<rparr>
      in run_res c (hb_start (who = Heartbeat_Thread) now (cl_heartbeat c)) (\<lambda>hb.
         let c = c\<lparr>cl_heartbeat := hb\<rparr>
         in run_res c (identify_payload (cl_id c)) (\<lambda>bs.
            and_then (sendFrame (mk_frame Identify 0 DT_Binary (PBinary bs)) c) (\<lambda>c.
            and_then (fine c [Out_Connect]) (\<lambda>c.
              if cl_topicDirty c \<and> cl_subscriptions c \<noteq> [] then sendTopicSync c else fine c [])))))"

section \<open>Receiving\<close>

text \<open>Parsing \<open>t.<idx>.<userKey>\<close>.\<close>

definition parse_topic_path :: "string \<Rightarrow> (int \<times> string) option" where
  "parse_topic_path path =
     (if 2 < length path \<and> path ! 0 = CHR ''t'' \<and> path ! 1 = CHR ''.''
      then (case str_find_from ''.'' path 2 of
              None \<Rightarrow> None
            | Some secondDot \<Rightarrow>
                (case stoi (substr path 2 (secondDot - 2)) of
                   Inr idx \<Rightarrow> Some (idx, drop (secondDot + 1) path)
                 | Inl _ \<Rightarrow> None))
      else None)"

definition getTopicInfo :: "client \<Rightarrow> u32 \<Rightarrow> string \<Rightarrow> client \<times> (int \<times> string) option" where
  "getTopicInfo c k path =
     (case map_of (cl_topicKeyCache c) k of
        Some info \<Rightarrow> (c, info)
      | None \<Rightarrow>
          let info = parse_topic_path path
          in (c\<lparr>cl_topicKeyCache := AList.update k info (cl_topicKeyCache c)\<rparr>, info))"

text \<open>Telling the handle of a topic, if there is one, or the global callbacks.\<close>

definition deliver :: "(int \<times> string) option \<Rightarrow> string \<Rightarrow> payload \<Rightarrow> client \<Rightarrow> cres" where
  "deliver info path v c =
     (case info of
        None \<Rightarrow> fine c [Out_Receive path v]
      | Some (idx, userKey) \<Rightarrow>
          (case map_of (cl_indexToTopic c) idx of
             None \<Rightarrow> fine c []
           | Some name \<Rightarrow>
               (case map_of (cl_topicHandles c) name of
                  None \<Rightarrow> fine c []
                | Some h \<Rightarrow>
                    fine (c\<lparr>cl_topicHandles := om_put name (tc_notify h) (cl_topicHandles c)\<rparr>)
                      [Out_TopicReceive name userKey v])))"

definition put_value :: "u32 \<Rightarrow> payload \<Rightarrow> client \<Rightarrow> client" where
  "put_value k v c = c\<lparr>cl_store := AList.update k v (cl_store c)\<rparr>"

definition become_ready :: "caller \<Rightarrow> client \<Rightarrow> cres" where
  "become_ready who c =
     and_then (fine (c\<lparr>cl_state := CS_Ready\<rparr>) [Out_Ready]) (\<lambda>c.
     and_then
       (if rc_active (cl_reconnect c)
        then run_res c (rc_stop (who = Reconnect_Thread) (cl_reconnect c)) (\<lambda>rc.
               fine (c\<lparr>cl_reconnect := rc\<rparr>) [Out_Reconnect])
        else fine c []) (\<lambda>c.
     if cl_subscriptions c \<noteq> [] then sendTopicSync c else fine c []))"

definition on_AuthFail :: "caller \<Rightarrow> frame \<Rightarrow> client \<Rightarrow> cres" where
  "on_AuthFail who f c =
     (let msg = (case payload f of PString m \<Rightarrow> m | _ \<Rightarrow> ''Authentication failed'');
          c = c\<lparr>cl_intentionalDisconnect := True\<rparr>
      in and_then (fine c [Out_Error ''AUTH_REJECTED'' msg]) (\<lambda>c.
         and_then (cleanup who c) (\<lambda>c. fine (c\<lparr>cl_state := CS_Disconnected\<rparr>) [Out_Disconnect])))"

definition leave_identifying :: "client \<Rightarrow> client" where
  "leave_identifying c =
     (if cl_state c = CS_Identifying then c\<lparr>cl_state := CS_Synchronizing\<rparr> else c)"

definition on_ServerKeyRegistration :: "frame \<Rightarrow> client \<Rightarrow> cres" where
  "on_ServerKeyRegistration f c =
     (let c = leave_identifying c
      in case payload f of
           PString keyPath \<Rightarrow>
             run_res c (registerOne (cl_registry c) (keyId f) keyPath (dataType f)) (\<lambda>kr.
               let c = c\<lparr>cl_registry := kr\<rparr>
               in case map_of (cl_pendingValues c) (keyId f) of
                    None \<Rightarrow> fine c []
                  | Some pend \<Rightarrow>
                      let c = put_value (keyId f) (payload pend) c;
                          (c, info) = getTopicInfo c (keyId f) keyPath
                      in and_then (deliver info keyPath (payload pend) c) (\<lambda>c.
                           fine (c\<lparr>cl_pendingValues := AList.delete (keyId f) (cl_pendingValues c)\<rparr>) []))
         | _ \<Rightarrow> fine c [])"

definition on_ServerSync :: "caller \<Rightarrow> client \<Rightarrow> cres" where
  "on_ServerSync who c =
     (let c = leave_identifying c
      in and_then (if cl_state c \<noteq> CS_Ready then sendFrame (signal ClientReady 0) c else fine c []) (\<lambda>c.
           if kr_size (cl_registry c) = 0 then become_ready who c else fine c []))"

definition on_ServerValue :: "caller \<Rightarrow> frame \<Rightarrow> client \<Rightarrow> cres" where
  "on_ServerValue who f c =
     (if \<not> hasKeyId (cl_registry c) (keyId f)
      then and_then (sendFrame (signal ClientKeyRequest (keyId f)) c) (\<lambda>c.
             fine (c\<lparr>cl_pendingValues := AList.update (keyId f) f (cl_pendingValues c)\<rparr>) [])
      else
        let c = put_value (keyId f) (payload f) c
        in and_then
             (case getByKeyId (cl_registry c) (keyId f) of
                None \<Rightarrow> fine c []
              | Some e \<Rightarrow>
                  let (c, info) = getTopicInfo c (keyId f) (ke_path e)
                  in deliver info (ke_path e) (payload f) c) (\<lambda>c.
             if cl_state c = CS_Synchronizing then become_ready who c else fine c []))"

section \<open>Array shifts\<close>

text \<open>\<open>s.substr(0, s.size() - 7)\<close>; the unsigned difference wraps around for a shorter string, which
  then is kept whole.\<close>

definition without_length :: "string \<Rightarrow> string" where
  "without_length s = (if length s < 7 then s else take (length s - 7) s)"

definition element_path :: "string \<Rightarrow> int \<Rightarrow> string" where
  "element_path prefix i = prefix @ ''.'' @ show_int i"

text \<open>One round of either loop: the value of element \<open>from\<close> goes to element \<open>to\<close>, if both are
  registered and there is a value.\<close>

definition copy_element :: "string \<Rightarrow> int \<Rightarrow> int \<Rightarrow> client \<Rightarrow> client" where
  "copy_element prefix from to c =
     (case (getByPath (cl_registry c) (element_path prefix from),
            getByPath (cl_registry c) (element_path prefix to)) of
        (Some src, Some dst) \<Rightarrow>
          (case map_of (cl_store c) (ke_keyId src) of
             Some v \<Rightarrow> put_value (ke_keyId dst) v c
           | None \<Rightarrow> c)
      | _ \<Rightarrow> c)"

definition int_payload :: "payload option \<Rightarrow> int" where
  "int_payload p = (case p of Some (PInt32 v) \<Rightarrow> sint v | _ \<Rightarrow> 0)"

definition shift_left_loop :: "string \<Rightarrow> int \<Rightarrow> int \<Rightarrow> client \<Rightarrow> client" where
  "shift_left_loop prefix shift n c =
     foldl (\<lambda>c i. copy_element prefix (int i + shift) (int i) c) c [0..<nat (n - shift)]"

definition shift_right_loop :: "string \<Rightarrow> int \<Rightarrow> int \<Rightarrow> client \<Rightarrow> client" where
  "shift_right_loop prefix shift n c =
     foldl (\<lambda>c i. copy_element prefix (int i) (int i + shift) c) c (rev [0..<nat n])"

definition deliver_length :: "(int \<times> string) option \<Rightarrow> string \<Rightarrow> int \<Rightarrow> client \<Rightarrow> cres" where
  "deliver_length info prefix n c =
     deliver (map_option (\<lambda>(idx, userKey). (idx, without_length userKey @ ''.length'')) info)
       (prefix @ ''.length'') (PInt32 (word_of_int n)) c"

definition on_ArrayShiftLeft :: "frame \<Rightarrow> client \<Rightarrow> cres" where
  "on_ArrayShiftLeft f c =
     (case getByKeyId (cl_registry c) (keyId f) of
        None \<Rightarrow> fine c []
      | Some e \<Rightarrow>
          let (c, info) = getTopicInfo c (keyId f) (ke_path e);
              prefix = without_length (ke_path e);
              rawShift = int_payload (Some (payload f));
              currentLength = int_payload (map_of (cl_store c) (keyId f));
              shiftCount = max 0 (min rawShift currentLength);
              c = shift_left_loop prefix shiftCount currentLength c;
              newLength = currentLength - shiftCount;
              c = put_value (keyId f) (PInt32 (word_of_int newLength)) c
          in deliver_length info prefix newLength c)"

text \<open>\<open>i + shiftCount\<close> is an \<open>int\<close> addition.\<close>

definition on_ArrayShiftRight :: "frame \<Rightarrow> client \<Rightarrow> cres" where
  "on_ArrayShiftRight f c =
     (case getByKeyId (cl_registry c) (keyId f) of
        None \<Rightarrow> fine c []
      | Some e \<Rightarrow>
          let (c, info) = getTopicInfo c (keyId f) (ke_path e);
              prefix = without_length (ke_path e);
              rawShift = int_payload (Some (payload f));
              currentLength = int_payload (map_of (cl_store c) (keyId f));
              shiftCount = max 0 (min rawShift currentLength)
          in if 0 < currentLength \<and> INT_MAX < currentLength - 1 + shiftCount
             then (c, [], Some Undefined)
             else deliver_length info prefix currentLength (shift_right_loop prefix shiftCount currentLength c))"

section \<open>The remaining frames\<close>

definition flush_topic :: "string \<Rightarrow> client \<Rightarrow> cres" where
  "flush_topic name c =
     (case map_of (cl_topicHandles c) name of
        None \<Rightarrow> fine c []
      | Some h \<Rightarrow>
          if \<not> tc_dirty h \<or> tc_onUpdate h = 0 then fine c []
          else fine (c\<lparr>cl_topicHandles := om_put name (h\<lparr>tc_dirty := False\<rparr>) (cl_topicHandles c)\<rparr>)
                 [Out_TopicUpdate name])"

definition on_ServerFlushEnd :: "client \<Rightarrow> cres" where
  "on_ServerFlushEnd c =
     and_then (fine c [Out_Update]) (\<lambda>c. for_each flush_topic (map fst (cl_topicHandles c)) c)"

text \<open>
  The topic information of the deleted key is a pointer into \<open>topicKeyCache_\<close>, whose entry is erased
  before the pointer is read: undefined behaviour whenever the key belongs to a topic.
\<close>

definition on_ServerKeyDelete :: "frame \<Rightarrow> client \<Rightarrow> cres" where
  "on_ServerKeyDelete f c =
     (let (c, path, info) =
            (case getByKeyId (cl_registry c) (keyId f) of
               None \<Rightarrow> (c, [], None)
             | Some e \<Rightarrow> (let (c, info) = getTopicInfo c (keyId f) (ke_path e) in (c, ke_path e, info)));
          c = c\<lparr>cl_registry := fst (removeByKeyId (cl_registry c) (keyId f)),
                cl_store := AList.delete (keyId f) (cl_store c),
                cl_topicKeyCache := AList.delete (keyId f) (cl_topicKeyCache c)\<rparr>
      in if path = [] then fine c []
         else if info \<noteq> None then (c, [], Some Undefined)
         else fine c [Out_Receive path PNull])"

definition on_ServerReset :: "client \<Rightarrow> cres" where
  "on_ServerReset c =
     fine (c\<lparr>cl_registry := kr_clear (cl_registry c), cl_store := [], cl_pendingValues := [],
             cl_topicKeyCache := [], cl_state := CS_Synchronizing\<rparr>) []"

definition on_Error :: "frame \<Rightarrow> client \<Rightarrow> cres" where
  "on_Error f c =
     fine c [Out_Error ''REMOTE_ERROR'' (case payload f of PString m \<Rightarrow> m | _ \<Rightarrow> ''Unknown error'')]"

definition handleFrame :: "caller \<Rightarrow> frame \<Rightarrow> client \<Rightarrow> cres" where
  "handleFrame who f c =
     (case frameType f of
        AuthOk \<Rightarrow> fine (c\<lparr>cl_state := CS_Synchronizing\<rparr>) []
      | AuthFail \<Rightarrow> on_AuthFail who f c
      | ServerKeyRegistration \<Rightarrow> on_ServerKeyRegistration f c
      | ServerSync \<Rightarrow> on_ServerSync who c
      | ServerValue \<Rightarrow> on_ServerValue who f c
      | ArrayShiftLeft \<Rightarrow> on_ArrayShiftLeft f c
      | ArrayShiftRight \<Rightarrow> on_ArrayShiftRight f c
      | ServerFlushEnd \<Rightarrow> on_ServerFlushEnd c
      | ServerKeyDelete \<Rightarrow> on_ServerKeyDelete f c
      | ServerReset \<Rightarrow> on_ServerReset c
      | FT_Error \<Rightarrow> on_Error f c
      | _ \<Rightarrow> fine c [])"

text \<open>The parser's events; it catches what a frame handler throws and logs it.\<close>

definition on_event :: "caller \<Rightarrow> int \<Rightarrow> event \<Rightarrow> client \<Rightarrow> cres" where
  "on_event who now ev c =
     (case ev of
        EvFrame f \<Rightarrow> catching (handleFrame who f c)
      | EvHeartbeat \<Rightarrow> fine (c\<lparr>cl_heartbeat := hb_received now (cl_heartbeat c)\<rparr>) []
      | EvError msg \<Rightarrow> fine c [])"

text \<open>
  The member \<open>parser_\<close> is only touched by the message callback, so the whole client is the pair of
  the parser and the rest.
\<close>

type_synonym whole_client = "stream_parser \<times> client"

definition new_whole_client :: "string \<Rightarrow> string \<Rightarrow> reconnect_options \<Rightarrow> whole_client" where
  "new_whole_client uuid url opt = (default_parser, new_client uuid url opt)"

definition keep_parser :: "stream_parser \<Rightarrow> cres \<Rightarrow> whole_client out_res" where
  "keep_parser p r = (case r of (c, out, e) \<Rightarrow> ((p, c), out, e))"

definition on_message :: "caller \<Rightarrow> int \<Rightarrow> bytes \<Rightarrow> whole_client \<Rightarrow> whole_client out_res" where
  "on_message who now data w =
     (let (p, evs) = feed (fst w) data in keep_parser p (for_each (on_event who now) evs (snd w)))"

text \<open>\<open>heartbeat_.onTimeout\<close> and a round of the heartbeat's loop.\<close>

definition on_heartbeat_tick :: "int \<Rightarrow> u64 \<Rightarrow> client \<Rightarrow> cres" where
  "on_heartbeat_tick now jitter c =
     (let (hb, evs) = hb_tick now (cl_heartbeat c)
      in for_each (\<lambda>ev c.
           case ev of
             HB_Send data \<Rightarrow> sendRaw data c
           | HB_Timeout \<Rightarrow>
               and_then (fine c [Out_Error ''HEARTBEAT_TIMEOUT'' ''No heartbeat received within 15 seconds''])
                 (handleClose Heartbeat_Thread jitter)) evs (c\<lparr>cl_heartbeat := hb\<rparr>))"

text \<open>The timer of the reconnect engine fires; its thread ends when the attempt returns. An exception
  that leaves a thread function ends the process.\<close>

definition on_reconnect_timer :: "u64 \<Rightarrow> connect_result \<Rightarrow> client \<Rightarrow> cres" where
  "on_reconnect_timer jitter result c =
     (case and_then (if rc_fire (cl_reconnect c) = [RC_Attempt]
                     then connect Reconnect_Thread jitter result c else fine c [])
             (\<lambda>c. fine (c\<lparr>cl_reconnect := rc_loop_end (cl_reconnect c)\<rparr>) []) of
        (c, out, Some e) \<Rightarrow> (c, out, Some Terminate)
      | r \<Rightarrow> r)"

text \<open>Everything that can happen to a client.\<close>

datatype client_input =
    In_Connect connect_result
  | In_Disconnect
  | In_Authorize string
  | In_Subscribe string "(string \<times> payload) list"
  | In_Unsubscribe string
  | In_Topic string
  | In_TopicOnUpdate string
  | In_TopicDropOnUpdate string nat
  | In_Open
  | In_Close
  | In_Message bytes
  | In_Heartbeat_Timer
  | In_Reconnect_Timer connect_result

text \<open>\<open>now\<close> and \<open>jitter\<close> are the clock and the random draw of the step. The transport delivers its
  callbacks only while the socket is attached.\<close>

definition client_step :: "int \<Rightarrow> u64 \<Rightarrow> client_input \<Rightarrow> whole_client \<Rightarrow> whole_client out_res" where
  "client_step now jitter inp w =
     (let (p, c) = w in
      case inp of
        In_Connect result \<Rightarrow> keep_parser p (connect Io_Thread jitter result c)
      | In_Disconnect \<Rightarrow> keep_parser p (disconnect Io_Thread c)
      | In_Authorize token \<Rightarrow> keep_parser p (cl_authorize token c)
      | In_Subscribe name params \<Rightarrow> keep_parser p (subscribe name params c)
      | In_Unsubscribe name \<Rightarrow> keep_parser p (unsubscribe name c)
      | In_Topic name \<Rightarrow> fine (p, fst (cl_topic name c)) []
      | In_TopicOnUpdate name \<Rightarrow>
          (let (c, h) = cl_topic name c
           in fine (p, c\<lparr>cl_topicHandles := om_put name (fst (tc_addOnUpdate h)) (cl_topicHandles c)\<rparr>) [])
      | In_TopicDropOnUpdate name idx \<Rightarrow>
          (case map_of (cl_topicHandles c) name of
             None \<Rightarrow> fine w []
           | Some h \<Rightarrow> fine (p, c\<lparr>cl_topicHandles := om_put name (tc_dropOnUpdate idx h) (cl_topicHandles c)\<rparr>) [])
      | In_Open \<Rightarrow>
          if cl_ws c = None then fine w []
          else keep_parser p (handleOpen Io_Thread now (c\<lparr>cl_ws := Some True\<rparr>))
      | In_Close \<Rightarrow>
          if cl_ws c = None then fine w []
          else keep_parser p (handleClose Io_Thread jitter (c\<lparr>cl_ws := Some False\<rparr>))
      | In_Message data \<Rightarrow> if cl_ws c = None then fine w [] else on_message Io_Thread now data w
      | In_Heartbeat_Timer \<Rightarrow> keep_parser p (on_heartbeat_tick now jitter c)
      | In_Reconnect_Timer result \<Rightarrow> keep_parser p (on_reconnect_timer jitter result c))"

fun client_run :: "(int \<times> u64 \<times> client_input) list \<Rightarrow> whole_client \<Rightarrow> whole_client out_res" where
  "client_run [] w = fine w []"
| "client_run ((now, jitter, inp) # ins) w = and_then (client_step now jitter inp w) (client_run ins)"

end
