(* ===== verification/Client_Sync.thy ===== *)
theory Client_Sync
  imports Client
begin

text \<open>
  The client follows the server: its registry and store refine the mirror that specifies what a
  stream of server frames means, so that together with the frames of a store (\<open>Flat_State\<close>) and
  the byte stream between them (\<open>Stream_Parser\<close>) a client reads what the server has set.
\<close>

section \<open>The client as a mirror\<close>

definition cl_mirror :: "client \<Rightarrow> mirror" where
  "cl_mirror c =
     \<lparr>mi_keys = (\<lambda>k. map_option (\<lambda>e. (ke_path e, ke_type e)) (getByKeyId (cl_registry c) k)),
      mi_vals = map_of (cl_store c)\<rparr>"

text \<open>Cached topic information belongs to a registered key and is what parsing its path gives.\<close>

definition cache_current :: "client \<Rightarrow> bool" where
  "cache_current c \<longleftrightarrow> (\<forall>k info. map_of (cl_topicKeyCache c) k = Some info \<longrightarrow>
     (\<exists>e. getByKeyId (cl_registry c) k = Some e \<and> info = parse_topic_path (ke_path e)))"

text \<open>
  A client with nothing pending, that is not in a reconnect cycle and has nothing to subscribe when
  it becomes ready: its handlers then only follow the frames.
\<close>

definition following :: "client \<Rightarrow> bool" where
  "following c \<longleftrightarrow> kr_consistent (cl_registry c) \<and> cache_current c
     \<and> cl_pendingValues c = [] \<and> (cl_subscriptions c = [] \<or> cl_state c = CS_Ready)
     \<and> \<not> rc_active (cl_reconnect c) \<and> kr_maxKeys (cl_registry c) = 10000"

text \<open>One that has nothing subscribed at all.\<close>

definition calm :: "client \<Rightarrow> bool" where
  "calm c \<longleftrightarrow> kr_consistent (cl_registry c) \<and> cache_current c
     \<and> cl_pendingValues c = [] \<and> cl_subscriptions c = [] \<and> \<not> rc_active (cl_reconnect c)
     \<and> kr_maxKeys (cl_registry c) = 10000"

lemma calm_following: "calm c \<longleftrightarrow> following c \<and> cl_subscriptions c = []"
  by (auto simp: calm_def following_def)

lemma calm_new [simp]: "calm (new_client uuid url opt)"
  by (simp add: calm_def new_client_def cache_current_def new_reconnect_def) (simp add: new_registry_def)

lemma mirror_new: "cl_mirror (new_client uuid url opt) = empty_mirror"
  by (simp add: cl_mirror_def new_client_def empty_mirror_def new_registry_def getByKeyId_def)

lemma cl_mirror_cong:
  "cl_registry c' = cl_registry c \<Longrightarrow> cl_store c' = cl_store c \<Longrightarrow> cl_mirror c' = cl_mirror c"
  by (simp add: cl_mirror_def)

lemma calm_cong:
  "cl_registry c' = cl_registry c \<Longrightarrow> cl_topicKeyCache c' = cl_topicKeyCache c \<Longrightarrow>
   cl_pendingValues c' = cl_pendingValues c \<Longrightarrow> cl_subscriptions c' = cl_subscriptions c \<Longrightarrow>
   cl_reconnect c' = cl_reconnect c \<Longrightarrow> calm c' = calm c"
  by (simp add: calm_def cache_current_def)

lemma following_cong:
  "cl_registry c' = cl_registry c \<Longrightarrow> cl_topicKeyCache c' = cl_topicKeyCache c \<Longrightarrow>
   cl_pendingValues c' = cl_pendingValues c \<Longrightarrow> cl_subscriptions c' = cl_subscriptions c \<Longrightarrow>
   cl_reconnect c' = cl_reconnect c \<Longrightarrow> cl_state c' = cl_state c \<Longrightarrow> following c' = following c"
  by (simp add: following_def cache_current_def)

text \<open>What a handler may change without the mirror noticing.\<close>

definition same_data :: "client \<Rightarrow> client \<Rightarrow> bool" where
  "same_data c c' \<longleftrightarrow> cl_registry c' = cl_registry c \<and> cl_store c' = cl_store c
     \<and> cl_pendingValues c' = cl_pendingValues c \<and> cl_subscriptions c' = cl_subscriptions c
     \<and> cl_reconnect c' = cl_reconnect c \<and> cl_topicKeyCache c' = cl_topicKeyCache c
     \<and> (cl_state c = CS_Ready \<longrightarrow> cl_state c' = CS_Ready)"

lemma same_data_refl [simp]: "same_data c c"
  by (simp add: same_data_def)

lemma same_data_follows:
  "same_data c c' \<Longrightarrow> following c \<Longrightarrow>
     following c' \<and> cl_mirror c' = cl_mirror c \<and> cl_subscriptions c' = cl_subscriptions c"
  using cl_mirror_cong [of c' c] by (auto simp: same_data_def following_def cache_current_def)

lemma deliver_same: "\<exists>c' out. deliver info path v c = fine c' out \<and> same_data c c'"
  by (auto simp: deliver_def same_data_def split: option.split)

lemma encode_signal_defined: "isSignalFrame ft \<Longrightarrow> \<exists>bs. encode (signal ft k) = Inr bs"
  by (auto simp: encode_def frame_payload_def mk_frame_def isKeyRegistrationFrame_def)

lemma sendFrame_signal: "isSignalFrame ft \<Longrightarrow> \<exists>out. sendFrame (signal ft k) c = fine c out"
  using encode_signal_defined [of ft k] by (auto simp: sendFrame_def sendRaw_def)

lemma become_ready_calm:
  "following c \<Longrightarrow> cl_subscriptions c = [] \<Longrightarrow> \<exists>c' out. become_ready who c = fine c' out \<and> same_data c c'"
  by (auto simp: become_ready_def following_def same_data_def run_res_def)

lemma leave_identifying_same: "same_data c (leave_identifying c)"
  by (simp add: leave_identifying_def same_data_def)

lemma same_data_trans: "same_data c c' \<Longrightarrow> same_data c' c'' \<Longrightarrow> same_data c c''"
  by (simp add: same_data_def)

lemma getTopicInfo_current:
  assumes "cache_current c" "getByKeyId (cl_registry c) k = Some e"
  shows "\<exists>c'. getTopicInfo c k (ke_path e) = (c', parse_topic_path (ke_path e)) \<and> cache_current c'
    \<and> cl_registry c' = cl_registry c \<and> cl_store c' = cl_store c
    \<and> cl_pendingValues c' = cl_pendingValues c \<and> cl_subscriptions c' = cl_subscriptions c
    \<and> cl_reconnect c' = cl_reconnect c \<and> cl_state c' = cl_state c"
proof (cases "map_of (cl_topicKeyCache c) k")
  case None
  then show ?thesis
    using assms by (auto simp: getTopicInfo_def cache_current_def Let_def)
next
  case (Some info)
  with assms have "info = parse_topic_path (ke_path e)"
    unfolding cache_current_def by (metis option.inject)
  then show ?thesis using Some assms(1) by (simp add: getTopicInfo_def)
qed

section \<open>Frame by frame\<close>

text \<open>With subscriptions, a synchronisation without keys and a reset make the client subscribe again.\<close>

definition settled :: "mirror \<Rightarrow> frame \<Rightarrow> bool" where
  "settled m f \<longleftrightarrow> frameType f \<noteq> ServerReset \<and> (frameType f = ServerSync \<longrightarrow> mi_keys m \<noteq> Map.empty)"

lemma follow_sync:
  assumes "following c" "cl_subscriptions c = [] \<or> settled (cl_mirror c) (mk_frame ServerSync k dt v)"
  shows "\<exists>c' out. handleFrame who (mk_frame ServerSync k dt v) c = fine c' out \<and> following c' \<and> cl_mirror c' = cl_mirror c
    \<and> cl_registry c' = cl_registry c \<and> cl_subscriptions c' = cl_subscriptions c"
proof -
  let ?c = "leave_identifying c"
  have c: "following ?c" "cl_registry ?c = cl_registry c" "cl_subscriptions ?c = cl_subscriptions c"
    using same_data_follows [OF leave_identifying_same assms(1)] leave_identifying_same [of c] by (simp_all add: same_data_def)
  have empty: "cl_subscriptions ?c = []" if "kr_size (cl_registry ?c) = 0"
  proof -
    have "mi_keys (cl_mirror c) = Map.empty"
      using that c(2) by (simp add: cl_mirror_def getByKeyId_def kr_size_def)
    then show ?thesis using assms(2) c(3) by (auto simp: settled_def mk_frame_def)
  qed
  obtain out where s: "(if cl_state ?c \<noteq> CS_Ready then sendFrame (signal ClientReady 0) ?c else fine ?c []) = fine ?c out"
  proof (cases "cl_state ?c = CS_Ready")
    case False
    obtain out where "sendFrame (signal ClientReady 0) ?c = fine ?c out"
      using sendFrame_signal [of ClientReady 0 ?c] by auto
    then show ?thesis using False that [of out] by simp
  qed (use that in simp)
  obtain c' out' where r: "(if kr_size (cl_registry ?c) = 0 then become_ready who ?c else fine ?c []) = fine c' out'"
    "same_data ?c c'"
    using become_ready_calm [OF c(1), of who] empty by (cases "kr_size (cl_registry ?c) = 0") auto
  have "handleFrame who (mk_frame ServerSync k dt v) c = fine c' (out @ out')"
    using s r(1) by (simp add: handleFrame_def mk_frame_def on_ServerSync_def Let_def)
  moreover have "same_data c c'" using same_data_trans [OF leave_identifying_same r(2)] .
  ultimately show ?thesis
    using same_data_follows [of c c'] assms(1) by (auto simp: same_data_def)
qed

lemma follow_registration:
  assumes "following c" "check_key_path p = Inr ()" "fits (cl_registry c) k p"
    "kr_size (cl_registry c) < 10000"
  shows "\<exists>c' out. handleFrame who (mk_frame ServerKeyRegistration k dt (PString p)) c = fine c' out \<and> following c'
    \<and> cl_subscriptions c' = cl_subscriptions c
    \<and> cl_mirror c' = (cl_mirror c)\<lparr>mi_keys := (mi_keys (cl_mirror c))(k \<mapsto> (p, dt))\<rparr>
    \<and> kr_size (cl_registry c') \<le> Suc (kr_size (cl_registry c))"
proof -
  let ?c = "leave_identifying c"
  have reg: "cl_registry ?c = cl_registry c" "cl_pendingValues ?c = []" "following ?c" "cl_subscriptions ?c = cl_subscriptions c"
    using leave_identifying_same [of c] same_data_follows [OF leave_identifying_same assms(1)]
    by (simp_all add: same_data_def) (simp add: following_def)
  obtain kr where kr: "registerOne (cl_registry c) k p dt = Inr kr"
    using assms by (auto simp: registerOne_def following_def kr_size_def)
  have look: "getByKeyId kr k' = (if k' = k then Some (mk_entry p dt k) else getByKeyId (cl_registry c) k')" for k'
    by (rule registerOne_lookup(1) [OF kr])
  have cons: "kr_consistent kr"
    using assms(1) kr_consistent_register [OF _ assms(3) kr] by (simp add: following_def)
  have old: "ke_path e = p" if "getByKeyId (cl_registry c) k = Some e" for e
  proof -
    have cons: "kr_consistent (cl_registry c)" using assms(1) by (simp add: following_def)
    have "map_of (kr_pathToId (cl_registry c)) p = Some k" using assms(3) that by (simp add: fits_def)
    then obtain e' where "getByKeyId (cl_registry c) k = Some e'" "ke_path e' = p"
      by (rule kr_consistent_path [OF cons])
    with that show ?thesis by simp
  qed
  have size: "kr_size kr \<le> Suc (kr_size (cl_registry c))"
    using kr by (cases "map_of (kr_byId (cl_registry c)) k")
      (auto simp: registerOne_def kr_size_def rbind_eq_Inr split: if_splits)
  let ?c' = "?c\<lparr>cl_registry := kr\<rparr>"
  have h: "handleFrame who (mk_frame ServerKeyRegistration k dt (PString p)) c = fine ?c' []"
    using kr reg by (simp add: handleFrame_def mk_frame_def on_ServerKeyRegistration_def run_res_def Let_def)
  have "cache_current ?c'"
    using reg(3) old by (auto simp: cache_current_def look following_def reg(1))
  then have "following ?c'" using reg(3) cons registerOne_lookup(3) [OF kr] by (simp add: following_def reg(1))
  moreover have "cl_mirror ?c' = (cl_mirror c)\<lparr>mi_keys := (mi_keys (cl_mirror c))(k \<mapsto> (p, dt))\<rparr>"
    using leave_identifying_same [of c] by (auto simp: cl_mirror_def look same_data_def fun_eq_iff)
  ultimately show ?thesis using h size reg(4) by (intro exI [of _ ?c'] exI [of _ "[]"]) simp
qed

lemma follow_value:
  assumes "following c" "getByKeyId (cl_registry c) k = Some e"
  shows "\<exists>c' out. handleFrame who (mk_frame ServerValue k dt v) c = fine c' out \<and> following c'
    \<and> cl_subscriptions c' = cl_subscriptions c
    \<and> cl_mirror c' = (cl_mirror c)\<lparr>mi_vals := (mi_vals (cl_mirror c))(k \<mapsto> v)\<rparr>
    \<and> cl_registry c' = cl_registry c"
proof -
  let ?c = "put_value k v c"
  have p: "cl_registry ?c = cl_registry c" "cl_store ?c = AList.update k v (cl_store c)" "following ?c"
    "cl_subscriptions ?c = cl_subscriptions c" "cl_state ?c = cl_state c"
    using following_cong [of ?c c] assms(1) by (simp_all add: put_value_def)
  obtain c1 where c1: "getTopicInfo ?c k (ke_path e) = (c1, parse_topic_path (ke_path e))"
    "cache_current c1" "cl_registry c1 = cl_registry ?c" "cl_store c1 = cl_store ?c"
    "cl_pendingValues c1 = cl_pendingValues ?c" "cl_subscriptions c1 = cl_subscriptions ?c"
    "cl_reconnect c1 = cl_reconnect ?c" "cl_state c1 = cl_state ?c"
    using getTopicInfo_current [of ?c k e] p(1,3) assms(2) by (auto simp: following_def)
  then have calm1: "following c1" using p(3) by (simp add: following_def)
  obtain c2 out where c2: "deliver (parse_topic_path (ke_path e)) (ke_path e) v c1 = fine c2 out" "same_data c1 c2"
    using deliver_same by blast
  obtain c3 out' where c3: "(if cl_state c2 = CS_Synchronizing then become_ready who c2 else fine c2 []) = fine c3 out'"
    "same_data c2 c3"
    using become_ready_calm [of c2 who] same_data_follows [OF c2(2) calm1]
    by (cases "cl_state c2 = CS_Synchronizing") (auto simp: following_def)
  have "same_data c1 c3" using same_data_trans [OF c2(2) c3(2)] .
  then have d: "following c3" "cl_mirror c3 = cl_mirror c1" "cl_registry c3 = cl_registry c"
    "cl_subscriptions c3 = cl_subscriptions c"
    using same_data_follows [of c1 c3] calm1 c1 p(1,4) by (simp_all add: same_data_def)
  have "handleFrame who (mk_frame ServerValue k dt v) c = fine c3 (out @ out')"
    using assms(2) c1(1) c2(1) c3(1) p(1)
    by (simp add: handleFrame_def mk_frame_def on_ServerValue_def hasKeyId_def getByKeyId_def Let_def)
  moreover have "cl_mirror c3 = (cl_mirror c)\<lparr>mi_vals := (mi_vals (cl_mirror c))(k \<mapsto> v)\<rparr>"
    using d(2) c1(3,4) p(1,2) by (simp add: cl_mirror_def)
  ultimately show ?thesis using d by blast
qed

lemma mirror_delete:
  "mirror_frame m (mk_frame ServerKeyDelete k dt v)
     = m\<lparr>mi_keys := (mi_keys m)(k := None), mi_vals := (mi_vals m)(k := None)\<rparr>"
  by (simp add: mirror_frame_def mk_frame_def)

lemma follow_delete:
  assumes "following c" "getByKeyId (cl_registry c) k = Some e" "parse_topic_path (ke_path e) = None"
  shows "\<exists>c' out. handleFrame who (mk_frame ServerKeyDelete k dt v) c = fine c' out \<and> following c'
    \<and> cl_subscriptions c' = cl_subscriptions c
    \<and> cl_mirror c' = mirror_frame (cl_mirror c) (mk_frame ServerKeyDelete k dt v)
    \<and> kr_size (cl_registry c') \<le> kr_size (cl_registry c)"
proof -
  have cons: "kr_consistent (cl_registry c)" using assms(1) by (simp add: following_def)
  obtain c1 where c1: "getTopicInfo c k (ke_path e) = (c1, None)" "cache_current c1"
    "cl_registry c1 = cl_registry c" "cl_store c1 = cl_store c"
    "cl_pendingValues c1 = cl_pendingValues c" "cl_subscriptions c1 = cl_subscriptions c"
    "cl_reconnect c1 = cl_reconnect c" "cl_state c1 = cl_state c"
    using getTopicInfo_current [of c k e] assms by (auto simp: following_def)
  let ?kr = "fst (removeByKeyId (cl_registry c) k)"
  let ?c' = "c1\<lparr>cl_registry := ?kr, cl_store := AList.delete k (cl_store c),
      cl_topicKeyCache := AList.delete k (cl_topicKeyCache c1)\<rparr>"
  have h: "\<exists>out. handleFrame who (mk_frame ServerKeyDelete k dt v) c = fine ?c' out"
    using assms(2) c1 by (auto simp: handleFrame_def mk_frame_def on_ServerKeyDelete_def Let_def)
  have "cache_current ?c'"
    using c1(2,3) by (auto simp: cache_current_def removeByKeyId_lookup(1) [OF cons] split: if_splits)
  moreover have "kr_maxKeys ?kr = kr_maxKeys (cl_registry c)" "kr_size ?kr \<le> kr_size (cl_registry c)"
    by (auto simp: removeByKeyId_def kr_size_def length_delete_le split: option.split)
  ultimately have "following ?c'" "kr_size (cl_registry ?c') \<le> kr_size (cl_registry c)"
    "cl_subscriptions ?c' = cl_subscriptions c"
    using assms(1) c1 kr_consistent_remove [OF cons] by (simp_all add: following_def)
  moreover have "cl_mirror ?c' = mirror_frame (cl_mirror c) (mk_frame ServerKeyDelete k dt v)"
    by (auto simp: cl_mirror_def removeByKeyId_lookup(1) [OF cons] mirror_delete fun_eq_iff)
  ultimately show ?thesis using h by blast
qed

lemma follow_reset:
  assumes "following c" "cl_subscriptions c = []"
  shows "\<exists>c' out. handleFrame who (mk_frame ServerReset k dt v) c = fine c' out \<and> following c' \<and> cl_mirror c' = empty_mirror
    \<and> cl_subscriptions c' = cl_subscriptions c \<and> kr_size (cl_registry c') = 0"
proof -
  let ?c' = "c\<lparr>cl_registry := kr_clear (cl_registry c), cl_store := [], cl_pendingValues := [],
             cl_topicKeyCache := [], cl_state := CS_Synchronizing\<rparr>"
  have "handleFrame who (mk_frame ServerReset k dt v) c = fine ?c' []"
    by (simp add: handleFrame_def mk_frame_def on_ServerReset_def)
  moreover have "following ?c'" "cl_subscriptions ?c' = cl_subscriptions c"
    using assms by (simp_all add: following_def cache_current_def) (simp add: kr_clear_def)
  moreover have "cl_mirror ?c' = empty_mirror" "kr_size (cl_registry ?c') = 0"
    by (simp_all add: cl_mirror_def empty_mirror_def kr_clear_def getByKeyId_def kr_size_def)
  ultimately show ?thesis by blast
qed

lemma flush_topic_same: "\<exists>c' out. flush_topic name c = fine c' out \<and> same_data c c'"
  by (auto simp: flush_topic_def same_data_def split: option.split)

lemma flush_topics_same: "\<exists>c' out. for_each flush_topic names c = fine c' out \<and> same_data c c'"
proof (induction names arbitrary: c)
  case (Cons name names)
  obtain c1 out1 where 1: "flush_topic name c = fine c1 out1" "same_data c c1"
    using flush_topic_same by blast
  obtain c2 out2 where 2: "for_each flush_topic names c1 = fine c2 out2" "same_data c1 c2"
    using Cons by blast
  have "for_each flush_topic (name # names) c = fine c2 (out1 @ out2)" by (simp add: 1 2)
  then show ?case using same_data_trans [OF 1(2) 2(2)] by blast
qed simp

lemma follow_flush:
  "\<exists>c' out. handleFrame who (mk_frame ServerFlushEnd k dt v) c = fine c' out \<and> same_data c c'"
proof -
  obtain c' out where "for_each flush_topic (map fst (cl_topicHandles c)) c = fine c' out" "same_data c c'"
    using flush_topics_same by blast
  then have "handleFrame who (mk_frame ServerFlushEnd k dt v) c = fine c' (Out_Update # out)" "same_data c c'"
    by (simp_all add: handleFrame_def mk_frame_def on_ServerFlushEnd_def)
  then show ?thesis by blast
qed

section \<open>The client refines the mirror\<close>

text \<open>
  The frames of a well-behaved server, given what it has told before: valid paths, no id and no
  path announced twice for different things, values only for announced ids, deletions only of
  announced keys that do not belong to a topic.
\<close>

definition acceptable :: "mirror \<Rightarrow> frame \<Rightarrow> bool" where
  "acceptable m f =
     (case frameType f of
        ServerKeyRegistration \<Rightarrow>
          (\<exists>p. payload f = PString p \<and> check_key_path p = Inr () \<and>
             ((\<exists>t. mi_keys m (keyId f) = Some (p, t)) \<or>
              mi_keys m (keyId f) = None \<and> (\<forall>k t. mi_keys m k \<noteq> Some (p, t))))
      | ServerValue \<Rightarrow> mi_keys m (keyId f) \<noteq> None
      | ServerKeyDelete \<Rightarrow> (\<exists>p t. mi_keys m (keyId f) = Some (p, t) \<and> parse_topic_path p = None)
      | ft \<Rightarrow> ft \<in> {ServerSync, ServerReset, ServerFlushEnd})"

fun acceptable_all :: "mirror \<Rightarrow> frame list \<Rightarrow> bool" where
  "acceptable_all m [] = True"
| "acceptable_all m (f # fs) = (acceptable m f \<and> acceptable_all (mirror_frame m f) fs)"

definition registrations :: "frame list \<Rightarrow> nat" where
  "registrations fs = length (filter (\<lambda>f. frameType f = ServerKeyRegistration) fs)"

lemma registrations_simps [simp]:
  "registrations [] = 0"
  "registrations (f # fs) = (if frameType f = ServerKeyRegistration then 1 else 0) + registrations fs"
  "registrations (fs @ gs) = registrations fs + registrations gs"
  by (simp_all add: registrations_def)

lemma mirror_key:
  "mi_keys (cl_mirror c) k = Some (p, t) \<longleftrightarrow>
     (\<exists>e. getByKeyId (cl_registry c) k = Some e \<and> ke_path e = p \<and> ke_type e = t)"
  by (auto simp: cl_mirror_def)

lemma mirror_no_key: "mi_keys (cl_mirror c) k = None \<longleftrightarrow> getByKeyId (cl_registry c) k = None"
  by (simp add: cl_mirror_def)

lemma mirror_fits:
  assumes "following c"
    and "(\<exists>t. mi_keys (cl_mirror c) k = Some (p, t)) \<or>
         mi_keys (cl_mirror c) k = None \<and> (\<forall>k t. mi_keys (cl_mirror c) k \<noteq> Some (p, t))"
  shows "fits (cl_registry c) k p"
proof -
  have cons: "kr_consistent (cl_registry c)" using assms(1) by (simp add: following_def)
  show ?thesis
  proof (cases "map_of (kr_pathToId (cl_registry c)) p")
    case None
    have "getByKeyId (cl_registry c) k = None"
    proof (cases "getByKeyId (cl_registry c) k")
      case (Some e)
      then have "ke_path e = p" using assms(2) by (auto simp: mirror_key mirror_no_key)
      then show ?thesis using kr_consistent_entry [OF cons Some] None by simp
    qed
    then show ?thesis using None by (simp add: fits_def)
  next
    case (Some k')
    then obtain e where e: "getByKeyId (cl_registry c) k' = Some e" "ke_path e = p"
      by (rule kr_consistent_path [OF cons])
    then have "mi_keys (cl_mirror c) k' = Some (p, ke_type e)" by (simp add: cl_mirror_def)
    then obtain t where "mi_keys (cl_mirror c) k = Some (p, t)" using assms(2) by blast
    then obtain e' where "getByKeyId (cl_registry c) k = Some e'" "ke_path e' = p"
      by (auto simp: mirror_key)
    then have "map_of (kr_pathToId (cl_registry c)) p = Some k"
      using kr_consistent_entry [OF cons] by blast
    then show ?thesis by (simp add: fits_def)
  qed
qed

lemma follow_frame:
  assumes "following c" "acceptable (cl_mirror c) f" "kr_size (cl_registry c) + registrations [f] \<le> 10000"
    and "cl_subscriptions c = [] \<or> settled (cl_mirror c) f"
  shows "\<exists>c' out. handleFrame who f c = fine c' out \<and> following c' \<and> cl_mirror c' = mirror_frame (cl_mirror c) f
    \<and> cl_subscriptions c' = cl_subscriptions c
    \<and> kr_size (cl_registry c') \<le> kr_size (cl_registry c) + registrations [f]"
proof -
  obtain ft k dt v where f: "f = mk_frame ft k dt v"
    by (cases f) (auto simp: mk_frame_def)
  have sel: "frameType f = ft" "keyId f = k" "payload f = v" "dataType f = dt"
    by (simp_all add: f mk_frame_def)
  consider (reg) p where "ft = ServerKeyRegistration" "v = PString p" "check_key_path p = Inr ()" "fits (cl_registry c) k p"
    | (val) e where "ft = ServerValue" "getByKeyId (cl_registry c) k = Some e"
    | (del) e where "ft = ServerKeyDelete" "getByKeyId (cl_registry c) k = Some e" "parse_topic_path (ke_path e) = None"
    | "ft = ServerSync" | "ft = ServerReset" | "ft = ServerFlushEnd"
    using assms(2) mirror_fits [OF assms(1), of k]
    by (cases ft) (auto simp: acceptable_def sel mirror_key mirror_no_key)
  then show ?thesis
  proof cases
    case reg
    then show ?thesis
      using follow_registration [OF assms(1) reg(3,4), of who dt] assms(3)
      by (auto simp: f mirror_frame_def mk_frame_def)
  next
    case val
    then show ?thesis
      using follow_value [OF assms(1) val(2), of who dt v]
      by (auto simp: f mirror_frame_def mk_frame_def mirror_no_key)
  next
    case del
    then show ?thesis
      using follow_delete [OF assms(1) del(2,3), of who dt v] by (auto simp: f mk_frame_def)
  next
    case 4
    then show ?thesis
      using follow_sync [OF assms(1), of k dt v who] assms(4) by (auto simp: f mirror_frame_def mk_frame_def)
  next
    case 5
    then have "cl_subscriptions c = []" using assms(4) by (simp add: settled_def sel)
    then show ?thesis
      using follow_reset [OF assms(1), of who k dt v] 5 by (auto simp: f mirror_frame_def mk_frame_def)
  next
    case 6
    obtain c' out where "handleFrame who f c = fine c' out" "same_data c c'"
      using follow_flush 6 f by blast
    then show ?thesis
      using 6 same_data_follows [of c c'] assms(1) by (auto simp: f mirror_frame_def mk_frame_def same_data_def)
  qed
qed

fun settled_all :: "mirror \<Rightarrow> frame list \<Rightarrow> bool" where
  "settled_all m [] = True"
| "settled_all m (f # fs) = (settled m f \<and> settled_all (mirror_frame m f) fs)"

lemma follow_frames:
  assumes "calm c" "acceptable_all (cl_mirror c) fs" "kr_size (cl_registry c) + registrations fs \<le> 10000"
  shows "\<exists>c' out. for_each (handleFrame who) fs c = fine c' out \<and> calm c'
    \<and> cl_mirror c' = foldl mirror_frame (cl_mirror c) fs"
  using assms
proof (induction fs arbitrary: c)
  case (Cons f fs)
  obtain c1 out1 where 1: "handleFrame who f c = fine c1 out1" "calm c1"
    "cl_mirror c1 = mirror_frame (cl_mirror c) f"
    "kr_size (cl_registry c1) \<le> kr_size (cl_registry c) + registrations [f]"
    using follow_frame [of c f who] Cons.prems by (auto simp: calm_following)
  obtain c2 out2 where "for_each (handleFrame who) fs c1 = fine c2 out2" "calm c2"
    "cl_mirror c2 = foldl mirror_frame (cl_mirror c1) fs"
    using Cons.IH [of c1] Cons.prems 1 by auto
  then show ?case using 1 by auto
qed simp

section \<open>The frames of a store are acceptable\<close>

fun frames_of :: "fs_out list \<Rightarrow> frame list" where
  "frames_of [] = []"
| "frames_of (Enqueue f # out) = f # frames_of out"
| "frames_of (Resync # out) = frames_of out"

lemma frames_of_append [simp]: "frames_of (out @ out') = frames_of out @ frames_of out'"
  by (induction out rule: frames_of.induct) simp_all

lemma mirror_frames_of: "foldl mirror_frame m (frames_of out) = mirror_out m out"
  by (induction out arbitrary: m rule: frames_of.induct) simp_all

lemma acceptable_append:
  "acceptable_all m (fs @ gs) \<longleftrightarrow> acceptable_all m fs \<and> acceptable_all (foldl mirror_frame m fs) gs"
  by (induction fs arbitrary: m) auto

lemma acceptable_simps [simp]:
  "acceptable m (mk_frame ServerValue k dt v) \<longleftrightarrow> mi_keys m k \<noteq> None"
  "acceptable m (signal ServerSync k)"
  "acceptable m (signal ServerReset k)"
  by (simp_all add: acceptable_def mk_frame_def)

text \<open>Keys that a principal can use without trouble: valid as paths, and not like a topic's.\<close>

definition good_key :: "string \<Rightarrow> bool" where
  "good_key key \<longleftrightarrow> check_key_path key = Inr () \<and> parse_topic_path key = None"

definition good_store :: "flat_state \<Rightarrow> bool" where
  "good_store fs \<longleftrightarrow> fs_wirePrefix fs = [] \<and> (\<forall>key \<in> set (fs_keys fs). good_key key)"

lemma good_store_key: "good_store fs \<Longrightarrow> map_of (fs_entries fs) key = Some e \<Longrightarrow> good_key key"
  by (auto simp: good_store_def fs_keys_def um_dom [symmetric] dom_def)

lemma good_store_set:
  "good_store fs \<Longrightarrow> good_key key \<Longrightarrow> fs_set fs nxt key v = (fs', nxt', out) \<Longrightarrow> good_store fs'"
  by (simp add: good_store_def fs_keys_set)

lemma good_store_drop: "good_store fs \<Longrightarrow> good_store (drop_entry fs e key)"
  by (auto simp: good_store_def fs_keys_def drop_entry_def set_delete_eq)

lemma good_store_clear: "good_store fs \<Longrightarrow> good_store (fst (fs_clear fs key))"
  by (auto simp: fs_clear_def good_store_drop split: option.split)

lemma view_key:
  "fs_wirePrefix fs = [] \<Longrightarrow> mi_keys (view fs) k = Some (p, t) \<longleftrightarrow>
     (\<exists>e. map_of (fs_byKeyId fs) k = Some p \<and> map_of (fs_entries fs) p = Some e \<and> fe_type e = t)"
  by (auto simp: view_def fs_wirePath_def split: option.splits)

lemma view_no_key: "fs_wf fs nxt \<Longrightarrow> nxt \<le> k \<Longrightarrow> mi_keys (view fs) k = None"
  by (simp add: view_def fs_wf_fresh)

lemma acceptable_announce:
  assumes "fs_wf fs nxt" "fs_wirePrefix fs = []" "check_key_path key = Inr ()" "map_of (fs_entries fs) key = None"
  shows "acceptable_all (view fs) (frames_of (announce fs nxt key v))"
proof -
  have "mi_keys (view fs) k \<noteq> Some (key, t)" for k t
    using assms(4) by (simp add: view_key [OF assms(2)])
  then have "acceptable (view fs) (mk_frame ServerKeyRegistration nxt (detectDataType v) (PString key))"
    using assms(3) view_no_key [OF assms(1), of nxt] by (auto simp: acceptable_def mk_frame_def)
  then show ?thesis by (simp add: announce_def fs_wirePath_def assms(2))
qed

lemma acceptable_delete:
  assumes "fs_wf fs nxt" "good_store fs" "map_of (fs_entries fs) key = Some e"
  shows "acceptable (view fs) (signal ServerKeyDelete (fe_keyId e))"
proof -
  have "mi_keys (view fs) (fe_keyId e) = Some (key, fe_type e)"
    using fs_wf_entry(1) [OF assms(1,3)] assms(2,3) by (simp add: view_key good_store_def)
  moreover have "parse_topic_path key = None"
    using good_store_key [OF assms(2,3)] by (simp add: good_key_def)
  ultimately show ?thesis by (auto simp: acceptable_def mk_frame_def)
qed

lemma acceptable_set:
  assumes "fs_wf fs nxt" "good_store fs" "good_key key" "fs_set fs nxt key v = (fs', nxt', out)"
  shows "acceptable_all (view fs) (frames_of out) \<and> registrations (frames_of out) \<le> 1"
proof -
  have pre: "fs_wirePrefix fs = []" and path: "check_key_path key = Inr ()"
    using assms(2,3) by (simp_all add: good_store_def good_key_def)
  have reg: "registrations (frames_of (announce fs nxt key v)) = 1"
    by (simp add: announce_def mk_frame_def)
  show ?thesis
  proof (cases rule: fs_set_cases [of fs key v nxt])
    case (value_only e)
    have "mi_keys (view fs) (fe_keyId e) \<noteq> None"
      using fs_wf_entry(1) [OF assms(1) value_only(1)] value_only(1) by (simp add: view_def)
    then show ?thesis using assms(4) value_only(4) by auto
  next
    case (new_type e)
    have "announce fs = announce (drop_entry fs e key)"
      by (simp add: fun_eq_iff announce_def fs_wirePath_def)
    moreover have "acceptable_all (view (drop_entry fs e key)) (frames_of (announce (drop_entry fs e key) nxt key v))"
      by (rule acceptable_announce [OF fs_wf_drop [OF assms(1) new_type(1)]]) (use pre path in simp_all)
    ultimately show ?thesis
      using assms(4) new_type(4) acceptable_delete [OF assms(1,2) new_type(1)] view_drop [OF assms(1) new_type(1)] reg
      by (auto simp: mk_frame_def mirror_frame_def)
  next
    case new_key
    then show ?thesis
      using assms(4) acceptable_announce [OF assms(1) pre path new_key(1), of v] reg by auto
  qed
qed

lemma acceptable_clear:
  assumes "fs_wf fs nxt" "good_store fs"
  shows "acceptable_all (view fs) (frames_of (snd (fs_clear fs key))) \<and> registrations (frames_of (snd (fs_clear fs key))) = 0"
  using acceptable_delete [OF assms, of key] by (auto simp: fs_clear_def mk_frame_def split: option.split)

text \<open>The condition on the operations: good keys, and values that travel exactly and in one frame.\<close>

definition good_op :: "nat \<Rightarrow> fs_op \<Rightarrow> bool" where
  "good_op n op =
     (case op of
        Set_Key key v \<Rightarrow> good_key key \<and> faithful_value (detectDataType v) v
          \<and> body_length (mk_frame ServerValue 0 (detectDataType v) v) \<le> n
      | Clear_Key key \<Rightarrow> True)"

lemma good_frames:
  assumes "good_op n (Set_Key key v)" "206 \<le> n" "good_store fs" "fs_set fs nxt key v = (fs', nxt', out)"
  shows "list_all (\<lambda>f. transportable f \<and> body_length f \<le> n) (frames_of out)"
proof -
  have path: "length key \<le> 200" and val: "faithful_value (detectDataType v) v"
    "body_length (mk_frame ServerValue 0 (detectDataType v) v) \<le> n"
    using assms(1) by (auto simp: good_op_def good_key_def check_key_path_def MAX_KEY_PATH_BYTES_def split: if_splits)
  have dt: "dt_canonical (detectDataType v)" by (cases v) simp_all
  have sig: "body_length (signal ft k) \<le> n" if "isSignalFrame ft" for ft k
    using that assms(2) signal_not_registration [OF that]
    by (simp add: body_length_def frame_payload_def)
  have vals: "transportable (mk_frame ServerValue k (detectDataType v) v)
      \<and> body_length (mk_frame ServerValue k (detectDataType v) v) \<le> n" for k
    using transportable_value [OF val(1) dt] val(2)
    by (simp add: body_length_def frame_payload_def isKeyRegistrationFrame_def)
  have ann: "list_all (\<lambda>f. transportable f \<and> body_length f \<le> n) (frames_of (announce fs nxt key v))"
    using vals sig [of ServerSync] path assms(2,3) dt
    by (simp add: announce_def fs_wirePath_def good_store_def body_length_def frame_payload_def
        isKeyRegistrationFrame_def)
  show ?thesis
    using assms(4) vals sig [of ServerKeyDelete] ann
    by (cases rule: fs_set_cases [of fs key v nxt]) auto
qed

lemma good_ops_run:
  assumes "fs_wf fs nxt" "good_store fs" "unat nxt + length ops < 2 ^ 32" "list_all (good_op n) ops"
    "acceptable_all m0 (frames_of out)" "mirror_out m0 out = view fs" "206 \<le> n"
    "list_all (\<lambda>f. transportable f \<and> body_length f \<le> n) (frames_of out)"
    "foldl fs_step (fs, nxt, out) ops = (fs', nxt', out')"
  shows "acceptable_all m0 (frames_of out')
    \<and> registrations (frames_of out') \<le> registrations (frames_of out) + length ops
    \<and> list_all (\<lambda>f. transportable f \<and> body_length f \<le> n) (frames_of out') \<and> good_store fs'"
  using assms
proof (induction ops arbitrary: fs nxt out)
  case (Cons op ops)
  have "nxt \<noteq> - 1"
  proof
    assume "nxt = - 1"
    then have "unat nxt = 2 ^ 32 - 1" by (simp add: unsigned_minus_1_eq_mask mask_eq_exp_minus_1)
    with Cons.prems(3) show False by simp
  qed
  note acc = acceptable_append mirror_frames_of Cons.prems(5,6)
  show ?case
  proof (cases op)
    case (Set_Key key v)
    obtain fs1 nxt1 out1 where s: "fs_set fs nxt key v = (fs1, nxt1, out1)"
      by (cases "fs_set fs nxt key v")
    have key: "good_key key" using Cons.prems(4) Set_Key by (simp add: good_op_def)
    note a = acceptable_set [OF Cons.prems(1,2) key s]
    have "acceptable_all m0 (frames_of out')
      \<and> registrations (frames_of out') \<le> registrations (frames_of (out @ out1)) + length ops
      \<and> list_all (\<lambda>f. transportable f \<and> body_length f \<le> n) (frames_of out') \<and> good_store fs'"
    proof (rule Cons.IH)
      show "fs_wf fs1 nxt1" by (rule fs_wf_set [OF Cons.prems(1) \<open>nxt \<noteq> - 1\<close> s])
      show "good_store fs1" by (rule good_store_set [OF Cons.prems(2) key s])
      show "unat nxt1 + length ops < 2 ^ 32" using nxt_grows [OF s \<open>nxt \<noteq> - 1\<close>] Cons.prems(3) by simp
      show "mirror_out m0 (out @ out1) = view fs1"
        using mirror_set [OF Cons.prems(1) s] Cons.prems(6) by simp
      show "acceptable_all m0 (frames_of (out @ out1))" using a by (simp add: acc)
      show "foldl fs_step (fs1, nxt1, out @ out1) ops = (fs', nxt', out')"
        using Cons.prems(9) s Set_Key by (simp add: fs_step_simps)
      show "list_all (\<lambda>f. transportable f \<and> body_length f \<le> n) (frames_of (out @ out1))"
        using good_frames [of n key v fs nxt fs1 nxt1 out1] Cons.prems(2,4,7,8) s Set_Key by simp
    qed (use Cons.prems(4,7) in simp_all)
    then show ?thesis using a by auto
  next
    case (Clear_Key key)
    obtain fs1 out1 where s: "fs_clear fs key = (fs1, out1)" by (cases "fs_clear fs key")
    note a = acceptable_clear [OF Cons.prems(1,2), of key]
    have "acceptable_all m0 (frames_of out')
      \<and> registrations (frames_of out') \<le> registrations (frames_of (out @ out1)) + length ops
      \<and> list_all (\<lambda>f. transportable f \<and> body_length f \<le> n) (frames_of out') \<and> good_store fs'"
    proof (rule Cons.IH)
      show "fs_wf fs1 nxt" using fs_wf_clear [OF Cons.prems(1), of key] s by simp
      show "good_store fs1" using good_store_clear [OF Cons.prems(2), of key] s by simp
      show "unat nxt + length ops < 2 ^ 32" using Cons.prems(3) by simp
      show "mirror_out m0 (out @ out1) = view fs1"
        using mirror_clear [OF Cons.prems(1), of key] s Cons.prems(6) by simp
      show "acceptable_all m0 (frames_of (out @ out1))" using a s by (simp add: acc)
      show "foldl fs_step (fs1, nxt, out @ out1) ops = (fs', nxt', out')"
        using Cons.prems(9) s Clear_Key by (simp add: fs_step_simps)
      show "list_all (\<lambda>f. transportable f \<and> body_length f \<le> n) (frames_of (out @ out1))"
        using Cons.prems(7,8) s
        by (auto simp: fs_clear_def body_length_def frame_payload_def isKeyRegistrationFrame_def split: option.splits)
    qed (use Cons.prems(4,7) in simp_all)
    then show ?thesis using a s by auto
  qed
qed simp

lemma client_entry:
  assumes "kr_consistent (cl_registry c)"
  shows "(\<exists>e. getByPath (cl_registry c) p = Some e \<and> ke_keyId e = k) \<longleftrightarrow> (\<exists>t. mi_keys (cl_mirror c) k = Some (p, t))"
  using registry.by_id_id [OF assms] by (auto simp: getByPath_iff [OF assms] mirror_key)

lemma client_paths:
  assumes cons: "kr_consistent (cl_registry c)"
  shows "set (kr_paths (cl_registry c)) = {p. \<exists>k t. mi_keys (cl_mirror c) k = Some (p, t)}"
proof -
  have "set (kr_paths (cl_registry c)) = {p. \<exists>k. map_of (kr_pathToId (cl_registry c)) p = Some k}"
    by (auto simp: kr_paths_def um_dom [symmetric] dom_def)
  also have "\<dots> = {p. getByPath (cl_registry c) p \<noteq> None}"
    by (auto simp: getByPath_def elim: kr_consistent_path [OF cons] split: option.splits)
      (metis cons getByKeyId_def kr_consistent_path option.discI)
  also have "\<dots> = {p. \<exists>k t. mi_keys (cl_mirror c) k = Some (p, t)}"
    using client_entry [OF cons] by (metis not_Some_eq)
  finally show ?thesis .
qed

text \<open>A client whose mirror shows entries reads them.\<close>

lemma entries_read:
  assumes "kr_consistent (cl_registry c)"
    and "\<And>p k. (\<exists>t. mi_keys (cl_mirror c) k = Some (p, t)) \<longleftrightarrow> (\<exists>e. E p = Some e \<and> fe_keyId e = k)"
    and "\<And>p e. E p = Some e \<Longrightarrow> mi_vals (cl_mirror c) (fe_keyId e) = Some (fe_value e)"
  shows "cl_get c key = (case E key of None \<Rightarrow> PNull | Some e \<Rightarrow> fe_value e)" "set (cl_keys c) = dom E"
proof -
  note entry = client_entry [OF assms(1), unfolded assms(2)]
  show "cl_get c key = (case E key of None \<Rightarrow> PNull | Some e \<Rightarrow> fe_value e)"
  proof (cases "E key")
    case None
    then have "getByPath (cl_registry c) key = None" using entry [of key] by (cases "getByPath (cl_registry c) key") auto
    then show ?thesis using None by (simp add: cl_get_def cl_lookup_def)
  next
    case (Some e)
    then obtain e' where "getByPath (cl_registry c) key = Some e'" "ke_keyId e' = fe_keyId e"
      using entry [of key "fe_keyId e"] by auto
    moreover have "map_of (cl_store c) (fe_keyId e) = Some (fe_value e)"
      using assms(3) [OF Some] by (simp add: cl_mirror_def)
    ultimately show ?thesis using Some by (simp add: cl_get_def cl_lookup_def)
  qed
  show "set (cl_keys c) = dom E" unfolding cl_keys_def client_paths [OF assms(1)] assms(2) by blast
qed

lemma view_shown:
  assumes "fs_wf fs nxt" "fs_wirePrefix fs = []"
  shows "(\<exists>t. mi_keys (view fs) k = Some (p, t)) \<longleftrightarrow> (\<exists>e. map_of (fs_entries fs) p = Some e \<and> fe_keyId e = k)"
    "map_of (fs_entries fs) p = Some e \<Longrightarrow> mi_vals (view fs) (fe_keyId e) = Some (fe_value e)"
  using fs_wf_entry(1) [OF assms(1)] fs_wf_id [OF assms(1)]
  by (metis option.inject view_key [OF assms(2)]) (simp add: view_def fs_getByKeyId_def fs_wf_entry(1) [OF assms(1)])

text \<open>A client whose mirror shows a store reads like the store.\<close>

lemma in_sync_reads:
  assumes "calm c" "cl_mirror c = view fs" "fs_wf fs nxt" "fs_wirePrefix fs = []"
  shows "cl_get c key = fs_get fs key" "set (cl_keys c) = set (fs_keys fs)"
proof -
  have cons: "kr_consistent (cl_registry c)" using assms(1) by (simp add: calm_def)
  note read = entries_read [OF cons, of "map_of (fs_entries fs)", unfolded assms(2), OF view_shown [OF assms(3,4)]]
  show "cl_get c key = fs_get fs key" using read(1) by (simp add: fs_get_def)
  show "set (cl_keys c) = set (fs_keys fs)" using read(2) by (simp add: fs_keys_def um_dom)
qed

section \<open>From the bytes to the store\<close>

lemma on_event_simps [simp]:
  "on_event who now (EvFrame f) c = catching (handleFrame who f c)"
  "on_event who now EvHeartbeat c = fine (c\<lparr>cl_heartbeat := hb_received now (cl_heartbeat c)\<rparr>) []"
  "on_event who now (EvError msg) c = fine c []"
  by (simp_all add: on_event_def)

lemma on_message_simp [simp]:
  "on_message who now data (p, c) = (let (p, evs) = feed p data in keep_parser p (for_each (on_event who now) evs c))"
  by (simp add: on_message_def)

lemma keep_parser_fine [simp]: "keep_parser p (fine c out) = fine (p, c) out"
  by (simp add: keep_parser_def fine_def)

fun event_frames :: "event list \<Rightarrow> frame list" where
  "event_frames [] = []"
| "event_frames (EvFrame f # evs) = f # event_frames evs"
| "event_frames (EvHeartbeat # evs) = event_frames evs"
| "event_frames (EvError msg # evs) = event_frames evs"

lemma event_frames_append [simp]: "event_frames (evs @ evs') = event_frames evs @ event_frames evs'"
  by (induction evs rule: event_frames.induct) simp_all

lemma event_frames_wire: "event_frames (wire_events segs) = concat (map fst segs)"
proof -
  have "event_frames (map EvFrame fs) = fs" for fs by (induction fs) simp_all
  then show ?thesis by (induction segs) auto
qed

lemma events_followed:
  assumes "following c" "acceptable_all (cl_mirror c) (event_frames evs)"
    "kr_size (cl_registry c) + registrations (event_frames evs) \<le> 10000"
    "cl_subscriptions c = [] \<or> settled_all (cl_mirror c) (event_frames evs)"
  shows "\<exists>c' out. for_each (on_event who now) evs c = fine c' out \<and> following c'
    \<and> cl_mirror c' = foldl mirror_frame (cl_mirror c) (event_frames evs)
    \<and> cl_subscriptions c' = cl_subscriptions c
    \<and> kr_size (cl_registry c') \<le> kr_size (cl_registry c) + registrations (event_frames evs)"
  using assms
proof (induction evs arbitrary: c rule: event_frames.induct)
  case (2 f evs)
  obtain c1 out1 where 1: "handleFrame who f c = fine c1 out1" "following c1"
    "cl_mirror c1 = mirror_frame (cl_mirror c) f" "cl_subscriptions c1 = cl_subscriptions c"
    "kr_size (cl_registry c1) \<le> kr_size (cl_registry c) + registrations [f]"
    using follow_frame [of c f who] 2 by auto
  obtain c2 out2 where "for_each (on_event who now) evs c1 = fine c2 out2" "following c2"
    "cl_mirror c2 = foldl mirror_frame (cl_mirror c1) (event_frames evs)" "cl_subscriptions c2 = cl_subscriptions c1"
    "kr_size (cl_registry c2) \<le> kr_size (cl_registry c1) + registrations (event_frames evs)"
    using 2(1) [of c1] 2(2-) 1 by auto
  then show ?case using 1 by auto
next
  case (3 evs)
  let ?c = "c\<lparr>cl_heartbeat := hb_received now (cl_heartbeat c)\<rparr>"
  have "following ?c" "cl_mirror ?c = cl_mirror c"
    using 3(2) following_cong [of ?c c] cl_mirror_cong [of ?c c] by simp_all
  then show ?case using 3(1) [of ?c] 3(3-) by auto
next
  case (4 msg evs)
  then show ?case by auto
qed simp

lemma follow_events:
  assumes "calm c" "acceptable_all (cl_mirror c) (event_frames evs)"
    "kr_size (cl_registry c) + registrations (event_frames evs) \<le> 10000"
  shows "\<exists>c' out. for_each (on_event who now) evs c = fine c' out \<and> calm c'
    \<and> cl_mirror c' = foldl mirror_frame (cl_mirror c) (event_frames evs)
    \<and> kr_size (cl_registry c') \<le> kr_size (cl_registry c) + registrations (event_frames evs)"
  using events_followed [of c evs who now] assms by (auto simp: calm_following)

lemma on_messages:
  assumes "feed_chunks p chunks = (p', evs)" "for_each (on_event who now) evs c = fine c' out"
  shows "for_each (on_message who now) chunks (p, c) = fine (p', c') out"
  using assms
proof (induction chunks arbitrary: p evs c out)
  case (Cons chunk chunks)
  obtain p1 evs1 p2 evs2 where f: "feed p chunk = (p1, evs1)" "feed_chunks p1 chunks = (p2, evs2)"
    by (cases "feed p chunk", cases "feed_chunks (fst (feed p chunk)) chunks") auto
  with Cons.prems have evs: "evs = evs1 @ evs2" "p' = p2" by auto
  then obtain c1 out1 out2 where c: "for_each (on_event who now) evs1 c = fine c1 out1"
    "for_each (on_event who now) evs2 c1 = fine c' out2" "out = out1 @ out2"
    using Cons.prems(2) by (auto simp: for_each_append elim: and_then_fine)
  then have "for_each (on_message who now) chunks (p1, c1) = fine (p2, c') out2"
    using Cons.IH [of p1 evs2 c1 out2] f(2) evs(2) by simp
  then show ?case using f c evs by simp
qed simp

lemma fs_run_new:
  assumes "length ops \<le> 10000" "list_all (good_op n) ops" "206 \<le> n"
    and "foldl fs_step (new_flat_state [], 1, []) ops = (fs, nxt, out)"
  shows "acceptable_all empty_mirror (frames_of out)" "registrations (frames_of out) \<le> 10000"
    "list_all (\<lambda>f. transportable f \<and> body_length f \<le> n) (frames_of out)" "good_store fs"
    "fs_wf fs nxt" "foldl mirror_frame empty_mirror (frames_of out) = view fs"
proof -
  have empty: "mirror_out empty_mirror [] = view (new_flat_state [])"
    by (simp add: view_def new_flat_state_def empty_mirror_def fs_getByKeyId_def)
  have good: "good_store (new_flat_state [])"
    by (simp add: good_store_def new_flat_state_def fs_keys_def)
  have len: "unat (1 :: u32) + length ops < 2 ^ 32" using assms(1) by simp
  show "acceptable_all empty_mirror (frames_of out)" "registrations (frames_of out) \<le> 10000"
    "list_all (\<lambda>f. transportable f \<and> body_length f \<le> n) (frames_of out)" "good_store fs"
    using good_ops_run [OF fs_wf_new good len assms(2) _ empty assms(3) _ assms(4)] assms(1) by auto
  show "fs_wf fs nxt" "foldl mirror_frame empty_mirror (frames_of out) = view fs"
    using fs_run [OF fs_wf_new len empty assms(4)] by (simp_all add: mirror_frames_of)
qed

section \<open>Properties\<close>

text \<open>C8. From the server's store to the client's: after any sequence of at most 10000 sets and clears
  of good keys, when the bytes of all frames, with heartbeats between them wherever they like, arrive
  cut into any messages, a new client handles every one of them without an exception and then
  reads for every key what the store holds, and lists exactly the keys of the store.\<close>

theorem client_reads_what_server_set:
  assumes "length ops \<le> 10000" and "list_all (good_op 1048576) ops"
    and "foldl fs_step (new_flat_state [], 1, []) ops = (fs, nxt, out)"
    and "concat (map fst segs) = frames_of out" and "wire_image segs = Inr bs" and "concat chunks = bs"
  shows "\<exists>c out'. for_each (on_message who now) chunks (new_whole_client uuid url opt) = fine (default_parser, c) out'
    \<and> (\<forall>key. cl_get c key = fs_get fs key) \<and> set (cl_keys c) = set (fs_keys fs)"
proof -
  have lim: "206 \<le> (1048576 :: nat)" by simp
  note run = fs_run_new [OF assms(1,2) lim assms(3)]
  have "list_all (\<lambda>(fs, _). list_all (\<lambda>f. transportable f \<and> body_length f \<le> 1048576) fs) segs"
    using run(3) by (auto simp: assms(4) [symmetric] list_all_iff)
  then have parse: "feed_chunks default_parser chunks = (default_parser, wire_events segs)"
    unfolding feed_chunks_concat default_parser_def
    using assms(5,6) feed_wire_image [of "new_parser 1048576" segs bs] by (simp add: new_parser_def)
  let ?c = "new_client uuid url opt"
  obtain c out' where c: "for_each (on_event who now) (wire_events segs) ?c = fine c out'" "calm c"
    "cl_mirror c = view fs"
    using follow_events [of ?c "wire_events segs" who now] run(1,2,6)
    by (auto simp: mirror_new event_frames_wire assms(4)) (auto simp: new_client_def new_registry_def kr_size_def)
  have "fs_wirePrefix fs = []" using run(4) by (simp add: good_store_def)
  then show ?thesis
    using on_messages [OF parse c(1)] in_sync_reads [OF c(2,3) run(5)]
    unfolding new_whole_client_def by blast
qed

theorem client_reads_what_server_set_witness:
  "\<exists>out c out'. foldl fs_step (new_flat_state [], 1, []) [Set_Key ''a'' (PBool True), Clear_Key ''a'', Set_Key ''b'' (PInt32 7)]
      = (add_entry (drop_entry (add_entry (new_flat_state []) 1 ''a'' (PBool True)) (mk_fs_entry 1 DT_Bool (PBool True)) ''a'') 2 ''b'' (PInt32 7), 3, out)
    \<and> (\<exists>bs. wire_image [(frames_of out, True)] = Inr bs
        \<and> for_each (on_message Io_Thread 0) (map (\<lambda>b. [b]) bs) (new_whole_client ''u'' ''w'' default_reconnect) = fine (default_parser, c) out')
    \<and> cl_get c ''b'' = PInt32 7 \<and> cl_get c ''a'' = PNull"
proof -
  let ?ops = "[Set_Key ''a'' (PBool True), Clear_Key ''a'', Set_Key ''b'' (PInt32 7)]"
  let ?fs = "add_entry (drop_entry (add_entry (new_flat_state []) 1 ''a'' (PBool True)) (mk_fs_entry 1 DT_Bool (PBool True)) ''a'') 2 ''b'' (PInt32 7)"
  obtain out where run: "foldl fs_step (new_flat_state [], 1, []) ?ops = (?fs, 3, out)"
  proof -
    have "fst (foldl fs_step (new_flat_state [], 1, []) ?ops) = ?fs"
      "fst (snd (foldl fs_step (new_flat_state [], 1, []) ?ops)) = 3"
      by code_simp+
    then show thesis using that by (metis prod.collapse)
  qed
  have keys: "good_key ''a''" "good_key ''b''" by code_simp+
  have good: "list_all (good_op 1048576) ?ops"
    using faithful_detected [of "PBool True"] faithful_detected [of "PInt32 7"] keys
    by (simp add: good_op_def body_length_def frame_payload_def isKeyRegistrationFrame_def serializeVarInteger_def
        order_trans [OF encodeVarInt_length(2)])
  have "case wire_image [(frames_of (snd (snd (foldl fs_step (new_flat_state [], 1, []) ?ops))), True)] of
      Inr _ \<Rightarrow> True | Inl _ \<Rightarrow> False"
    by code_simp
  then obtain bs where bs: "wire_image [(frames_of out, True)] = Inr bs"
    unfolding run by (auto split: sum.splits)
  have cut: "concat (map (\<lambda>b. [b]) bs) = bs" for bs :: bytes by (induction bs) simp_all
  from client_reads_what_server_set [OF _ good run _ bs cut, of Io_Thread 0 "''u''" "''w''" default_reconnect]
  obtain c out' where c: "for_each (on_message Io_Thread 0) (map (\<lambda>b. [b]) bs) (new_whole_client ''u'' ''w'' default_reconnect)
      = fine (default_parser, c) out'" "\<forall>key. cl_get c key = fs_get ?fs key" by auto
  have "fs_get ?fs ''b'' = PInt32 7" "fs_get ?fs ''a'' = PNull"
    by (simp_all add: fs_get_def)
  then show ?thesis using run bs c by metis
qed

end
