(* ===== verification/Server.thy ===== *)
theory Server
  imports Session Sequencing
begin

text \<open>
  \<open>api/server.cpp\<close> and the interfaces of \<open>api/server_transport.h\<close>. An \<open>InternalSession\<close> is
  shared between the session tables, the principal index and the callbacks of its parts, so the
  model keeps them in a store under addresses, and the tables hold addresses. Nothing is ever
  freed in the store, as in the code: every \<open>InternalSession\<close> is kept alive by the send function of its
  own session. A connection is a number; its record holds what the closures of \<open>handleConnection\<close>
  share (parser, identified flag, uuid), whether the transport has it open, and whether its
  callbacks are attached. Frame counts are unbounded integers.

  The transport and the user's callbacks are a parameter, \<open>env\<close>: whether closing a socket runs
  its close callback before \<open>close\<close> returns, and for each registered callback the calls it makes,
  given what it is called with. Callbacks may set and clear data, and throw; an authorization
  callback may authorize and reject.
\<close>

section \<open>State\<close>

datatype server_mode = Broadcast | Principal | SessionTopic | SessionPrincipalTopic

record internal =
  in_session :: session
  in_ws :: "nat option"
  in_flushTo :: nat
  in_heartbeat :: heartbeat
  in_heartbeatTo :: nat
  in_provider :: string
  in_clientRegistry :: "key_registry option"
  in_clientValues :: "(u32, payload) umap"
  in_frameCount :: int
  in_windowStart :: int

record conn =
  cn_open :: bool
  cn_attached :: bool
  cn_parser :: stream_parser
  cn_identified :: bool
  cn_uuid :: string

record server =
  sv_mode :: server_mode
  sv_ttlMs :: int
  sv_authEnabled :: bool
  sv_authTimeoutMs :: int
  sv_maxConnections :: int
  sv_maxFramesPerSec :: int
  sv_framesIn :: int
  sv_framesOut :: int
  sv_principals :: principal_manager
  sv_internals :: "nat \<Rightarrow> internal"
  sv_next :: nat
  sv_sessions :: "(string, nat) umap"
  sv_tmpSessions :: "(string, nat) umap"
  sv_principalIndex :: "(string, nat list) umap"
  sv_conns :: "nat \<Rightarrow> conn"

datatype server_out =
    Sv_Send nat bytes
  | Sv_Close nat
  | Sv_Connection string
  | Sv_AuthRequest string string
  | Sv_Ready string
  | Sv_Disconnect string
  | Sv_Subscribe string string
  | Sv_Unsubscribe string string
  | Sv_Stop

type_synonym sres = "(server, server_out) seq_res"

datatype hook_call =
    HC_Set string payload
  | HC_ClearKey string
  | HC_ClearAll
  | HC_TopicSet string string payload
  | HC_PrincipalSet string string payload
  | HC_PrincipalClear string
  | HC_Throw

datatype auth_call = AC_Authorize string string string | AC_Reject string string

record env =
  env_sync_close :: bool
  env_onConnection :: "(session \<Rightarrow> hook_call list) list"
  env_onAuthorize :: "(string \<Rightarrow> string \<Rightarrow> auth_call list) list"
  env_onSubscribe :: "(session \<Rightarrow> topic_handle \<Rightarrow> hook_call list) list"
  env_onUnsubscribe :: "(session \<Rightarrow> topic_handle \<Rightarrow> hook_call list) list"

text \<open>Registration of the user's callbacks, with the server and with its topic namespace.\<close>

definition sv_onConnection :: "(session \<Rightarrow> hook_call list) \<Rightarrow> env \<Rightarrow> env" where
  "sv_onConnection cb env = env\<lparr>env_onConnection := env_onConnection env @ [cb]\<rparr>"

definition sv_onAuthorize :: "(string \<Rightarrow> string \<Rightarrow> auth_call list) \<Rightarrow> env \<Rightarrow> env" where
  "sv_onAuthorize cb env = env\<lparr>env_onAuthorize := env_onAuthorize env @ [cb]\<rparr>"

definition topic_onSubscribe :: "(session \<Rightarrow> topic_handle \<Rightarrow> hook_call list) \<Rightarrow> env \<Rightarrow> env" where
  "topic_onSubscribe cb env = env\<lparr>env_onSubscribe := env_onSubscribe env @ [cb]\<rparr>"

definition topic_onUnsubscribe :: "(session \<Rightarrow> topic_handle \<Rightarrow> hook_call list) \<Rightarrow> env \<Rightarrow> env" where
  "topic_onUnsubscribe cb env = env\<lparr>env_onUnsubscribe := env_onUnsubscribe env @ [cb]\<rparr>"

definition BROADCAST_PRINCIPAL :: string where "BROADCAST_PRINCIPAL = ''__broadcast__''"

definition new_internal :: "session \<Rightarrow> nat \<Rightarrow> int \<Rightarrow> internal" where
  "new_internal ss w now =
     \<lparr>in_session = ss, in_ws = Some w, in_flushTo = w, in_heartbeat = new_heartbeat,
      in_heartbeatTo = w, in_provider = [], in_clientRegistry = None, in_clientValues = [],
      in_frameCount = 0, in_windowStart = now\<rparr>"

definition no_conn :: conn where
  "no_conn = \<lparr>cn_open = False, cn_attached = False, cn_parser = default_parser,
     cn_identified = False, cn_uuid = []\<rparr>"

definition new_server :: "server_mode \<Rightarrow> int \<Rightarrow> server" where
  "new_server mode ttlMs =
     \<lparr>sv_mode = mode, sv_ttlMs = ttlMs, sv_authEnabled = False, sv_authTimeoutMs = 5000,
      sv_maxConnections = 0, sv_maxFramesPerSec = 0, sv_framesIn = 0, sv_framesOut = 0,
      sv_principals = new_principal_manager, sv_internals = (\<lambda>_. new_internal (new_session []) 0 0),
      sv_next = 0, sv_sessions = [], sv_tmpSessions = [], sv_principalIndex = [], sv_conns = (\<lambda>_. no_conn)\<rparr>"

definition isTopicMode :: "server \<Rightarrow> bool" where
  "isTopicMode sv \<longleftrightarrow> sv_mode sv = SessionTopic \<or> sv_mode sv = SessionPrincipalTopic"

definition assertMode :: "string \<Rightarrow> string \<Rightarrow> server \<Rightarrow> unit res" where
  "assertMode expected method sv =
     (if expected = ''broadcast'' \<and> sv_mode sv = Broadcast
         \<or> expected = ''principal'' \<and> (sv_mode sv = Principal \<or> sv_mode sv = SessionPrincipalTopic)
      then Inr ()
      else Inl (DanWSError ''INVALID_MODE''
             (''server.'' @ method @ ''() is only available in '' @ expected @ '' mode.'')))"

definition bytesToUuid :: "bytes \<Rightarrow> string" where
  "bytesToUuid bs =
     (if length bs < 16 then []
      else concat (map (\<lambda>i. (if i = 4 \<or> i = 6 \<or> i = 8 \<or> i = 10 then ''-'' else []) @ show_hex2 (bs ! i)) [0..<16]))"

definition internal_at :: "server \<Rightarrow> nat \<Rightarrow> internal" where
  "internal_at sv i = sv_internals sv i"

definition session_at :: "server \<Rightarrow> nat \<Rightarrow> session" where
  "session_at sv i = in_session (sv_internals sv i)"

definition upd_internal :: "nat \<Rightarrow> (internal \<Rightarrow> internal) \<Rightarrow> server \<Rightarrow> server" where
  "upd_internal i f sv = sv\<lparr>sv_internals := (sv_internals sv)(i := f (sv_internals sv i))\<rparr>"

definition put_session :: "nat \<Rightarrow> session \<Rightarrow> server \<Rightarrow> server" where
  "put_session i ss sv = upd_internal i (\<lambda>n. n\<lparr>in_session := ss\<rparr>) sv"

definition upd_conn :: "nat \<Rightarrow> (conn \<Rightarrow> conn) \<Rightarrow> server \<Rightarrow> server" where
  "upd_conn w f sv = sv\<lparr>sv_conns := (sv_conns sv)(w := f (sv_conns sv w))\<rparr>"

definition conn_open :: "server \<Rightarrow> nat \<Rightarrow> bool" where
  "conn_open sv w = cn_open (sv_conns sv w)"

text \<open>\<open>internal->ws && internal->ws->isOpen()\<close>.\<close>

definition ws_is_open :: "server \<Rightarrow> nat \<Rightarrow> bool" where
  "ws_is_open sv i = (case in_ws (sv_internals sv i) of None \<Rightarrow> False | Some w \<Rightarrow> conn_open sv w)"

section \<open>Sending\<close>

definition sv_enqueue :: "nat \<Rightarrow> frame \<Rightarrow> server \<Rightarrow> sres" where
  "sv_enqueue i f sv =
     run_res sv (encode f) (\<lambda>data.
       let w = in_flushTo (sv_internals sv i)
       in fine sv (if conn_open sv w then [Sv_Send w data] else []))"

definition sv_sendFrame :: "nat \<Rightarrow> frame \<Rightarrow> server \<Rightarrow> sres" where
  "sv_sendFrame i f sv =
     (case in_ws (sv_internals sv i) of
        None \<Rightarrow> fine sv []
      | Some w \<Rightarrow>
          if conn_open sv w
          then let sv = sv\<lparr>sv_framesOut := sv_framesOut sv + 1\<rparr>
               in run_res sv (encode f) (\<lambda>data. fine sv [Sv_Send w data])
          else fine sv [])"

text \<open>What a session puts out: frames go to its queue, the rest to the user.\<close>

definition run_sess_out :: "nat \<Rightarrow> sess_out list \<Rightarrow> server \<Rightarrow> sres" where
  "run_sess_out i out sv =
     for_each (\<lambda>ev sv. case ev of
         S_Frame f \<Rightarrow> sv_enqueue i f sv
       | S_Ready \<Rightarrow> fine sv [Sv_Ready (ss_id (session_at sv i))]
       | S_Disconnected \<Rightarrow> fine sv [Sv_Disconnect (ss_id (session_at sv i))]) out sv"

section \<open>Principals\<close>

text \<open>The two callbacks that \<open>bindPrincipalTX\<close> installs.\<close>

definition index_of :: "server \<Rightarrow> string \<Rightarrow> nat list" where
  "index_of sv p = (case map_of (sv_principalIndex sv) p of None \<Rightarrow> [] | Some is \<Rightarrow> is)"

definition ptx_onValue :: "string \<Rightarrow> frame \<Rightarrow> server \<Rightarrow> sres" where
  "ptx_onValue p f sv =
     for_each (\<lambda>i sv. if ss_state (session_at sv i) = SS_Ready \<and> ws_is_open sv i
                      then sv_enqueue i f sv else fine sv []) (index_of sv p) sv"

definition ptx_onResync :: "string \<Rightarrow> server \<Rightarrow> sres" where
  "ptx_onResync p sv =
     (let (pm, pt) = pm_principal (sv_principals sv) p;
          (keyFrames, pt) = pt_buildKeyFrames pt;
          sv = sv\<lparr>sv_principals := pm_store pm p pt\<rparr>
      in for_each (\<lambda>i sv. if ss_connected (session_at sv i) \<and> ws_is_open sv i
                          then for_each (sv_enqueue i) (signal ServerReset 0 # keyFrames) sv
                          else fine sv []) (index_of sv p) sv)"

text \<open>An operation on a principal. Its callbacks are bound unless the server is in a topic mode.\<close>

definition principal_op :: "string \<Rightarrow> (principal_tx \<Rightarrow> principal_tx \<times> fs_out list) \<Rightarrow> server \<Rightarrow> sres" where
  "principal_op p f sv =
     (let (pm, pt) = pm_principal (sv_principals sv) p;
          (pt, out) = f pt;
          sv = sv\<lparr>sv_principals := pm_store pm p pt\<rparr>
      in if isTopicMode sv then fine sv []
         else for_each (\<lambda>ev. case ev of Enqueue fr \<Rightarrow> ptx_onValue p fr | Resync \<Rightarrow> ptx_onResync p) out sv)"

definition check_principal_mode :: "server \<Rightarrow> unit res" where
  "check_principal_mode sv =
     (if sv_mode sv \<noteq> Principal \<and> sv_mode sv \<noteq> SessionPrincipalTopic
      then Inl (DanWSError ''INVALID_MODE''
             ''server.principal() is only available in principal/session_principal_topic mode.'')
      else Inr ())"

definition sv_principal_op :: "string \<Rightarrow> (principal_tx \<Rightarrow> principal_tx \<times> fs_out list) \<Rightarrow> server \<Rightarrow> sres" where
  "sv_principal_op p f sv = run_res sv (check_principal_mode sv) (\<lambda>_. principal_op p f sv)"

definition sv_set :: "string \<Rightarrow> payload \<Rightarrow> server \<Rightarrow> sres" where
  "sv_set key v sv = run_res sv (assertMode ''broadcast'' ''set'' sv) (\<lambda>_.
     principal_op BROADCAST_PRINCIPAL (\<lambda>pt. pt_set pt key v) sv)"

definition sv_clear_all :: "server \<Rightarrow> sres" where
  "sv_clear_all sv = run_res sv (assertMode ''broadcast'' ''clear'' sv) (\<lambda>_.
     principal_op BROADCAST_PRINCIPAL pt_clear_all sv)"

definition sv_clear :: "string \<Rightarrow> server \<Rightarrow> sres" where
  "sv_clear key sv = run_res sv (assertMode ''broadcast'' ''clear'' sv) (\<lambda>_.
     principal_op BROADCAST_PRINCIPAL (\<lambda>pt. pt_clear pt key) sv)"

text \<open>Reading creates the principal if need be.\<close>

definition sv_get :: "string \<Rightarrow> server \<Rightarrow> server \<times> payload" where
  "sv_get key sv =
     (if sv_mode sv \<noteq> Broadcast then (sv, PNull)
      else let (pm, pt) = pm_principal (sv_principals sv) BROADCAST_PRINCIPAL
           in (sv\<lparr>sv_principals := pm\<rparr>, pt_get pt key))"

definition sv_keys :: "server \<Rightarrow> server \<times> string list" where
  "sv_keys sv =
     (if sv_mode sv \<noteq> Broadcast then (sv, [])
      else let (pm, pt) = pm_principal (sv_principals sv) BROADCAST_PRINCIPAL
           in (sv\<lparr>sv_principals := pm\<rparr>, pt_keys pt))"

section \<open>User callbacks\<close>

definition run_call :: "nat \<Rightarrow> hook_call \<Rightarrow> server \<Rightarrow> sres" where
  "run_call i call sv =
     (let ss = session_at sv i
      in case call of
           HC_Set key v \<Rightarrow> run_res sv (ss_set ss key v) (\<lambda>(ss, out). run_sess_out i out (put_session i ss sv))
         | HC_ClearKey key \<Rightarrow> (let (ss, out) = ss_clearKey ss key in run_sess_out i out (put_session i ss sv))
         | HC_ClearAll \<Rightarrow> (let (ss, out) = ss_clearAll ss in run_sess_out i out (put_session i ss sv))
         | HC_TopicSet name key v \<Rightarrow>
             (let (ss, out) = ss_topic_set ss name key v in run_sess_out i out (put_session i ss sv))
         | HC_PrincipalSet p key v \<Rightarrow> sv_principal_op p (\<lambda>pt. pt_set pt key v) sv
         | HC_PrincipalClear p \<Rightarrow> sv_principal_op p pt_clear_all sv
         | HC_Throw \<Rightarrow> (sv, [], Some Invalid_Argument))"

text \<open>\<open>for (cb : cbs) try { cb(session, \<dots>); } catch (...) {}\<close>.\<close>

definition run_callbacks :: "nat \<Rightarrow> (session \<Rightarrow> hook_call list) list \<Rightarrow> server \<Rightarrow> sres" where
  "run_callbacks i cbs sv =
     for_each (\<lambda>cb sv. catching (for_each (run_call i) (cb (session_at sv i)) sv)) cbs sv"

section \<open>Index management\<close>

definition indexAddSession :: "string \<Rightarrow> nat \<Rightarrow> server \<Rightarrow> server" where
  "indexAddSession p i sv =
     sv\<lparr>sv_principalIndex := AList.update p (List.insert i (index_of sv p)) (sv_principalIndex sv)\<rparr>"

definition indexRemoveSession :: "string \<Rightarrow> nat \<Rightarrow> server \<Rightarrow> server" where
  "indexRemoveSession p i sv =
     (case map_of (sv_principalIndex sv) p of
        None \<Rightarrow> sv
      | Some is \<Rightarrow>
          let is = removeAll i is
          in sv\<lparr>sv_principalIndex :=
               (if is = [] then AList.delete p (sv_principalIndex sv)
                else AList.update p is (sv_principalIndex sv))\<rparr>)"

section \<open>Ending a session\<close>

text \<open>The calling thread: the heartbeat thread of a session, or another one.\<close>

type_synonym caller_thread = "nat option"

definition stop_hb :: "caller_thread \<Rightarrow> nat \<Rightarrow> server \<Rightarrow> sres" where
  "stop_hb thr i sv =
     run_res sv (hb_stop (thr = Some i) (in_heartbeat (sv_internals sv i))) (\<lambda>hb.
       fine (upd_internal i (\<lambda>n. n\<lparr>in_heartbeat := hb\<rparr>) sv) [])"

text \<open>\<open>session->_disposeAllTopicHandles()\<close>, \<open>session->_handleDisconnect()\<close>, \<open>heartbeat.stop()\<close>.\<close>

definition shut_session :: "caller_thread \<Rightarrow> nat \<Rightarrow> server \<Rightarrow> sres" where
  "shut_session thr i sv =
     run_res sv (ss_disposeAllTopicHandles (session_at sv i)) (\<lambda>ss.
       let (ss, out) = ss_handleDisconnect ss
       in and_then (run_sess_out i out (put_session i ss sv)) (stop_hb thr i))"

definition effectivePrincipal :: "server \<Rightarrow> string \<Rightarrow> string" where
  "effectivePrincipal sv p = (if sv_mode sv = Broadcast then BROADCAST_PRINCIPAL else p)"

definition handleSessionDisconnect :: "caller_thread \<Rightarrow> string \<Rightarrow> server \<Rightarrow> sres" where
  "handleSessionDisconnect thr uuid sv =
     (case map_of (sv_sessions sv) uuid of
        None \<Rightarrow>
          (case map_of (sv_tmpSessions sv) uuid of
             None \<Rightarrow> fine sv []
           | Some i \<Rightarrow>
               and_then (stop_hb thr i sv) (\<lambda>sv.
                 fine (sv\<lparr>sv_tmpSessions := AList.delete uuid (sv_tmpSessions sv)\<rparr>) []))
      | Some i \<Rightarrow>
          if \<not> ss_connected (session_at sv i) then fine sv []
          else
            and_then (shut_session thr i sv) (\<lambda>sv.
              let sv = upd_internal i (\<lambda>n. n\<lparr>in_ws := None\<rparr>) sv;
                  p = ss_principal (session_at sv i);
                  sv = (if p \<noteq> [] \<and> \<not> isTopicMode sv
                        then let sv = indexRemoveSession (effectivePrincipal sv p) i sv
                             in sv\<lparr>sv_principals := fst (pm_removeSession (sv_principals sv) (effectivePrincipal sv p))\<rparr>
                        else sv)
              in fine (sv\<lparr>sv_sessions := AList.delete uuid (sv_sessions sv)\<rparr>) []))"

text \<open>The transport's close callback, which runs once, and \<open>ws->close()\<close>.\<close>

definition on_ws_close :: "nat \<Rightarrow> server \<Rightarrow> sres" where
  "on_ws_close w sv =
     (let c = sv_conns sv w; sv = upd_conn w (\<lambda>c. c\<lparr>cn_open := False, cn_attached := False\<rparr>) sv
      in if cn_attached c \<and> cn_uuid c \<noteq> [] then handleSessionDisconnect None (cn_uuid c) sv
         else fine sv [])"

definition ws_close :: "env \<Rightarrow> nat \<Rightarrow> server \<Rightarrow> sres" where
  "ws_close env w sv =
     (let was_open = conn_open sv w; sv = upd_conn w (\<lambda>c. c\<lparr>cn_open := False\<rparr>) sv
      in and_then (fine sv [Sv_Close w]) (\<lambda>sv.
           if was_open \<and> env_sync_close env then on_ws_close w sv else fine sv []))"

section \<open>Starting a session\<close>

definition start_hb :: "int \<Rightarrow> nat \<Rightarrow> server \<Rightarrow> sres" where
  "start_hb now i sv =
     run_res sv (hb_start False now (in_heartbeat (sv_internals sv i))) (\<lambda>hb.
       fine (upd_internal i (\<lambda>n. n\<lparr>in_heartbeat := hb\<rparr>) sv) [])"

definition announce_session :: "env \<Rightarrow> nat \<Rightarrow> server \<Rightarrow> sres" where
  "announce_session env i sv =
     and_then (fine sv [Sv_Connection (ss_id (session_at sv i))]) (run_callbacks i (env_onConnection env))"

text \<open>\<open>_startSync\<close> with the providers of the principal that the session captured.\<close>

definition start_sync :: "nat \<Rightarrow> server \<Rightarrow> sres" where
  "start_sync i sv =
     (let p = in_provider (sv_internals sv i);
          (pm, pt) = pm_principal (sv_principals sv) p;
          (ss, pt, out) = ss_startSync (session_at sv i) pt
      in run_sess_out i out (put_session i ss (sv\<lparr>sv_principals := pm_store pm p pt\<rparr>)))"

definition activateSession :: "env \<Rightarrow> nat \<Rightarrow> string \<Rightarrow> server \<Rightarrow> sres" where
  "activateSession env i pname sv =
     (if isTopicMode sv
      then
        and_then (announce_session env i (put_session i (ss_bindSessionTX (session_at sv i)) sv))
          (sv_enqueue i (signal ServerSync 0))
      else
        let p = effectivePrincipal sv pname;
            (pm, pt) = pm_principal (sv_principals sv) p;
            sv = indexAddSession p i (sv\<lparr>sv_principals := pm_addSession pm p\<rparr>);
            sv = upd_internal i (\<lambda>n. n\<lparr>in_provider := p, in_session := ss_setTxProviders (in_session n)\<rparr>) sv
        in and_then (announce_session env i sv) (start_sync i))"

definition default_principal :: "server \<Rightarrow> string" where
  "default_principal sv = (if sv_mode sv = Broadcast then BROADCAST_PRINCIPAL else ''default'')"

definition resume_session :: "env \<Rightarrow> nat \<Rightarrow> string \<Rightarrow> nat \<Rightarrow> server \<Rightarrow> sres" where
  "resume_session env w uuid i sv =
     (let sv = upd_internal i (\<lambda>n. n\<lparr>in_flushTo := w\<rparr>) sv
      in if sv_authEnabled sv
         then fine (sv\<lparr>sv_tmpSessions := AList.update uuid i (sv_tmpSessions sv),
                       sv_sessions := AList.delete uuid (sv_sessions sv)\<rparr>) []
         else
           let p = ss_principal (session_at sv i);
               p = (if p = [] then default_principal sv else p)
           in activateSession env i p (put_session i (ss_authorize (session_at sv i) p) sv))"

text \<open>
  A client that comes back: \<open>existing\<close> is a reference into \<open>sessions_\<close>, so that the rest is undefined
  once closing the old socket has removed the entry.
\<close>

definition reconnect_session :: "env \<Rightarrow> nat \<Rightarrow> string \<Rightarrow> int \<Rightarrow> nat \<Rightarrow> server \<Rightarrow> sres" where
  "reconnect_session env w uuid now i sv =
     and_then
       (case in_ws (sv_internals sv i) of
          Some w' \<Rightarrow> if conn_open sv w' then catching (ws_close env w' sv) else fine sv []
        | None \<Rightarrow> fine sv []) (\<lambda>sv.
     if map_of (sv_sessions sv) uuid = None then (sv, [], Some Undefined)
     else
       let sv = upd_internal i (\<lambda>n. n\<lparr>in_ws := Some w, in_session := ss_handleReconnect (in_session n)\<rparr>) sv
       in and_then (start_hb now i sv) (resume_session env w uuid i))"

definition create_session :: "env \<Rightarrow> nat \<Rightarrow> string \<Rightarrow> int \<Rightarrow> server \<Rightarrow> sres" where
  "create_session env w uuid now sv =
     (let i = sv_next sv;
          sv = upd_internal i (\<lambda>_. new_internal (ss_setEnqueue (new_session uuid)) w now) (sv\<lparr>sv_next := i + 1\<rparr>)
      in and_then (start_hb now i sv) (\<lambda>sv.
         if sv_authEnabled sv
         then fine (sv\<lparr>sv_tmpSessions := AList.update uuid i (sv_tmpSessions sv)\<rparr>) []
         else
           let p = default_principal sv;
               sv = put_session i (ss_authorize (session_at sv i) p) sv
           in activateSession env i p (sv\<lparr>sv_sessions := AList.update uuid i (sv_sessions sv)\<rparr>)))"

definition handleIdentified :: "env \<Rightarrow> nat \<Rightarrow> string \<Rightarrow> int \<Rightarrow> server \<Rightarrow> sres" where
  "handleIdentified env w uuid now sv =
     (let total = int (length (sv_sessions sv)) + int (length (sv_tmpSessions sv))
      in if 0 < sv_maxConnections sv \<and> map_of (sv_sessions sv) uuid = None \<and> sv_maxConnections sv \<le> total
         then ws_close env w sv
         else case map_of (sv_sessions sv) uuid of
                Some i \<Rightarrow> reconnect_session env w uuid now i sv
              | None \<Rightarrow> create_session env w uuid now sv)"

section \<open>Authorization\<close>

definition sv_authorize :: "env \<Rightarrow> string \<Rightarrow> string \<Rightarrow> string \<Rightarrow> server \<Rightarrow> sres" where
  "sv_authorize env uuid token pname sv =
     (if pname = []
      then (sv, [], Some (DanWSError ''INVALID_PRINCIPAL''
              ''authorize(): principal must not be empty. Call reject() to deny.''))
      else case map_of (sv_tmpSessions sv) uuid of
             None \<Rightarrow> fine sv []
           | Some i \<Rightarrow>
               let sv = sv\<lparr>sv_tmpSessions := AList.delete uuid (sv_tmpSessions sv)\<rparr>;
                   sv = put_session i (ss_authorize (session_at sv i) pname) sv
               in and_then (sv_sendFrame i (signal AuthOk 0) sv) (\<lambda>sv.
                  activateSession env i pname (sv\<lparr>sv_sessions := AList.update uuid i (sv_sessions sv)\<rparr>)))"

definition sv_reject :: "env \<Rightarrow> string \<Rightarrow> string \<Rightarrow> server \<Rightarrow> sres" where
  "sv_reject env uuid reason sv =
     (case map_of (sv_tmpSessions sv) uuid of
        None \<Rightarrow> fine sv []
      | Some i \<Rightarrow>
          let sv = sv\<lparr>sv_tmpSessions := AList.delete uuid (sv_tmpSessions sv)\<rparr>
          in and_then (sv_sendFrame i (mk_frame AuthFail 0 DT_String (PString reason)) sv) (\<lambda>sv.
             case in_ws (sv_internals sv i) of
               None \<Rightarrow> fine sv []
             | Some w \<Rightarrow> catching (ws_close env w sv)))"

definition run_auth_call :: "env \<Rightarrow> auth_call \<Rightarrow> server \<Rightarrow> sres" where
  "run_auth_call env call sv =
     (case call of
        AC_Authorize uuid token pname \<Rightarrow> sv_authorize env uuid token pname sv
      | AC_Reject uuid reason \<Rightarrow> sv_reject env uuid reason sv)"

section \<open>Topics\<close>

text \<open>Differences of \<open>size_t\<close>, which wrap around.\<close>

definition size_diff :: "nat \<Rightarrow> nat \<Rightarrow> nat" where
  "size_diff a b = (if b \<le> a then a - b else 2 ^ 64 - (b - a))"

text \<open>What the loop over the paths has collected: \<open>newTopics\<close>, \<open>nameToIndex\<close>, \<open>indexToName\<close>.\<close>

record parsed_topics =
  pa_topics :: "(string \<times> (string \<times> payload) list) list"
  pa_nameToIndex :: "(string \<times> int) list"
  pa_indexToName :: "(string \<times> string) list"

definition no_topics :: parsed_topics where
  "no_topics = \<lparr>pa_topics = [], pa_nameToIndex = [], pa_indexToName = []\<rparr>"

definition params_of :: "parsed_topics \<Rightarrow> string \<Rightarrow> (string \<times> payload) list" where
  "params_of pa name = (case map_of (pa_topics pa) name of None \<Rightarrow> [] | Some ps \<Rightarrow> ps)"

definition parse_name :: "string \<Rightarrow> payload option \<Rightarrow> parsed_topics \<Rightarrow> parsed_topics res" where
  "parse_name idxStr v pa =
     (case v of
        Some (PString name) \<Rightarrow>
          if name = [] then Inr pa
          else rbind (stoi idxStr) (\<lambda>i.
            Inr (pa\<lparr>pa_indexToName := om_put idxStr name (pa_indexToName pa),
                    pa_nameToIndex := om_put name i (pa_nameToIndex pa),
                    pa_topics := (if map_of (pa_topics pa) name = None
                                  then om_put name [] (pa_topics pa) else pa_topics pa)\<rparr>))
      | _ \<Rightarrow> Inr pa)"

definition parse_param :: "string \<Rightarrow> string \<Rightarrow> payload option \<Rightarrow> parsed_topics \<Rightarrow> parsed_topics" where
  "parse_param idxStr paramKey v pa =
     (case (map_of (pa_indexToName pa) idxStr, v) of
        (Some name, Some v) \<Rightarrow>
          pa\<lparr>pa_topics := om_put name (om_put paramKey v (params_of pa name)) (pa_topics pa)\<rparr>
      | _ \<Rightarrow> pa)"

definition parse_path :: "key_registry \<Rightarrow> (u32, payload) umap \<Rightarrow> string \<Rightarrow> parsed_topics \<Rightarrow> parsed_topics res" where
  "parse_path kr vals path pa =
     (case getByPath kr path of
        None \<Rightarrow> Inr pa
      | Some e \<Rightarrow>
          let v = map_of vals (ke_keyId e)
          in if is_prefix_of ''topic.'' path \<and> 6 < length path
                \<and> str_rfind ''.name'' path = Some (length path - 5)
             then parse_name (substr path 6 (size_diff (length path - 5) 6)) v pa
             else if is_prefix_of ''topic.'' path
             then (case str_find ''.param.'' path of
                     None \<Rightarrow> Inr pa
                   | Some n \<Rightarrow> Inr (parse_param (substr path 6 (size_diff n 6)) (drop (n + 7) path) v pa))
             else Inr pa)"

definition parse_topics :: "key_registry option \<Rightarrow> (u32, payload) umap \<Rightarrow> parsed_topics res" where
  "parse_topics reg vals =
     (case reg of
        None \<Rightarrow> Inr no_topics
      | Some kr \<Rightarrow> rfold (parse_path kr vals) (kr_paths kr) no_topics)"

definition drop_topic :: "env \<Rightarrow> nat \<Rightarrow> string \<Rightarrow> server \<Rightarrow> sres" where
  "drop_topic env i name sv =
     and_then
       (case ss_getTopicHandle (session_at sv i) name of
          None \<Rightarrow> fine sv []
        | Some h \<Rightarrow>
            and_then (fine sv [Sv_Unsubscribe (ss_id (session_at sv i)) name])
              (run_callbacks i (map (\<lambda>cb ss. cb ss (the (ss_getTopicHandle ss name))) (env_onUnsubscribe env)))) (\<lambda>sv.
     run_res sv (ss_removeTopicHandle (session_at sv i) name) (\<lambda>(ss, out).
       run_sess_out i out (put_session i ss sv)))"

definition add_topic :: "env \<Rightarrow> nat \<Rightarrow> (string \<times> int) list \<Rightarrow> string \<times> (string \<times> payload) list \<Rightarrow> server \<Rightarrow> sres" where
  "add_topic env i nameToIndex topic sv =
     (let (name, params) = topic; ss = session_at sv i
      in if ss_getTopicHandle ss name \<noteq> None then fine sv []
         else
           let idx = (case map_of nameToIndex name of Some k \<Rightarrow> k | None \<Rightarrow> ss_topicIndex ss)
           in run_res sv (ss_createTopicHandle ss name params idx) (\<lambda>ss.
              and_then (fine (put_session i ss sv) [Sv_Subscribe (ss_id ss) name])
                (run_callbacks i (map (\<lambda>cb ss. cb ss (the (ss_getTopicHandle ss name))) (env_onSubscribe env)))))"

definition processTopicSync :: "env \<Rightarrow> nat \<Rightarrow> server \<Rightarrow> sres" where
  "processTopicSync env i sv =
     (let n = sv_internals sv i
      in run_res sv (parse_topics (in_clientRegistry n) (in_clientValues n)) (\<lambda>pa.
         and_then
           (for_each (\<lambda>name sv. if map_of (pa_topics pa) name = None then drop_topic env i name sv else fine sv [])
              (ss_topics (session_at sv i)) sv)
           (for_each (add_topic env i (pa_nameToIndex pa)) (pa_topics pa))))"

definition handleClientTopicFrame :: "env \<Rightarrow> nat \<Rightarrow> frame \<Rightarrow> server \<Rightarrow> sres" where
  "handleClientTopicFrame env i f sv =
     (case frameType f of
        ClientReset \<Rightarrow>
          fine (upd_internal i (\<lambda>n. n\<lparr>in_clientRegistry := Some (new_registry 10000), in_clientValues := []\<rparr>) sv) []
      | ClientKeyRegistration \<Rightarrow>
          let kr = (case in_clientRegistry (sv_internals sv i) of None \<Rightarrow> new_registry 10000 | Some kr \<Rightarrow> kr);
              sv = upd_internal i (\<lambda>n. n\<lparr>in_clientRegistry := Some kr\<rparr>) sv
          in (case payload f of
                PString path \<Rightarrow>
                  run_res sv (registerOne kr (keyId f) path (dataType f)) (\<lambda>kr.
                    fine (upd_internal i (\<lambda>n. n\<lparr>in_clientRegistry := Some kr\<rparr>) sv) [])
              | _ \<Rightarrow> fine sv [])
      | ClientValue \<Rightarrow>
          fine (upd_internal i (\<lambda>n. n\<lparr>in_clientValues := AList.update (keyId f) (payload f) (in_clientValues n)\<rparr>) sv) []
      | ClientSync \<Rightarrow> processTopicSync env i sv
      | _ \<Rightarrow> fine sv [])"

section \<open>Connections\<close>

definition handleConnection :: "nat \<Rightarrow> server \<Rightarrow> server" where
  "handleConnection w sv =
     upd_conn w (\<lambda>_. no_conn\<lparr>cn_open := True, cn_attached := True\<rparr>) sv"

text \<open>The session a frame counts for, if it is known under the connection's uuid.\<close>

definition find_internal :: "string \<Rightarrow> server \<Rightarrow> nat option" where
  "find_internal uuid sv =
     (case map_of (sv_sessions sv) uuid of
        Some i \<Rightarrow> Some i
      | None \<Rightarrow> map_of (sv_tmpSessions sv) uuid)"

definition count_frame :: "int \<Rightarrow> internal \<Rightarrow> internal" where
  "count_frame now n =
     (let n = (if 1000 \<le> to_ms (now - in_windowStart n) then n\<lparr>in_frameCount := 0, in_windowStart := now\<rparr> else n)
      in n\<lparr>in_frameCount := in_frameCount n + 1\<rparr>)"

text \<open>The new state, and whether the frame is over the limit.\<close>

definition rate_limit :: "string \<Rightarrow> int \<Rightarrow> server \<Rightarrow> server \<times> bool" where
  "rate_limit uuid now sv =
     (if 0 < sv_maxFramesPerSec sv \<and> uuid \<noteq> []
      then case find_internal uuid sv of
             None \<Rightarrow> (sv, False)
           | Some i \<Rightarrow>
               let sv = upd_internal i (count_frame now) sv
               in (sv, sv_maxFramesPerSec sv < in_frameCount (sv_internals sv i))
      else (sv, False))"

text \<open>The checks of the first frame: the bytes of an acceptable identification.\<close>

definition identify_bytes :: "frame \<Rightarrow> bytes option" where
  "identify_bytes f =
     (if frameType f \<noteq> Identify then None
      else case payload f of
             PBinary bs \<Rightarrow>
               if length bs \<noteq> 16 \<and> length bs \<noteq> 18 then None
               else if length bs = 18 \<and> bs ! 16 \<noteq> 3 then None
               else Some bs
           | _ \<Rightarrow> None)"

definition route_frame :: "nat \<Rightarrow> frame \<Rightarrow> server \<Rightarrow> sres" where
  "route_frame i f sv =
     (let p = in_provider (sv_internals sv i);
          (pm, pt) = (if ss_txProvider (session_at sv i) then pm_principal (sv_principals sv) p
                      else (sv_principals sv, new_principal_tx p));
          (ss, pt, out) = ss_handleFrame (session_at sv i) pt f;
          sv = (if ss_txProvider (session_at sv i) then sv\<lparr>sv_principals := pm_store pm p pt\<rparr> else sv)
      in run_sess_out i out (put_session i ss sv))"

definition is_topic_frame :: "frame_type \<Rightarrow> bool" where
  "is_topic_frame ft \<longleftrightarrow> ft \<in> {ClientReset, ClientKeyRegistration, ClientValue, ClientSync}"

definition on_frame :: "env \<Rightarrow> nat \<Rightarrow> int \<Rightarrow> frame \<Rightarrow> server \<Rightarrow> sres" where
  "on_frame env w now f sv =
     (let sv = sv\<lparr>sv_framesIn := sv_framesIn sv + 1\<rparr>;
          uuid = cn_uuid (sv_conns sv w);
          (sv, limited) = rate_limit uuid now sv
      in if limited then ws_close env w sv
         else if \<not> cn_identified (sv_conns sv w)
         then (case identify_bytes f of
                 None \<Rightarrow> ws_close env w sv
               | Some bs \<Rightarrow>
                   handleIdentified env w (bytesToUuid bs) now
                     (upd_conn w (\<lambda>c. c\<lparr>cn_uuid := bytesToUuid bs, cn_identified := True\<rparr>) sv))
         else if frameType f = Auth
         then (if map_of (sv_tmpSessions sv) uuid \<noteq> None \<and> sv_authEnabled sv
               then let token = (case payload f of PString t \<Rightarrow> t | _ \<Rightarrow> [])
                    in and_then (fine sv [Sv_AuthRequest uuid token])
                         (for_each (\<lambda>cb sv. catching (for_each (run_auth_call env) (cb uuid token) sv)) (env_onAuthorize env))
               else fine sv [])
         else case map_of (sv_sessions sv) uuid of
                None \<Rightarrow> fine sv []
              | Some i \<Rightarrow>
                  if isTopicMode sv \<and> is_topic_frame (frameType f)
                  then handleClientTopicFrame env i f sv
                  else route_frame i f sv)"

definition on_peer_heartbeat :: "nat \<Rightarrow> int \<Rightarrow> server \<Rightarrow> server" where
  "on_peer_heartbeat w now sv =
     (case find_internal (cn_uuid (sv_conns sv w)) sv of
        None \<Rightarrow> sv
      | Some i \<Rightarrow> upd_internal i (\<lambda>n. n\<lparr>in_heartbeat := hb_received now (in_heartbeat n)\<rparr>) sv)"

definition sv_event :: "env \<Rightarrow> nat \<Rightarrow> int \<Rightarrow> event \<Rightarrow> server \<Rightarrow> sres" where
  "sv_event env w now ev sv =
     (case ev of
        EvFrame f \<Rightarrow> catching (on_frame env w now f sv)
      | EvHeartbeat \<Rightarrow> fine (on_peer_heartbeat w now sv) []
      | EvError msg \<Rightarrow> fine sv [])"

definition sv_on_message :: "env \<Rightarrow> nat \<Rightarrow> int \<Rightarrow> bytes \<Rightarrow> server \<Rightarrow> sres" where
  "sv_on_message env w now data sv =
     (let (p, evs) = feed (cn_parser (sv_conns sv w)) data
      in for_each (sv_event env w now) evs (upd_conn w (\<lambda>c. c\<lparr>cn_parser := p\<rparr>) sv))"

text \<open>A round of a session's heartbeat thread. An exception that leaves the thread ends the process.\<close>

definition sv_heartbeat_tick :: "nat \<Rightarrow> int \<Rightarrow> server \<Rightarrow> sres" where
  "sv_heartbeat_tick i now sv =
     (let (hb, evs) = hb_tick now (in_heartbeat (sv_internals sv i));
          sv = upd_internal i (\<lambda>n. n\<lparr>in_heartbeat := hb\<rparr>) sv
      in case for_each (\<lambda>ev sv. case ev of
               HB_Send data \<Rightarrow>
                 (let w = in_heartbeatTo (sv_internals sv i)
                  in fine sv (if conn_open sv w then [Sv_Send w data] else []))
             | HB_Timeout \<Rightarrow> handleSessionDisconnect (Some i) (ss_id (session_at sv i)) sv) evs sv of
           (sv, out, Some e) \<Rightarrow> (sv, out, Some (if catchable e then Terminate else e))
         | r \<Rightarrow> r)"

section \<open>The rest of the interface\<close>

definition close_internal :: "nat \<Rightarrow> server \<Rightarrow> sres" where
  "close_internal i sv =
     and_then (shut_session None i sv) (\<lambda>sv.
       case in_ws (sv_internals sv i) of
         None \<Rightarrow> fine sv []
       | Some w \<Rightarrow>
           fine (upd_internal i (\<lambda>n. n\<lparr>in_ws := None\<rparr>)
                   (upd_conn w (\<lambda>c. c\<lparr>cn_attached := False, cn_open := False\<rparr>) sv)) [Sv_Close w])"

definition sv_close :: "server \<Rightarrow> sres" where
  "sv_close sv =
     (let all = map snd (sv_sessions sv) @ map snd (sv_tmpSessions sv);
          sv = sv\<lparr>sv_sessions := [], sv_tmpSessions := [], sv_principalIndex := []\<rparr>
      in and_then (for_each close_internal all sv) (\<lambda>sv. fine sv [Sv_Stop]))"

text \<open>The destructor: an exception that leaves it ends the process.\<close>

definition sv_destroy :: "server \<Rightarrow> sres" where
  "sv_destroy sv =
     (case sv_close sv of
        (sv, out, Some e) \<Rightarrow> (sv, out, Some (if catchable e then Terminate else e))
      | r \<Rightarrow> r)"

definition sv_setMaxConnections :: "int \<Rightarrow> server \<Rightarrow> server" where
  [simp]: "sv_setMaxConnections n sv = sv\<lparr>sv_maxConnections := n\<rparr>"

definition sv_setMaxFramesPerSec :: "int \<Rightarrow> server \<Rightarrow> server" where
  [simp]: "sv_setMaxFramesPerSec n sv = sv\<lparr>sv_maxFramesPerSec := n\<rparr>"

definition getSession :: "server \<Rightarrow> string \<Rightarrow> session option" where
  "getSession sv uuid = map_option (session_at sv) (map_of (sv_sessions sv) uuid)"

definition isConnected :: "server \<Rightarrow> string \<Rightarrow> bool" where
  "isConnected sv uuid = (case map_of (sv_sessions sv) uuid of None \<Rightarrow> False | Some i \<Rightarrow> ss_connected (session_at sv i))"

record metrics =
  activeSessions :: nat
  pendingSessions :: nat
  principalCount :: nat
  framesIn :: int
  framesOut :: int

definition sv_metrics :: "server \<Rightarrow> metrics" where
  "sv_metrics sv =
     \<lparr>activeSessions = length (sv_sessions sv), pendingSessions = length (sv_tmpSessions sv),
      principalCount = pm_size (sv_principals sv), framesIn = sv_framesIn sv, framesOut = sv_framesOut sv\<rparr>"

text \<open>Everything that can happen to a server. Times are clock readings of the step.\<close>

datatype server_input =
    SI_Connect nat
  | SI_Message nat bytes
  | SI_Closed nat
  | SI_Heartbeat nat
  | SI_Authorize string string string
  | SI_Reject string string
  | SI_Set string payload
  | SI_Clear string
  | SI_ClearAll
  | SI_PrincipalSet string string payload
  | SI_PrincipalClear string string
  | SI_PrincipalClearAll string
  | SI_SessionCall string hook_call
  | SI_EnableAuthorization bool int
  | SI_SetMaxConnections int
  | SI_SetMaxFramesPerSec int
  | SI_CloseServer

definition server_step :: "env \<Rightarrow> int \<Rightarrow> server_input \<Rightarrow> server \<Rightarrow> sres" where
  "server_step env now inp sv =
     (case inp of
        SI_Connect w \<Rightarrow> fine (handleConnection w sv) []
      | SI_Message w data \<Rightarrow>
          if cn_attached (sv_conns sv w) \<and> conn_open sv w then sv_on_message env w now data sv else fine sv []
      | SI_Closed w \<Rightarrow> on_ws_close w sv
      | SI_Heartbeat i \<Rightarrow> if i < sv_next sv then sv_heartbeat_tick i now sv else fine sv []
      | SI_Authorize uuid token pname \<Rightarrow> sv_authorize env uuid token pname sv
      | SI_Reject uuid reason \<Rightarrow> sv_reject env uuid reason sv
      | SI_Set key v \<Rightarrow> sv_set key v sv
      | SI_Clear key \<Rightarrow> sv_clear key sv
      | SI_ClearAll \<Rightarrow> sv_clear_all sv
      | SI_PrincipalSet p key v \<Rightarrow> sv_principal_op p (\<lambda>pt. pt_set pt key v) sv
      | SI_PrincipalClear p key \<Rightarrow> sv_principal_op p (\<lambda>pt. pt_clear pt key) sv
      | SI_PrincipalClearAll p \<Rightarrow> sv_principal_op p pt_clear_all sv
      | SI_SessionCall uuid call \<Rightarrow>
          (case map_of (sv_sessions sv) uuid of None \<Rightarrow> fine sv [] | Some i \<Rightarrow> run_call i call sv)
      | SI_EnableAuthorization enabled timeoutMs \<Rightarrow>
          fine (sv\<lparr>sv_authEnabled := enabled, sv_authTimeoutMs := timeoutMs\<rparr>) []
      | SI_SetMaxConnections n \<Rightarrow> fine (sv_setMaxConnections n sv) []
      | SI_SetMaxFramesPerSec n \<Rightarrow> fine (sv_setMaxFramesPerSec n sv) []
      | SI_CloseServer \<Rightarrow> sv_close sv)"

fun server_run :: "env \<Rightarrow> (int \<times> server_input) list \<Rightarrow> server \<Rightarrow> sres" where
  "server_run env [] sv = fine sv []"
| "server_run env ((now, inp) # ins) sv = and_then (server_step env now inp sv) (server_run env ins)"

end
