(* ===== verification/Server_Data.thy ===== *)
theory Server_Data
  imports Client_Sync Server
begin

text \<open>
  From the server's interface to the client's: what is set through the server reaches every client
  that is ready. The lemmas follow an operation on a principal through the callbacks that the
  server installs, to the bytes that one connection is sent; the client's side is \<open>Client_Sync\<close>.
\<close>

section \<open>What an operation sends\<close>

text \<open>The sessions that are sent the values of their principal.\<close>

definition receives :: "server \<Rightarrow> nat \<Rightarrow> bool" where
  "receives sv i \<longleftrightarrow> ss_state (session_at sv i) = SS_Ready \<and> ws_is_open sv i
     \<and> conn_open sv (in_flushTo (sv_internals sv i))"

definition deliveries :: "server \<Rightarrow> nat list \<Rightarrow> bytes \<Rightarrow> server_out list" where
  "deliveries sv is data = map (\<lambda>i. Sv_Send (in_flushTo (sv_internals sv i)) data) (filter (receives sv) is)"

definition bytes_to :: "nat \<Rightarrow> server_out list \<Rightarrow> bytes" where
  "bytes_to w out = concat (map (\<lambda>ev. case ev of Sv_Send w' data \<Rightarrow> if w' = w then data else [] | _ \<Rightarrow> []) out)"

lemma bytes_to_append [simp]: "bytes_to w (out @ out') = bytes_to w out @ bytes_to w out'"
  by (simp add: bytes_to_def)

lemma bytes_to_Nil [simp]: "bytes_to w [] = []"
  by (simp add: bytes_to_def)

lemma onValue_delivers:
  assumes "encode f = Inr data"
  shows "ptx_onValue p f sv = fine sv (deliveries sv (index_of sv p) data)"
proof -
  let ?send = "\<lambda>i sv. if ss_state (session_at sv i) = SS_Ready \<and> ws_is_open sv i then sv_enqueue i f sv else fine sv []"
  have one: "?send i sv = fine sv (deliveries sv [i] data)" for i
    using assms by (simp add: deliveries_def receives_def sv_enqueue_def run_res_def Let_def)
  have "for_each ?send is sv = fine sv (deliveries sv is data)" for "is"
  proof (induction "is")
    case (Cons i "is")
    have "for_each ?send (i # is) sv = and_then (?send i sv) (for_each ?send is)" by simp
    also have "\<dots> = fine sv (deliveries sv [i] data @ deliveries sv is data)"
      unfolding one by (simp add: Cons)
    finally show ?case by (simp add: deliveries_def)
  qed (simp add: deliveries_def)
  then show ?thesis by (simp add: ptx_onValue_def)
qed

text \<open>The frames of an operation, one after the other, to the principal's sessions.\<close>

lemma outputs_deliver:
  assumes "list_all transportable fs" "encodeBatch fs = Inr bs"
    and one: "\<And>data. bytes_to w (deliveries sv (index_of sv p) data) = data"
  shows "\<exists>out. for_each (\<lambda>ev. case ev of Enqueue fr \<Rightarrow> ptx_onValue p fr | Resync \<Rightarrow> ptx_onResync p) (map Enqueue fs) sv
      = fine sv out \<and> bytes_to w out = bs"
  using assms(1,2)
proof (induction fs arbitrary: bs)
  case (Cons f fs)
  then obtain b bs' where b: "encode f = Inr b" "encodeBatch fs = Inr bs'" "bs = b @ bs'"
    by (auto simp: encodeBatch_Cons rbind_eq_Inr)
  then obtain out where "for_each (\<lambda>ev. case ev of Enqueue fr \<Rightarrow> ptx_onValue p fr | Resync \<Rightarrow> ptx_onResync p) (map Enqueue fs) sv
      = fine sv out" "bytes_to w out = bs'"
    using Cons by auto
  then show ?case using onValue_delivers [OF b(1), of p sv] one [of b] b(3) by simp
qed simp

section \<open>The sessions of a principal\<close>

text \<open>Connection \<open>w\<close> belongs to exactly one of the sessions of principal \<open>p\<close> that receive its values.\<close>

definition served :: "server \<Rightarrow> string \<Rightarrow> principal_tx \<Rightarrow> nat \<Rightarrow> bool" where
  "served sv p pt w \<longleftrightarrow> map_of (pm_principals (sv_principals sv)) p = Some pt
     \<and> length (filter (\<lambda>i. receives sv i \<and> in_flushTo (sv_internals sv i) = w) (index_of sv p)) = 1"

lemma served_once:
  assumes "served sv p pt w"
  shows "bytes_to w (deliveries sv (index_of sv p) data) = data"
proof -
  have "bytes_to w (deliveries sv is data)
      = concat (map (\<lambda>_. data) (filter (\<lambda>i. receives sv i \<and> in_flushTo (sv_internals sv i) = w) is))" for "is"
    by (induction "is") (auto simp: bytes_to_def deliveries_def)
  moreover obtain i where "filter (\<lambda>i. receives sv i \<and> in_flushTo (sv_internals sv i) = w) (index_of sv p) = [i]"
    using assms by (auto simp: served_def length_Suc_conv)
  ultimately show ?thesis by simp
qed

text \<open>The two modes in which a principal's data is offered, and the calls of the server's user.\<close>

definition offers :: "server \<Rightarrow> string \<Rightarrow> bool" where
  "offers sv p \<longleftrightarrow> sv_mode sv = Broadcast \<and> p = BROADCAST_PRINCIPAL \<or> sv_mode sv = Principal"

definition op_input :: "server_mode \<Rightarrow> string \<Rightarrow> fs_op \<Rightarrow> server_input" where
  "op_input mode p op =
     (case op of
        Set_Key key v \<Rightarrow> if mode = Broadcast then SI_Set key v else SI_PrincipalSet p key v
      | Clear_Key key \<Rightarrow> if mode = Broadcast then SI_Clear key else SI_PrincipalClear p key)"

definition pt_apply :: "fs_op \<Rightarrow> principal_tx \<Rightarrow> principal_tx \<times> fs_out list" where
  "pt_apply op pt = (case op of Set_Key key v \<Rightarrow> pt_set pt key v | Clear_Key key \<Rightarrow> pt_clear pt key)"

lemma offered_input:
  assumes "offers sv p"
  shows "server_step env now (op_input (sv_mode sv) p op) sv = principal_op p (pt_apply op) sv"
proof -
  have b: "assertMode ''broadcast'' m sv = Inr ()" if "sv_mode sv = Broadcast" for m
    using that by (simp add: assertMode_def)
  show ?thesis
    using assms b
    by (cases op)
      (auto simp: offers_def op_input_def server_step_def sv_set_def sv_clear_def sv_principal_op_def
        check_principal_mode_def run_res_def pt_apply_def [abs_def])
qed

lemma pt_apply_step:
  assumes "fs_step (pt_flatState pt, pt_nextKeyId pt, []) op = (fs', nxt', out)"
  shows "pt_apply op pt = (pt\<lparr>pt_flatState := fs', pt_nextKeyId := nxt'\<rparr>, out)"
  using assms by (cases op) (auto simp: pt_apply_def fs_step_def pt_set_def pt_clear_def split: prod.splits)

lemma step_enqueues:
  assumes "fs_step (fs, nxt, []) op = (fs', nxt', out)"
  shows "out = map Enqueue (frames_of out)"
proof (cases op)
  case (Set_Key key v)
  then have "fs_set fs nxt key v = (fs', nxt', out)" using assms by (simp add: fs_step_def split: prod.splits)
  then show ?thesis by (cases rule: fs_set_cases [of fs key v nxt]) (auto simp: announce_def)
next
  case (Clear_Key key)
  then have "fs_clear fs key = (fs', out)" using assms by (simp add: fs_step_def split: prod.splits)
  then show ?thesis by (auto simp: fs_clear_def split: option.splits)
qed

lemma store_principal_same [simp]:
  "session_at (sv\<lparr>sv_principals := pm\<rparr>) i = session_at sv i"
  "index_of (sv\<lparr>sv_principals := pm\<rparr>) p = index_of sv p"
  "receives (sv\<lparr>sv_principals := pm\<rparr>) i = receives sv i"
  by (simp_all add: session_at_def index_of_def receives_def ws_is_open_def conn_open_def cong: option.case_cong)

lemma served_step:
  assumes s: "served sv p pt w" and o: "offers sv p"
    and step: "fs_step (pt_flatState pt, pt_nextKeyId pt, []) op = (fs', nxt', out)"
    and tr: "list_all transportable (frames_of out)" "encodeBatch (frames_of out) = Inr bs"
  shows "\<exists>sv' o'. server_step env now (op_input (sv_mode sv) p op) sv = fine sv' o'
    \<and> bytes_to w o' = bs \<and> sv_mode sv' = sv_mode sv
    \<and> served sv' p (pt\<lparr>pt_flatState := fs', pt_nextKeyId := nxt'\<rparr>) w"
proof -
  let ?pt = "pt\<lparr>pt_flatState := fs', pt_nextKeyId := nxt'\<rparr>"
  let ?sv = "sv\<lparr>sv_principals := pm_store (sv_principals sv) p ?pt\<rparr>"
  have "pm_principal (sv_principals sv) p = (sv_principals sv, pt)"
    using s by (simp add: served_def pm_principal_def)
  moreover have "\<not> isTopicMode sv" using o by (auto simp: offers_def isTopicMode_def)
  ultimately have op: "principal_op p (pt_apply op) sv
      = for_each (\<lambda>ev. case ev of Enqueue fr \<Rightarrow> ptx_onValue p fr | Resync \<Rightarrow> ptx_onResync p) (map Enqueue (frames_of out)) ?sv"
    using pt_apply_step [OF step] step_enqueues [OF step]
    by (simp add: principal_op_def isTopicMode_def)
  have s': "served ?sv p ?pt w" using s by (simp add: served_def pm_store_def)
  obtain o' where "principal_op p (pt_apply op) sv = fine ?sv o'" "bytes_to w o' = bs"
    using outputs_deliver [OF tr, where sv = ?sv and p = p and w = w] served_once [OF s'] unfolding op by blast
  then show ?thesis using s' offered_input [OF o] by auto
qed


section \<open>Any number of operations\<close>

lemma foldl_fs_step_out:
  "foldl fs_step (fs, nxt, out) ops = (let (fs', nxt', out') = foldl fs_step (fs, nxt, []) ops in (fs', nxt', out @ out'))"
proof (induction ops arbitrary: fs nxt out)
  case (Cons op ops)
  have "fs_step (fs, nxt, out) op = (let (fs', nxt', out') = fs_step (fs, nxt, []) op in (fs', nxt', out @ out'))"
    by (simp add: fs_step_def split: fs_op.split prod.split)
  then obtain fs1 nxt1 out1 where 1: "fs_step (fs, nxt, []) op = (fs1, nxt1, out1)"
    "fs_step (fs, nxt, out) op = (fs1, nxt1, out @ out1)"
    by (cases "fs_step (fs, nxt, []) op") auto
  show ?case
    using Cons [of fs1 nxt1 out1] Cons [of fs1 nxt1 "out @ out1"] by (simp add: 1 Let_def split: prod.splits)
qed simp

lemma encodeBatch_append:
  "encodeBatch (fs @ gs) = rbind (encodeBatch fs) (\<lambda>bs. rbind (encodeBatch gs) (\<lambda>bs'. Inr (bs @ bs')))"
proof (induction fs)
  case (Cons f fs)
  then show ?case by (simp add: encodeBatch_Cons rbind_def split: sum.split)
qed (simp add: rbind_def split: sum.split)

lemma served_run:
  assumes "served sv p pt w" "offers sv p"
    and "foldl fs_step (pt_flatState pt, pt_nextKeyId pt, []) ops = (fs', nxt', out)"
    and "list_all transportable (frames_of out)" "encodeBatch (frames_of out) = Inr bs"
  shows "\<exists>sv' o'. server_run env (map (\<lambda>op. (now, op_input (sv_mode sv) p op)) ops) sv = fine sv' o'
    \<and> bytes_to w o' = bs \<and> served sv' p (pt\<lparr>pt_flatState := fs', pt_nextKeyId := nxt'\<rparr>) w"
  using assms
proof (induction ops arbitrary: sv pt out bs)
  case (Cons op ops)
  obtain fs1 nxt1 out1 where 1: "fs_step (pt_flatState pt, pt_nextKeyId pt, []) op = (fs1, nxt1, out1)"
    by (cases "fs_step (pt_flatState pt, pt_nextKeyId pt, []) op")
  obtain out2 where 2: "foldl fs_step (fs1, nxt1, []) ops = (fs', nxt', out2)" "out = out1 @ out2"
    using Cons.prems(3) foldl_fs_step_out [of fs1 nxt1 out1 ops]
    by (auto simp: 1 Let_def split: prod.splits)
  obtain b1 b2 where b: "encodeBatch (frames_of out1) = Inr b1" "encodeBatch (frames_of out2) = Inr b2" "bs = b1 @ b2"
    using Cons.prems(5) 2(2) by (auto simp: encodeBatch_append rbind_eq_Inr)
  let ?pt = "pt\<lparr>pt_flatState := fs1, pt_nextKeyId := nxt1\<rparr>"
  obtain sv1 o1 where s1: "server_step env now (op_input (sv_mode sv) p op) sv = fine sv1 o1"
    "bytes_to w o1 = b1" "sv_mode sv1 = sv_mode sv" "served sv1 p ?pt w"
    using served_step [OF Cons.prems(1,2) 1 _ b(1), where env = env and now = now] Cons.prems(4) 2(2) by auto
  have "offers sv1 p" using Cons.prems(2) s1(3) by (simp add: offers_def)
  then obtain sv2 o2 where s2: "server_run env (map (\<lambda>op. (now, op_input (sv_mode sv1) p op)) ops) sv1 = fine sv2 o2"
    "bytes_to w o2 = b2" "served sv2 p (?pt\<lparr>pt_flatState := fs', pt_nextKeyId := nxt'\<rparr>) w"
    using Cons.IH [of sv1 ?pt out2 b2] s1(4) 2 b(2) Cons.prems(4) by auto
  then show ?case using s1 b(3) by simp
qed (auto intro!: exI [of _ "[]"])


section \<open>The client's end\<close>

lemma frames_kept_up:
  assumes "following c" "acceptable_all (cl_mirror c) fs" "kr_size (cl_registry c) + registrations fs \<le> 10000"
    "cl_subscriptions c = [] \<or> settled_all (cl_mirror c) fs"
    "list_all (\<lambda>f. transportable f \<and> body_length f \<le> 1048576) fs" "encodeBatch fs = Inr bs" "concat chunks = bs"
  shows "\<exists>c' out. for_each (on_message who now) chunks (default_parser, c) = fine (default_parser, c') out
    \<and> following c' \<and> cl_mirror c' = foldl mirror_frame (cl_mirror c) fs \<and> cl_subscriptions c' = cl_subscriptions c
    \<and> kr_size (cl_registry c') \<le> kr_size (cl_registry c) + registrations fs"
proof -
  have "wire_image [(fs, False)] = Inr bs" using assms(6) by simp
  then have parse: "feed_chunks default_parser chunks = (default_parser, wire_events [(fs, False)])"
    unfolding feed_chunks_concat default_parser_def assms(7)
    using assms(5) feed_wire_image [of "new_parser 1048576" "[(fs, False)]" bs] by (simp add: new_parser_def)
  obtain c' out where c: "for_each (on_event who now) (wire_events [(fs, False)]) c = fine c' out" "following c'"
    "cl_mirror c' = foldl mirror_frame (cl_mirror c) fs" "cl_subscriptions c' = cl_subscriptions c"
    "kr_size (cl_registry c') \<le> kr_size (cl_registry c) + registrations fs"
    using events_followed [of c "wire_events [(fs, False)]" who now] assms(1-4)
    by (auto simp: event_frames_wire simp del: wire_events.simps)
  show ?thesis using on_messages [OF parse c(1)] c(2-5) by blast
qed

lemma frames_keep_up:
  assumes "calm c" "acceptable_all (cl_mirror c) fs" "kr_size (cl_registry c) + registrations fs \<le> 10000"
    "list_all (\<lambda>f. transportable f \<and> body_length f \<le> 1048576) fs" "encodeBatch fs = Inr bs" "concat chunks = bs"
  shows "\<exists>c' out. for_each (on_message who now) chunks (default_parser, c) = fine (default_parser, c') out
    \<and> calm c' \<and> cl_mirror c' = foldl mirror_frame (cl_mirror c) fs
    \<and> kr_size (cl_registry c') \<le> kr_size (cl_registry c) + registrations fs"
  using frames_kept_up [of c fs bs chunks who now] assms by (auto simp: calm_following)

text \<open>A client that has caught up with a principal.\<close>

definition caught_up :: "client \<Rightarrow> principal_tx \<Rightarrow> bool" where
  "caught_up c pt \<longleftrightarrow> calm c \<and> cl_mirror c = view (pt_flatState pt)
     \<and> fs_wf (pt_flatState pt) (pt_nextKeyId pt) \<and> good_store (pt_flatState pt)"

lemma caught_up_reads:
  assumes "caught_up c pt"
  shows "cl_get c key = pt_get pt key" "set (cl_keys c) = set (pt_keys pt)"
  using assms in_sync_reads [of c "pt_flatState pt" "pt_nextKeyId pt"]
  by (simp_all add: caught_up_def good_store_def pt_get_def pt_keys_def)

end
