(* ===== verification/Client_Arrays.thy ===== *)
theory Client_Arrays
  imports Client_Sync
begin

text \<open>
  The array shifts of the client. A server that drops elements from the front of an array, or
  makes room there, sends one frame instead of all the values; the client then copies the values
  of the elements among the keys \<open>prefix.0\<close>, \<open>prefix.1\<close>, and so on. The lemmas show what the two
  copying loops do to the elements, seen as a list.
\<close>

section \<open>Elements\<close>

lemma element_path_inj [simp]: "element_path prefix (int i) = element_path prefix (int j) \<longleftrightarrow> i = j"
  by (simp add: element_path_def show_int_def)

lemma length_not_number: "show_nat n \<noteq> ''length''"
proof
  assume "show_nat n = ''length''"
  then have "digits_val 10 (lead_digits 10 ''length'') = n" using show_nat_val [of n] by simp
  moreover have "lead_digits 10 ''length'' = []" by code_simp
  ultimately have "n = 0" by (simp add: digits_val_def)
  moreover have "show_nat 0 \<noteq> ''length''" by code_simp
  ultimately show False using \<open>show_nat n = ''length''\<close> by simp
qed

lemma element_not_length: "element_path prefix (int i) \<noteq> prefix @ ''.length''"
  using length_not_number [of i] by (simp add: element_path_def show_int_def)

lemma without_length_path [simp]: "without_length (prefix @ ''.length'') = prefix"
  by (simp add: without_length_def)

text \<open>The stored value of a path, if the path is registered and has one.\<close>

definition value_at :: "client \<Rightarrow> string \<Rightarrow> payload option" where
  "value_at c p =
     (case getByPath (cl_registry c) p of None \<Rightarrow> None | Some e \<Rightarrow> map_of (cl_store c) (ke_keyId e))"

lemma cl_get_value: "cl_get c p = (case value_at c p of None \<Rightarrow> PNull | Some v \<Rightarrow> v)"
  by (simp add: cl_get_def cl_lookup_def value_at_def split: option.split)

lemma getByPath_inj:
  assumes "kr_consistent kr" "getByPath kr p = Some e" "getByPath kr q = Some e'" "ke_keyId e = ke_keyId e'"
  shows "p = q"
  using assms by (metis getByPath_iff option.inject)

lemma copy_element_registry [simp]: "cl_registry (copy_element prefix from to c) = cl_registry c"
  by (simp add: copy_element_def put_value_def split: option.split)

lemma copy_element_value:
  assumes "kr_consistent (cl_registry c)" "value_at c (element_path prefix from) = Some v"
    "getByPath (cl_registry c) (element_path prefix to) \<noteq> None"
  shows "value_at (copy_element prefix from to c) p = (if p = element_path prefix to then Some v else value_at c p)"
proof -
  obtain src dst where e: "getByPath (cl_registry c) (element_path prefix from) = Some src"
    "map_of (cl_store c) (ke_keyId src) = Some v" "getByPath (cl_registry c) (element_path prefix to) = Some dst"
    using assms(2,3) by (auto simp: value_at_def split: option.splits)
  have copy: "copy_element prefix from to c = put_value (ke_keyId dst) v c"
    using e by (simp add: copy_element_def)
  show ?thesis
  proof (cases "getByPath (cl_registry c) p")
    case None
    then show ?thesis using e(3) by (auto simp: copy put_value_def value_at_def)
  next
    case (Some e')
    then show ?thesis
      using e(3) getByPath_inj [OF assms(1) Some e(3)] by (auto simp: copy put_value_def value_at_def)
  qed
qed

text \<open>All elements below \<open>n\<close> are registered, or have a value.\<close>

definition registered_below :: "client \<Rightarrow> string \<Rightarrow> nat \<Rightarrow> bool" where
  "registered_below c prefix n \<longleftrightarrow>
     (\<forall>i < n. getByPath (cl_registry c) (element_path prefix (int i)) \<noteq> None)"

definition valued_below :: "client \<Rightarrow> string \<Rightarrow> nat \<Rightarrow> bool" where
  "valued_below c prefix n \<longleftrightarrow> (\<forall>i < n. value_at c (element_path prefix (int i)) \<noteq> None)"

lemma valued_registered: "valued_below c prefix n \<Longrightarrow> registered_below c prefix n"
  by (auto simp: valued_below_def registered_below_def value_at_def split: option.splits)

lemma valued_belowE:
  assumes "valued_below c prefix n" "i < n"
  obtains v where "value_at c (element_path prefix (int i)) = Some v"
  using assms unfolding valued_below_def by blast

section \<open>The loops\<close>

lemma shift_left_rounds:
  assumes "kr_consistent (cl_registry c)" "valued_below c prefix n" "m + s \<le> n"
  defines "c' \<equiv> foldl (\<lambda>c i. copy_element prefix (int i + int s) (int i) c) c [0..<m]"
  shows "cl_registry c' = cl_registry c
    \<and> (\<forall>i < n. value_at c' (element_path prefix (int i))
         = value_at c (element_path prefix (int (if i < m then i + s else i))))
    \<and> (\<forall>p. (\<forall>i < m. p \<noteq> element_path prefix (int i)) \<longrightarrow> value_at c' p = value_at c p)"
  unfolding c'_def using assms(3)
proof (induction m)
  case (Suc m)
  let ?c = "foldl (\<lambda>c i. copy_element prefix (int i + int s) (int i) c) c [0..<m]"
  have IH: "cl_registry ?c = cl_registry c"
    "\<And>i. i < n \<Longrightarrow> value_at ?c (element_path prefix (int i))
       = value_at c (element_path prefix (int (if i < m then i + s else i)))"
    "\<And>p. (\<forall>i < m. p \<noteq> element_path prefix (int i)) \<Longrightarrow> value_at ?c p = value_at c p"
    using Suc by auto
  obtain v where v: "value_at c (element_path prefix (int (m + s))) = Some v"
    by (rule valued_belowE [OF assms(2), of "m + s"]) (use Suc.prems in simp)
  then have src: "value_at ?c (element_path prefix (int m + int s)) = Some v"
    using IH(2) [of "m + s"] Suc.prems by (simp add: of_nat_add)
  have reg: "getByPath (cl_registry ?c) (element_path prefix (int m)) \<noteq> None"
    using valued_registered [OF assms(2)] Suc.prems by (simp add: registered_below_def IH(1))
  have copy: "value_at (copy_element prefix (int m + int s) (int m) ?c) p
      = (if p = element_path prefix (int m) then Some v else value_at ?c p)" for p
    by (rule copy_element_value [OF _ src reg]) (use assms(1) IH(1) in simp)
  show ?case using IH v by (auto simp: copy less_Suc_eq)
qed simp

lemma shift_right_rounds:
  assumes "kr_consistent (cl_registry c)" "valued_below c prefix n" "registered_below c prefix (n + s)" "m \<le> n"
  defines "c' \<equiv> foldl (\<lambda>c i. copy_element prefix (int i) (int i + int s) c) c (rev [m..<n])"
  shows "cl_registry c' = cl_registry c
    \<and> (\<forall>i. value_at c' (element_path prefix (int i))
         = value_at c (element_path prefix (int (if m + s \<le> i \<and> i < n + s then i - s else i))))
    \<and> (\<forall>p. (\<forall>i < n + s. p \<noteq> element_path prefix (int i)) \<longrightarrow> value_at c' p = value_at c p)"
  unfolding c'_def using assms(4)
proof (induction rule: inc_induct)
  case (step m)
  let ?c = "foldl (\<lambda>c i. copy_element prefix (int i) (int i + int s) c) c (rev [Suc m..<n])"
  have IH: "cl_registry ?c = cl_registry c"
    "\<And>i. value_at ?c (element_path prefix (int i))
       = value_at c (element_path prefix (int (if Suc m + s \<le> i \<and> i < n + s then i - s else i)))"
    "\<And>p. (\<forall>i < n + s. p \<noteq> element_path prefix (int i)) \<Longrightarrow> value_at ?c p = value_at c p"
    using step.IH by auto
  obtain v where v: "value_at c (element_path prefix (int m)) = Some v"
    by (rule valued_belowE [OF assms(2) step.hyps(2)])
  then have src: "value_at ?c (element_path prefix (int m)) = Some v"
    using IH(2) [of m] by simp
  have to: "element_path prefix (int m + int s) = element_path prefix (int (m + s))" by simp
  have reg: "getByPath (cl_registry ?c) (element_path prefix (int m + int s)) \<noteq> None"
    using assms(3) step.hyps by (simp add: registered_below_def IH(1) to del: of_nat_add)
  have copy: "value_at (copy_element prefix (int m) (int m + int s) ?c) p
      = (if p = element_path prefix (int (m + s)) then Some v else value_at ?c p)" for p
    unfolding to [symmetric]
    by (rule copy_element_value [OF _ src reg]) (use assms(1) IH(1) in simp)
  have "[m..<n] = m # [Suc m..<n]" using step.hyps by (simp add: upt_conv_Cons)
  then have run: "foldl (\<lambda>c i. copy_element prefix (int i) (int i + int s) c) c (rev [m..<n])
      = copy_element prefix (int m) (int m + int s) ?c" by simp
  have "value_at (copy_element prefix (int m) (int m + int s) ?c) (element_path prefix (int i))
      = value_at c (element_path prefix (int (if m + s \<le> i \<and> i < n + s then i - s else i)))" for i
    using IH(2) [of i] v step.hyps by (cases "i = m + s") (auto simp: copy simp del: of_nat_add of_nat_diff)
  moreover have "value_at (copy_element prefix (int m) (int m + int s) ?c) p = value_at c p"
    if "\<forall>i < n + s. p \<noteq> element_path prefix (int i)" for p
    using IH(3) [OF that] spec [OF that, of "m + s"] step.hyps by (auto simp: copy simp del: of_nat_add)
  ultimately show ?case using IH(1) by (simp add: run)
qed auto

section \<open>The handlers\<close>

lemma sint_small: "n < 2 ^ 31 \<Longrightarrow> sint (word_of_nat n :: u32) = int n"
  by (simp add: signed_of_nat signed_take_bit_int_eq_self)

lemma value_at_cong:
  "cl_registry c' = cl_registry c \<Longrightarrow> cl_store c' = cl_store c \<Longrightarrow> value_at c' p = value_at c p"
  by (simp add: value_at_def split: option.split)

lemma value_at_put:
  assumes "kr_consistent (cl_registry c)" "getByKeyId (cl_registry c) k = Some e"
  shows "value_at (put_value k v c) p = (if p = ke_path e then Some v else value_at c p)"
proof -
  have id: "ke_keyId e = k" using registry.by_id_id [OF assms] .
  have e: "getByPath (cl_registry c) (ke_path e) = Some e"
    using assms id by (simp add: getByPath_iff)
  show ?thesis
  proof (cases "getByPath (cl_registry c) p")
    case (Some e')
    then have "p = ke_path e" if "ke_keyId e' = k"
      using getByPath_inj [OF assms(1) Some e] id that by simp
    then show ?thesis using Some e id by (auto simp: value_at_def put_value_def)
  qed (use e in \<open>auto simp: value_at_def put_value_def\<close>)
qed

lemma getTopicInfo_data:
  "cl_registry (fst (getTopicInfo c k p)) = cl_registry c" "cl_store (fst (getTopicInfo c k p)) = cl_store c"
  by (auto simp: getTopicInfo_def Let_def split: option.split)

definition array_values :: "client \<Rightarrow> string \<Rightarrow> nat \<Rightarrow> payload list" where
  "array_values c prefix n = map (\<lambda>i. cl_get c (element_path prefix (int i))) [0..<n]"

text \<open>The client holds an array of \<open>n\<close> elements whose length is announced under the id \<open>k\<close>.\<close>

definition holds_array :: "client \<Rightarrow> string \<Rightarrow> u32 \<Rightarrow> nat \<Rightarrow> bool" where
  "holds_array c prefix k n \<longleftrightarrow> kr_consistent (cl_registry c) \<and> n < 2 ^ 31 \<and> valued_below c prefix n
     \<and> map_option ke_path (getByKeyId (cl_registry c) k) = Some (prefix @ ''.length'')
     \<and> map_of (cl_store c) k = Some (PInt32 (word_of_nat n))"

lemma shift_left_handled:
  assumes "holds_array c prefix k n" "s \<le> n"
  obtains c' out where
    "handleFrame who (mk_frame ArrayShiftLeft k dt (PInt32 (word_of_nat s))) c = fine c' out"
    "\<And>i. i < n \<Longrightarrow> value_at c' (element_path prefix (int i))
       = value_at c (element_path prefix (int (if i < n - s then i + s else i)))"
    "value_at c' (prefix @ ''.length'') = Some (PInt32 (word_of_nat (n - s)))"
    "\<And>p. p \<noteq> prefix @ ''.length'' \<Longrightarrow> (\<forall>i < n. p \<noteq> element_path prefix (int i)) \<Longrightarrow> value_at c' p = value_at c p"
proof -
  obtain e where e: "getByKeyId (cl_registry c) k = Some e" "ke_path e = prefix @ ''.length''"
    and st: "map_of (cl_store c) k = Some (PInt32 (word_of_nat n))"
    and cons: "kr_consistent (cl_registry c)" and vals: "valued_below c prefix n" and n: "n < 2 ^ 31"
    using assms(1) by (auto simp: holds_array_def)
  obtain c0 info where c0: "getTopicInfo c k (ke_path e) = (c0, info)" by (cases "getTopicInfo c k (ke_path e)")
  have same: "cl_registry c0 = cl_registry c" "cl_store c0 = cl_store c"
    using getTopicInfo_data [of c k "ke_path e"] by (simp_all add: c0)
  have at0: "value_at c0 p = value_at c p" for p by (rule value_at_cong [OF same])
  let ?c1 = "foldl (\<lambda>c i. copy_element prefix (int i + int s) (int i) c) c0 [0..<n - s]"
  let ?c2 = "put_value k (PInt32 (word_of_nat (n - s))) ?c1"
  have loop: "cl_registry ?c1 = cl_registry c"
    "\<And>i. i < n \<Longrightarrow> value_at ?c1 (element_path prefix (int i))
       = value_at c (element_path prefix (int (if i < n - s then i + s else i)))"
    "\<And>p. (\<forall>i < n - s. p \<noteq> element_path prefix (int i)) \<Longrightarrow> value_at ?c1 p = value_at c p"
    using shift_left_rounds [of c0 prefix n "n - s" s] cons vals assms(2)
    by (auto simp: same at0 valued_below_def)
  have put: "value_at ?c2 p = (if p = prefix @ ''.length'' then Some (PInt32 (word_of_nat (n - s))) else value_at ?c1 p)" for p
    using value_at_put [of ?c1 k e] e cons loop(1) by simp
  obtain c' out where d: "deliver_length info prefix (int n - int s) ?c2 = fine c' out" "same_data ?c2 c'"
    unfolding deliver_length_def using deliver_same by blast
  have at': "value_at c' p = value_at ?c2 p" for p
    by (rule value_at_cong) (use d(2) in \<open>simp_all add: same_data_def\<close>)
  have num: "int_payload (Some (PInt32 (word_of_nat s))) = int s" "int_payload (map_of (cl_store c) k) = int n"
    using sint_small [of s] sint_small [OF n] n assms(2) by (simp_all add: int_payload_def st)
  have diff: "word_of_int (int n - int s) = (word_of_nat (n - s) :: u32)"
    using assms(2) by (metis of_int_of_nat_eq of_nat_diff)
  have "max 0 (min (int s) (int n)) = int s" "nat (int n - int s) = n - s" using assms(2) by auto
  then have "handleFrame who (mk_frame ArrayShiftLeft k dt (PInt32 (word_of_nat s))) c = fine c' out"
    using d(1) by (simp add: handleFrame_def on_ArrayShiftLeft_def e c0 [unfolded e(2)] num same shift_left_loop_def diff Let_def)
  then show thesis
    by (rule that) (auto simp: at' put loop element_not_length)
qed

lemma shift_right_handled:
  assumes "holds_array c prefix k n" "s \<le> n" "registered_below c prefix (n + s)" "n + s \<le> 2 ^ 31"
  obtains c' out where
    "handleFrame who (mk_frame ArrayShiftRight k dt (PInt32 (word_of_nat s))) c = fine c' out"
    "\<And>i. value_at c' (element_path prefix (int i))
       = value_at c (element_path prefix (int (if s \<le> i \<and> i < n + s then i - s else i)))"
    "\<And>p. (\<forall>i < n + s. p \<noteq> element_path prefix (int i)) \<Longrightarrow> value_at c' p = value_at c p"
proof -
  obtain e where e: "getByKeyId (cl_registry c) k = Some e" "ke_path e = prefix @ ''.length''"
    and st: "map_of (cl_store c) k = Some (PInt32 (word_of_nat n))"
    and cons: "kr_consistent (cl_registry c)" and vals: "valued_below c prefix n" and n: "n < 2 ^ 31"
    using assms(1) by (auto simp: holds_array_def)
  obtain c0 info where c0: "getTopicInfo c k (ke_path e) = (c0, info)" by (cases "getTopicInfo c k (ke_path e)")
  have same: "cl_registry c0 = cl_registry c" "cl_store c0 = cl_store c"
    using getTopicInfo_data [of c k "ke_path e"] by (simp_all add: c0)
  have at0: "value_at c0 p = value_at c p" for p by (rule value_at_cong [OF same])
  let ?c1 = "foldl (\<lambda>c i. copy_element prefix (int i) (int i + int s) c) c0 (rev [0..<n])"
  have loop: "value_at ?c1 (element_path prefix (int i))
       = value_at c (element_path prefix (int (if s \<le> i \<and> i < n + s then i - s else i)))"
    "(\<forall>i < n + s. p \<noteq> element_path prefix (int i)) \<Longrightarrow> value_at ?c1 p = value_at c p" for i p
    using shift_right_rounds [of c0 prefix n s 0] cons vals assms(3)
    by (simp_all add: same at0 valued_below_def registered_below_def)
  obtain c' out where d: "deliver_length info prefix (int n) ?c1 = fine c' out" "same_data ?c1 c'"
    unfolding deliver_length_def using deliver_same by blast
  have at': "value_at c' p = value_at ?c1 p" for p
    by (rule value_at_cong) (use d(2) in \<open>simp_all add: same_data_def\<close>)
  have num: "int_payload (Some (PInt32 (word_of_nat s))) = int s" "int_payload (map_of (cl_store c) k) = int n"
    using sint_small [of s] sint_small [OF n] n assms(2) by (simp_all add: int_payload_def st)
  have "max 0 (min (int s) (int n)) = int s" "\<not> (0 < int n \<and> INT_MAX < int n - 1 + int s)"
    using assms(2,4) by (auto simp: INT_MAX_def)
  then have "handleFrame who (mk_frame ArrayShiftRight k dt (PInt32 (word_of_nat s))) c = fine c' out"
    using d(1) by (simp add: handleFrame_def on_ArrayShiftRight_def e c0 [unfolded e(2)] num same shift_right_loop_def Let_def) auto
  then show thesis by (rule that) (simp_all add: at' loop)
qed

section \<open>Properties\<close>

text \<open>C20. A left shift by \<open>s\<close> drops the first \<open>s\<close> elements of an array of \<open>n\<close>: what \<open>get\<close> then
  returns for the first \<open>n - s\<close> elements is the old list without its first \<open>s\<close>, the length is
  \<open>n - s\<close>, and no key outside the array changes.\<close>

theorem array_shift_left_drops:
  assumes "holds_array c prefix k n" and "s \<le> n"
  shows "\<exists>c' out. handleFrame who (mk_frame ArrayShiftLeft k dt (PInt32 (word_of_nat s))) c = fine c' out
    \<and> array_values c' prefix (n - s) = drop s (array_values c prefix n)
    \<and> cl_get c' (prefix @ ''.length'') = PInt32 (word_of_nat (n - s))
    \<and> (\<forall>p. p \<noteq> prefix @ ''.length'' \<longrightarrow> (\<forall>i < n. p \<noteq> element_path prefix (int i)) \<longrightarrow> cl_get c' p = cl_get c p)"
proof -
  obtain c' out where c': "handleFrame who (mk_frame ArrayShiftLeft k dt (PInt32 (word_of_nat s))) c = fine c' out"
    "\<And>i. i < n \<Longrightarrow> value_at c' (element_path prefix (int i))
       = value_at c (element_path prefix (int (if i < n - s then i + s else i)))"
    "value_at c' (prefix @ ''.length'') = Some (PInt32 (word_of_nat (n - s)))"
    "\<And>p. p \<noteq> prefix @ ''.length'' \<Longrightarrow> (\<forall>i < n. p \<noteq> element_path prefix (int i)) \<Longrightarrow> value_at c' p = value_at c p"
    using shift_left_handled [OF assms, of who dt] by blast
  have "array_values c' prefix (n - s) = drop s (array_values c prefix n)"
    by (rule nth_equalityI) (auto simp: array_values_def cl_get_value c'(2) add.commute simp del: of_nat_add)
  then show ?thesis using c' by (auto simp: cl_get_value)
qed

text \<open>A right shift by \<open>s\<close> makes room: the first \<open>s\<close> elements keep their values and the old list
  follows them, provided the elements it moves to are registered and their numbers fit an \<open>int\<close>.\<close>

theorem array_shift_right_makes_room:
  assumes "holds_array c prefix k n" and "s \<le> n" and "registered_below c prefix (n + s)" and "n + s \<le> 2 ^ 31"
  shows "\<exists>c' out. handleFrame who (mk_frame ArrayShiftRight k dt (PInt32 (word_of_nat s))) c = fine c' out
    \<and> array_values c' prefix (n + s) = take s (array_values c prefix n) @ array_values c prefix n
    \<and> (\<forall>p. (\<forall>i < n + s. p \<noteq> element_path prefix (int i)) \<longrightarrow> cl_get c' p = cl_get c p)"
proof -
  obtain c' out where c': "handleFrame who (mk_frame ArrayShiftRight k dt (PInt32 (word_of_nat s))) c = fine c' out"
    "\<And>i. value_at c' (element_path prefix (int i))
       = value_at c (element_path prefix (int (if s \<le> i \<and> i < n + s then i - s else i)))"
    "\<And>p. (\<forall>i < n + s. p \<noteq> element_path prefix (int i)) \<Longrightarrow> value_at c' p = value_at c p"
    using shift_right_handled [OF assms, of who dt] by blast
  have "array_values c' prefix (n + s) = take s (array_values c prefix n) @ array_values c prefix n"
    using assms(2)
    by (intro nth_equalityI) (auto simp: array_values_def cl_get_value c'(2) nth_append min_def simp del: of_nat_add of_nat_diff)
  then show ?thesis using c' by (auto simp: cl_get_value)
qed

text \<open>A client with an array of two elements, and room for one more.\<close>

definition array_client :: client where
  "array_client = (new_client ''u'' ''w'' default_reconnect)
     \<lparr>cl_registry := foldl registry_step (new_registry 10000)
        [Reg 1 ''a.length'' DT_VarInteger, Reg 2 ''a.0'' DT_String, Reg 3 ''a.1'' DT_String, Reg 4 ''a.2'' DT_String],
      cl_store := [(1, PInt32 2), (2, PString ''x''), (3, PString ''y'')]\<rparr>"

lemma array_client_holds: "holds_array array_client ''a'' 1 2" "registered_below array_client ''a'' 3"
proof -
  let ?ops = "[Reg 1 ''a.length'' DT_VarInteger, Reg 2 ''a.0'' DT_String, Reg 3 ''a.1'' DT_String, Reg 4 ''a.2'' DT_String]"
  have "well_behaved (new_registry 10000) ?ops" by code_simp
  then have "kr_consistent (foldl registry_step (new_registry 10000) ?ops)"
    by (rule kr_consistent_run [OF kr_consistent_new])
  then have "kr_consistent (cl_registry array_client)" by (simp add: array_client_def del: foldl.simps)
  moreover have "valued_below array_client ''a'' 2"
  proof -
    have "list_all (\<lambda>i. value_at array_client (element_path ''a'' (int i)) \<noteq> None) [0..<2]" by code_simp
    then show ?thesis by (auto simp: valued_below_def list_all_iff)
  qed
  moreover have "map_option ke_path (getByKeyId (cl_registry array_client) 1) = Some (''a'' @ ''.length'')"
    "map_of (cl_store array_client) 1 = Some (PInt32 (word_of_nat 2))" by code_simp+
  ultimately show "holds_array array_client ''a'' 1 2" by (simp add: holds_array_def)
  have "list_all (\<lambda>i. getByPath (cl_registry array_client) (element_path ''a'' (int i)) \<noteq> None) [0..<3]" by code_simp
  then show "registered_below array_client ''a'' 3" by (auto simp: registered_below_def list_all_iff)
qed

theorem array_shift_left_drops_witness:
  "\<exists>c' out. handleFrame Io_Thread (mk_frame ArrayShiftLeft 1 DT_VarInteger (PInt32 1)) array_client = fine c' out
    \<and> array_values c' ''a'' 1 = [PString ''y''] \<and> cl_get c' ''a.length'' = PInt32 1"
proof -
  have "array_values array_client ''a'' 2 = [PString ''x'', PString ''y'']" by code_simp
  then show ?thesis
    using array_shift_left_drops [OF array_client_holds(1), of 1 Io_Thread DT_VarInteger] by auto
qed

theorem array_shift_right_makes_room_witness:
  "\<exists>c' out. handleFrame Io_Thread (mk_frame ArrayShiftRight 1 DT_VarInteger (PInt32 1)) array_client = fine c' out
    \<and> array_values c' ''a'' 3 = [PString ''x'', PString ''x'', PString ''y'']"
proof -
  have "array_values array_client ''a'' 2 = [PString ''x'', PString ''y'']" by code_simp
  then show ?thesis
    using array_shift_right_makes_room [OF array_client_holds(1), of 1 Io_Thread DT_VarInteger] array_client_holds(2)
    by auto
qed

end
