(* ===== verification/Client_Faults.thy ===== *)
theory Client_Faults
  imports Client_Arrays
begin

text \<open>
  What the client does outside the well-behaved runs of \<open>Client_Sync\<close>: which exceptions can leave
  its message callback, and the states in which its handlers go wrong.
\<close>

section \<open>Exceptions\<close>

lemma on_event_escapes: "snd (snd (on_event who now ev c)) = Some e \<Longrightarrow> \<not> catchable e"
  by (cases ev) (auto simp: fine_def dest: catching_escapes)

text \<open>The steps other than a message leave the parser alone.\<close>

lemma keep_parser_fst [simp]: "fst (fst (keep_parser p r)) = p"
  by (simp add: keep_parser_def split_beta)

lemma client_step_parser:
  "(\<And>data. inp \<noteq> In_Message data) \<Longrightarrow> fst (fst (client_step now jitter inp w)) = fst w"
  by (cases inp; cases w) (auto simp: client_step_def fine_def split_beta split: option.split)

section \<open>Properties\<close>

text \<open>C36. Nothing that a peer sends makes an ordinary C++ exception leave the message callback: whatever
  the bytes, the only ways a message can end other than normally are undefined behaviour and the
  termination of the process.\<close>

theorem on_message_contains_exceptions:
  assumes "snd (snd (on_message who now data w)) = Some e"
  shows "e = Undefined \<or> e = Terminate"
proof -
  obtain p evs where f: "feed (fst w) data = (p, evs)" by (cases "feed (fst w) data")
  have "snd (snd (for_each (on_event who now) evs (snd w))) = Some e"
    using assms f by (simp add: on_message_def keep_parser_def split_beta)
  then have "\<not> catchable e"
    using for_each_escapes [of "on_event who now" "\<lambda>e. \<not> catchable e"] on_event_escapes by blast
  then show ?thesis by (simp add: catchable_def)
qed

text \<open>A client that has been told of a key of topic 0.\<close>

definition topic_key_client :: client where
  "topic_key_client = fst (for_each (handleFrame Io_Thread)
     [mk_frame ServerKeyRegistration 5 DT_Bool (PString ''t.0.a''), mk_frame ServerValue 5 DT_Bool (PBool True)]
     (new_client ''u'' ''w'' default_reconnect))"

theorem on_message_contains_exceptions_witness:
  "\<exists>e. snd (snd (on_message Io_Thread 0 [0x10, 0x02, 0x22, 0, 0, 0, 5, 0, 0x10, 0x03] (default_parser, topic_key_client))) = Some e
     \<and> (e = Undefined \<or> e = Terminate)"
proof -
  have "snd (snd (on_message Io_Thread 0 [0x10, 0x02, 0x22, 0, 0, 0, 5, 0, 0x10, 0x03] (default_parser, topic_key_client)))
    = Some Undefined"
    by code_simp
  then show ?thesis using on_message_contains_exceptions by blast
qed



text \<open>A key that is not a valid path makes the client and the server chase each other for ever: the
  client drops the registration, so that the value makes it ask for the key, and the same three
  frames in answer leave it as ignorant as before and make it ask again.\<close>

theorem invalid_key_requested_again:
  assumes "check_key_path p = Inl err" and "\<not> hasKeyId (cl_registry c) k"
    and "kr_size (cl_registry c) \<noteq> 0" and "ws_open c"
  shows "\<exists>c' out data. for_each (\<lambda>f c. catching (handleFrame who f c))
       [mk_frame ServerKeyRegistration k dt (PString p), signal ServerSync 0, mk_frame ServerValue k dt v] c
       = fine c' (out @ [Out_Send data])
     \<and> encode (signal ClientKeyRequest k) = Inr data
     \<and> \<not> hasKeyId (cl_registry c') k \<and> cl_registry c' = cl_registry c"
proof -
  let ?c = "leave_identifying c"
  have same: "cl_registry ?c = cl_registry c" "ws_open ?c"
    using assms(4) by (simp_all add: leave_identifying_def ws_open_def)
  have err: "catchable err" using assms(1) by (auto simp: check_key_path_def catchable_def split: if_splits)
  have "registerOne (cl_registry ?c) k p dt = Inl err" using assms(1) by (simp add: registerOne_def)
  then have reg: "catching (handleFrame who (mk_frame ServerKeyRegistration k dt (PString p)) c) = fine ?c []"
    using err by (simp add: handleFrame_def on_ServerKeyRegistration_def run_res_def catching_def Let_def fine_def)
  obtain out where ready: "sendFrame (signal ClientReady 0) ?c = fine ?c out"
    using sendFrame_signal [of ClientReady 0 ?c] by auto
  have idem: "leave_identifying ?c = ?c" by (simp add: leave_identifying_def)
  have sync: "\<exists>out. handleFrame who (signal ServerSync 0) ?c = fine ?c out"
    using ready assms(3) same by (auto simp: handleFrame_def on_ServerSync_def idem Let_def)
  obtain out1 where out1: "handleFrame who (signal ServerSync 0) ?c = fine ?c out1" using sync by blast
  obtain data where data: "encode (signal ClientKeyRequest k) = Inr data"
    using encode_signal_defined [of ClientKeyRequest k] by auto
  then have send: "sendFrame (signal ClientKeyRequest k) ?c = fine ?c [Out_Send data]"
    using same(2) by (simp add: sendFrame_def sendRaw_def)
  let ?c' = "?c\<lparr>cl_pendingValues := AList.update k (mk_frame ServerValue k dt v) (cl_pendingValues ?c)\<rparr>"
  have val: "handleFrame who (mk_frame ServerValue k dt v) ?c = fine ?c' [Out_Send data]"
    using assms(2) same(1) send by (simp add: handleFrame_def on_ServerValue_def)
  have "for_each (\<lambda>f c. catching (handleFrame who f c))
       [mk_frame ServerKeyRegistration k dt (PString p), signal ServerSync 0, mk_frame ServerValue k dt v] c
     = fine ?c' (out1 @ [Out_Send data])"
    by (simp add: reg out1 val)
  moreover have "cl_registry ?c' = cl_registry c" by (simp add: same)
  ultimately show ?thesis using data assms(2) by (intro exI [of _ ?c'] exI [of _ out1] exI [of _ data] conjI) (simp_all del: for_each.simps)
qed

theorem invalid_key_requested_again_witness:
  "let c = topic_key_client\<lparr>cl_ws := Some True\<rparr>;
       (c', out, e) = for_each (\<lambda>f c. catching (handleFrame Io_Thread f c))
         [mk_frame ServerKeyRegistration 7 DT_Bool (PString ''a b''), signal ServerSync 0, mk_frame ServerValue 7 DT_Bool (PBool True)] c
   in e = None \<and> out \<noteq> [] \<and> \<not> hasKeyId (cl_registry c') 7"
proof -
  let ?c = "topic_key_client\<lparr>cl_ws := Some True\<rparr>"
  have "(case check_key_path ''a b'' of Inl _ \<Rightarrow> True | Inr _ \<Rightarrow> False)" by code_simp
  then obtain err where err: "check_key_path ''a b'' = Inl err" by (auto split: sum.splits)
  have "\<not> hasKeyId (cl_registry ?c) 7" "kr_size (cl_registry ?c) \<noteq> 0" by code_simp+
  from invalid_key_requested_again [OF err this, of Io_Thread DT_Bool "PBool True"]
  show ?thesis by (auto simp: ws_open_def fine_def)
qed

text \<open>A client that receives some bytes, is disconnected, connects again and is authorized.\<close>

definition reconnect_run :: "bytes \<Rightarrow> whole_client \<times> client_out list \<times> exn option" where
  "reconnect_run part = client_run
     [(0, 0, In_Connect Connect_Returns), (0, 0, In_Open), (0, 0, In_Message part),
      (1, 0, In_Disconnect), (2, 0, In_Connect Connect_Returns), (2, 0, In_Open),
      (3, 0, In_Message (case encode (signal AuthOk 0) of Inr bs \<Rightarrow> bs | Inl _ \<Rightarrow> []))]
     (new_whole_client ''00'' ''w'' default_reconnect)"

text \<open>Reconnecting does not reset the parser (no step but a message touches it): a frame cut off by a
  lost connection swallows the first frame of the next one, so that a client that is authorized
  stays in the identifying state.\<close>

theorem cut_off_frame_swallows_next:
  "((\<exists>data. inp = In_Message data) \<or> fst (fst (client_step now jitter inp w)) = fst w)
   \<and> cl_state (snd (fst (reconnect_run [0x10, 0x02, 0x22]))) = CS_Identifying
   \<and> cl_state (snd (fst (reconnect_run []))) = CS_Synchronizing"
proof (intro conjI)
  show "(\<exists>data. inp = In_Message data) \<or> fst (fst (client_step now jitter inp w)) = fst w"
    using client_step_parser by blast
  show "cl_state (snd (fst (reconnect_run [0x10, 0x02, 0x22]))) = CS_Identifying"
    "cl_state (snd (fst (reconnect_run []))) = CS_Synchronizing"
    by code_simp+
qed

text \<open>Neither does reconnecting forget the key ids of the old session: after a reconnect to a server that
  has given an old id to another key, \<open>get\<close> returns the value of that key for the old name until
  the server resets the client.\<close>

definition reused_id_run :: "cres" where
  "reused_id_run =
     and_then (for_each (handleFrame Io_Thread)
        [mk_frame ServerKeyRegistration 1 DT_String (PString ''a''), signal ServerSync 0,
         mk_frame ServerValue 1 DT_String (PString ''x'')] (new_client ''00'' ''w'' default_reconnect)) (\<lambda>c.
     and_then (disconnect Io_Thread c) (\<lambda>c.
     and_then (connect Io_Thread 0 Connect_Returns c) (\<lambda>c.
     and_then (handleOpen Io_Thread 0 (c\<lparr>cl_ws := Some True\<rparr>))
       (for_each (handleFrame Io_Thread)
        [mk_frame ServerKeyRegistration 1 DT_String (PString ''b''), signal ServerSync 0,
         mk_frame ServerValue 1 DT_String (PString ''y'')]))))"

theorem reused_id_reads_wrong_key:
  "snd (snd reused_id_run) = None \<and> cl_get (fst reused_id_run) ''a'' = PString ''y''
   \<and> cl_get (fst reused_id_run) ''b'' = PString ''y''"
  by code_simp

text \<open>The function that \<open>addCallback\<close> returns unsubscribes by position: once an earlier callback is
  gone, it removes the next one in its stead, or nothing.\<close>

theorem unsubscribe_removes_another:
  "let (cbs, i) = addCallback [] a; (cbs, j) = addCallback cbs b; (cbs, k) = addCallback cbs d
   in unsubscribe_at (unsubscribe_at cbs i) j = [b] \<and> unsubscribe_at (unsubscribe_at cbs i) k = [b, d]"
  by (simp add: addCallback_def unsubscribe_at_def)

text \<open>Destroying a client after its heartbeat has timed out ends the process, since the timer's thread
  was never joined.\<close>

theorem destroy_after_timeout_terminates:
  assumes "hb_tick t hb = (cl_heartbeat c, [HB_Timeout])" and "rc_thread (cl_reconnect c) = No_Thread"
  shows "\<exists>c' out. cl_destroy who c = (c', out, Some Terminate)"
proof -
  have "hb\<lparr>hb_running := False, hb_thread := Finished\<rparr> = cl_heartbeat c"
    using assms(1) by (auto simp: hb_tick_def split: if_splits)
  then have "\<not> hb_running (cl_heartbeat c)" "hb_thread (cl_heartbeat c) = Finished"
    by (metis heartbeat.select_convs(1,5) heartbeat.surjective heartbeat.update_convs(1,5))+
  then show ?thesis
    using assms(2)
    by (cases "cl_ws c")
      (simp_all add: cl_destroy_def cleanup_def stop_heartbeat_def hb_stop_def run_res_def drop_ws_def
        rc_dispose_def rc_stop_def join_thread_def joinable_def hb_destroy_def catchable_def fine_def and_then_def)
qed

end
