(* ===== verification/Server_Rules.thy ===== *)
theory Server_Rules
  imports Server
begin

text \<open>
  The contract of an invariant of the server. The locale \<open>handler_rules\<close> asks for what an invariant
  must survive in the small (a session's own operations, an operation on a principal, a change of
  a field) and gives it for the handlers that are made of these; \<open>server_rules\<close> asks for the
  handlers that change the tables, and gives it for all that can happen to a server. Along the
  way every frame that is sent satisfies \<open>frame_ok\<close>.
\<close>

section \<open>What a session does\<close>

inductive session_move :: "session \<Rightarrow> session \<Rightarrow> sess_out list \<Rightarrow> bool" where
  set: "ss_set ss key v = Inr (ss', out) \<Longrightarrow> session_move ss ss' out"
| clear: "ss_clearKey ss key = (ss', out) \<Longrightarrow> session_move ss ss' out"
| clear_all: "ss_clearAll ss = (ss', out) \<Longrightarrow> session_move ss ss' out"
| topic_set: "ss_topic_set ss name key v = (ss', out) \<Longrightarrow> session_move ss ss' out"
| create_topic: "ss_createTopicHandle ss name params idx = Inr ss' \<Longrightarrow> session_move ss ss' []"
| remove_topic: "ss_removeTopicHandle ss name = Inr (ss', out) \<Longrightarrow> session_move ss ss' out"
| shut: "ss_disposeAllTopicHandles ss = Inr ss1 \<Longrightarrow> ss_handleDisconnect ss1 = (ss', out) \<Longrightarrow> session_move ss ss' out"
| bind: "session_move ss (ss_bindSessionTX ss) []"
| providers: "session_move ss (ss_setTxProviders ss) []"

inductive_cases session_moveE: "session_move ss ss' out"

inductive principal_move :: "principal_tx \<Rightarrow> principal_tx \<Rightarrow> fs_out list \<Rightarrow> bool" where
  set: "pt_set pt key v = (pt', out) \<Longrightarrow> principal_move pt pt' out"
| clear: "pt_clear pt key = (pt', out) \<Longrightarrow> principal_move pt pt' out"
| clear_all: "pt_clear_all pt = (pt', out) \<Longrightarrow> principal_move pt pt' out"

inductive_cases principal_moveE: "principal_move pt pt' out"

text \<open>The outputs whose frames satisfy a predicate.\<close>

definition sess_out_ok :: "(frame \<Rightarrow> bool) \<Rightarrow> sess_out \<Rightarrow> bool" where
  "sess_out_ok P ev \<longleftrightarrow> (case ev of S_Frame f \<Rightarrow> P f | _ \<Rightarrow> True)"

definition fs_out_ok :: "(frame \<Rightarrow> bool) \<Rightarrow> fs_out \<Rightarrow> bool" where
  "fs_out_ok P ev \<longleftrightarrow> (case ev of Enqueue f \<Rightarrow> P f | Resync \<Rightarrow> True)"

definition server_out_ok :: "(frame \<Rightarrow> bool) \<Rightarrow> server_out \<Rightarrow> bool" where
  "server_out_ok P ev \<longleftrightarrow>
     (case ev of Sv_Send w bs \<Rightarrow> bs = encodeHeartbeat \<or> (\<exists>f. P f \<and> encode f = Inr bs) | _ \<Rightarrow> True)"

lemma out_ok_simps [simp]:
  "sess_out_ok P (S_Frame f) = P f" "sess_out_ok P S_Ready" "sess_out_ok P S_Disconnected"
  "fs_out_ok P (Enqueue f) = P f" "fs_out_ok P Resync"
  "server_out_ok P (Sv_Close w)" "server_out_ok P (Sv_Connection u)" "server_out_ok P (Sv_AuthRequest u t)"
  "server_out_ok P (Sv_Ready u)" "server_out_ok P (Sv_Disconnect u)" "server_out_ok P (Sv_Subscribe u n)"
  "server_out_ok P (Sv_Unsubscribe u n)" "server_out_ok P Sv_Stop" "server_out_ok P (Sv_Send w encodeHeartbeat)"
  by (simp_all add: sess_out_ok_def fs_out_ok_def server_out_ok_def)

lemma out_ok_True [simp]:
  "sess_out_ok (\<lambda>f. True) ev" "fs_out_ok (\<lambda>f. True) fev"
  by (simp_all add: sess_out_ok_def fs_out_ok_def split: sess_out.split fs_out.split)

lemma sent_frame_ok: "P f \<Longrightarrow> encode f = Inr bs \<Longrightarrow> server_out_ok P (Sv_Send w bs)"
  by (auto simp: server_out_ok_def)

section \<open>Handlers made of small steps\<close>

locale handler_rules =
  fixes good :: "server \<Rightarrow> bool" and frame_ok :: "frame \<Rightarrow> bool"
  assumes good_move: "good sv \<Longrightarrow> session_move (session_at sv i) ss' out \<Longrightarrow> good (put_session i ss' sv)"
    and move_ok: "good sv \<Longrightarrow> session_move (session_at sv i) ss' out \<Longrightarrow> list_all (sess_out_ok frame_ok) out"
    and good_principal: "good sv \<Longrightarrow> pm_principal (sv_principals sv) p = (pm, pt) \<Longrightarrow> principal_move pt pt' fout
      \<Longrightarrow> good (sv\<lparr>sv_principals := pm_store pm p pt'\<rparr>)"
    and principal_ok: "good sv \<Longrightarrow> pm_principal (sv_principals sv) p = (pm, pt) \<Longrightarrow> principal_move pt pt' fout
      \<Longrightarrow> list_all (fs_out_ok frame_ok) fout"
    and good_build: "good sv \<Longrightarrow> pm_principal (sv_principals sv) p = (pm, pt) \<Longrightarrow> pt_buildKeyFrames pt = (fs, pt')
      \<Longrightarrow> good (sv\<lparr>sv_principals := pm_store pm p pt'\<rparr>)"
    and build_ok: "good sv \<Longrightarrow> pm_principal (sv_principals sv) p = (pm, pt) \<Longrightarrow> pt_buildKeyFrames pt = (fs, pt')
      \<Longrightarrow> list_all frame_ok fs"
    and reset_ok: "frame_ok (signal ServerReset 0)"
    and good_internal: "good sv \<Longrightarrow> in_session (f (sv_internals sv i)) = in_session (sv_internals sv i) \<Longrightarrow> good (upd_internal i f sv)"
    and good_conn: "good sv \<Longrightarrow> good (upd_conn w g sv)"
    and good_framesIn: "good sv \<Longrightarrow> good (sv\<lparr>sv_framesIn := k\<rparr>)"
    and good_framesOut: "good sv \<Longrightarrow> good (sv\<lparr>sv_framesOut := k\<rparr>)"
begin

abbreviation kept :: "sres \<Rightarrow> bool" where
  "kept \<equiv> keeps good (server_out_ok frame_ok)"

lemma kept_enqueue [keeps_intros]: "frame_ok f \<Longrightarrow> good sv \<Longrightarrow> kept (sv_enqueue i f sv)"
  by (auto simp: sv_enqueue_def Let_def intro!: keeps_intros sent_frame_ok)

lemma kept_sess_out: "list_all (sess_out_ok frame_ok) out \<Longrightarrow> good sv \<Longrightarrow> kept (run_sess_out i out sv)"
  unfolding run_sess_out_def
  by (intro keeps_intros) (auto simp: list_all_iff split: sess_out.split intro!: keeps_intros kept_enqueue)

lemma kept_move [keeps_intros]: "good sv \<Longrightarrow> session_move (session_at sv i) ss' out \<Longrightarrow> kept (run_sess_out i out (put_session i ss' sv))"
  by (blast intro: kept_sess_out good_move move_ok)

lemma kept_onValue [keeps_intros]: "frame_ok f \<Longrightarrow> good sv \<Longrightarrow> kept (ptx_onValue p f sv)"
  unfolding ptx_onValue_def by (intro keeps_intros) (auto intro!: keeps_intros kept_enqueue)

lemma kept_onResync [keeps_intros]:
  assumes "good sv"
  shows "kept (ptx_onResync p sv)"
proof -
  obtain pm pt where pm: "pm_principal (sv_principals sv) p = (pm, pt)" by fastforce
  obtain fs pt' where b: "pt_buildKeyFrames pt = (fs, pt')" by fastforce
  have ok: "list_all frame_ok (signal ServerReset 0 # fs)" using build_ok [OF assms pm b] reset_ok by simp
  have "kept (for_each (sv_enqueue i) (signal ServerReset 0 # fs) sv)" if "good sv" for i sv
    using ok that by (intro keeps_for_each kept_enqueue) (auto simp: list_all_iff)
  then show ?thesis
    unfolding ptx_onResync_def using good_build [OF assms pm b]
    by (auto simp: pm b Let_def intro!: keeps_for_each keeps_fine simp del: for_each.simps)
qed

lemma kept_principal_op:
  assumes "\<And>pt. principal_move pt (fst (g pt)) (snd (g pt))" "good sv"
  shows "kept (principal_op p g sv)"
proof -
  obtain pm pt where pm: "pm_principal (sv_principals sv) p = (pm, pt)" by fastforce
  obtain pt' out where g: "g pt = (pt', out)" by fastforce
  then have m: "principal_move pt pt' out" using assms(1) [of pt] by simp
  have ok: "list_all (fs_out_ok frame_ok) out" by (rule principal_ok [OF assms(2) pm m])
  have "frame_ok f" if "Enqueue f \<in> set out" for f
    using ok that by (auto simp: list_all_iff dest: bspec [of _ _ "Enqueue f"])
  then show ?thesis
    unfolding principal_op_def using good_principal [OF assms(2) pm m]
    by (auto simp: pm g Let_def split: fs_out.split intro!: keeps_intros kept_onValue kept_onResync)
qed

lemma move_set: "principal_move pt (fst (pt_set pt key v)) (snd (pt_set pt key v))"
  by (rule principal_move.set) (rule prod.collapse [symmetric])

lemma move_clear: "principal_move pt (fst (pt_clear pt key)) (snd (pt_clear pt key))"
  by (rule principal_move.clear) (rule prod.collapse [symmetric])

lemma move_clear_all: "principal_move pt (fst (pt_clear_all pt)) (snd (pt_clear_all pt))"
  by (rule principal_move.clear_all) (rule prod.collapse [symmetric])

lemmas kept_principal_ops = kept_principal_op [OF move_set] kept_principal_op [OF move_clear]
  kept_principal_op [OF move_clear_all]

lemma kept_sv_principal_op:
  "(\<And>pt. principal_move pt (fst (g pt)) (snd (g pt))) \<Longrightarrow> good sv \<Longrightarrow> kept (sv_principal_op p g sv)"
  unfolding sv_principal_op_def by (intro keeps_intros kept_principal_op)

lemmas kept_sv_principal_ops = kept_sv_principal_op [OF move_set] kept_sv_principal_op [OF move_clear]
  kept_sv_principal_op [OF move_clear_all]

lemma kept_broadcast:
  "good sv \<Longrightarrow> kept (sv_set key v sv)" "good sv \<Longrightarrow> kept (sv_clear key sv)" "good sv \<Longrightarrow> kept (sv_clear_all sv)"
  unfolding sv_set_def sv_clear_def sv_clear_all_def by (intro keeps_intros kept_principal_ops; assumption)+

lemma kept_call [keeps_intros]: "good sv \<Longrightarrow> kept (run_call i call sv)"
  by (cases call)
    (auto simp: run_call_def Let_def split: prod.split intro!: keeps_intros kept_sv_principal_ops kept_move
      intro: session_move.intros)

lemma kept_callbacks [keeps_intros]: "good sv \<Longrightarrow> kept (run_callbacks i cbs sv)"
  unfolding run_callbacks_def by (intro keeps_intros kept_call)

lemma kept_stop_hb [keeps_intros]: "good sv \<Longrightarrow> kept (stop_hb thr i sv)"
  unfolding stop_hb_def by (intro keeps_intros good_internal) simp_all

lemma kept_start_hb [keeps_intros]: "good sv \<Longrightarrow> kept (start_hb now i sv)"
  unfolding start_hb_def by (intro keeps_intros good_internal) simp_all

lemma kept_shut [keeps_intros]: "good sv \<Longrightarrow> kept (shut_session thr i sv)"
  unfolding shut_session_def Let_def
  by (auto split: prod.split intro!: keeps_intros kept_move kept_stop_hb intro: session_move.shut)

lemma kept_announce [keeps_intros]: "good sv \<Longrightarrow> kept (announce_session env i sv)"
  unfolding announce_session_def by (auto intro!: keeps_intros kept_callbacks)

lemma kept_sendFrame [keeps_intros]: "frame_ok f \<Longrightarrow> good sv \<Longrightarrow> kept (sv_sendFrame i f sv)"
  unfolding sv_sendFrame_def Let_def
  by (auto split: option.split intro!: keeps_intros good_framesOut sent_frame_ok)

lemma kept_drop_topic [keeps_intros]: "good sv \<Longrightarrow> kept (drop_topic env i name sv)"
  unfolding drop_topic_def
  by (auto split: option.split intro!: keeps_intros kept_callbacks kept_move intro: session_move.remove_topic)

lemma kept_add_topic [keeps_intros]: "good sv \<Longrightarrow> kept (add_topic env i ix topic sv)"
  unfolding add_topic_def Let_def
  by (auto split: option.split prod.split intro!: keeps_intros kept_callbacks good_move intro: session_move.create_topic)

lemma kept_topic_sync [keeps_intros]: "good sv \<Longrightarrow> kept (processTopicSync env i sv)"
  unfolding processTopicSync_def Let_def by (auto intro!: keeps_intros kept_drop_topic kept_add_topic)

lemma kept_topic_frame [keeps_intros]: "good sv \<Longrightarrow> kept (handleClientTopicFrame env i f sv)"
  unfolding handleClientTopicFrame_def Let_def
  by (auto split: frame_type.split payload.split option.split intro!: keeps_intros good_internal kept_topic_sync)

lemma good_rate_limit: "good sv \<Longrightarrow> good (fst (rate_limit u now sv))"
  by (auto simp: rate_limit_def Let_def count_frame_def split: option.split intro!: good_internal)

lemma good_peer_heartbeat: "good sv \<Longrightarrow> good (on_peer_heartbeat w now sv)"
  by (auto simp: on_peer_heartbeat_def split: option.split intro!: good_internal)

end

section \<open>Closing a connection\<close>

locale closing_rules = handler_rules +
  assumes kept_disconnect: "good sv \<Longrightarrow> kept (handleSessionDisconnect thr u sv)"
begin

lemma kept_on_close [keeps_intros]: "good sv \<Longrightarrow> kept (on_ws_close w sv)"
  unfolding on_ws_close_def Let_def by (auto intro!: keeps_intros good_conn kept_disconnect)

lemma kept_ws_close [keeps_intros]: "good sv \<Longrightarrow> kept (ws_close env w sv)"
  unfolding ws_close_def Let_def by (auto intro!: keeps_intros good_conn kept_on_close)

end

section \<open>All that can happen\<close>

locale server_rules = closing_rules +
  fixes allowed_input :: "server_input \<Rightarrow> bool"
  assumes kept_route: "good sv \<Longrightarrow> kept (route_frame i f sv)"
    and kept_identified: "good sv \<Longrightarrow> kept (handleIdentified env w u now sv)"
    and kept_authorize: "good sv \<Longrightarrow> kept (sv_authorize env u token p sv)"
    and kept_close: "good sv \<Longrightarrow> kept (sv_close sv)"
    and refusal_ok: "frame_ok (mk_frame AuthFail 0 DT_String (PString reason))"
    and good_refuse: "good sv \<Longrightarrow> good (sv\<lparr>sv_tmpSessions := AList.delete u (sv_tmpSessions sv)\<rparr>)"
    and good_enable: "allowed_input (SI_EnableAuthorization b t) \<Longrightarrow> good sv \<Longrightarrow> good (sv\<lparr>sv_authEnabled := b, sv_authTimeoutMs := t\<rparr>)"
    and good_limit: "allowed_input (SI_SetMaxConnections n) \<Longrightarrow> good sv \<Longrightarrow> good (sv\<lparr>sv_maxConnections := n\<rparr>)"
    and good_rate: "good sv \<Longrightarrow> good (sv\<lparr>sv_maxFramesPerSec := n\<rparr>)"
begin

lemma kept_reject [keeps_intros]: "good sv \<Longrightarrow> kept (sv_reject env u reason sv)"
  unfolding sv_reject_def Let_def
  by (auto split: option.split intro!: keeps_intros kept_sendFrame refusal_ok good_refuse kept_ws_close)

lemma kept_auth_call [keeps_intros]: "good sv \<Longrightarrow> kept (run_auth_call env call sv)"
  unfolding run_auth_call_def by (auto split: auth_call.split intro!: kept_authorize kept_reject)

lemma kept_frame [keeps_intros]:
  assumes "good sv"
  shows "kept (on_frame env w now f sv)"
proof -
  let ?u = "cn_uuid (sv_conns sv w)"
  obtain sv1 limited where r: "rate_limit ?u now (sv\<lparr>sv_framesIn := sv_framesIn sv + 1\<rparr>) = (sv1, limited)" by fastforce
  have "good sv1" using good_rate_limit [OF good_framesIn [OF assms], of ?u now "sv_framesIn sv + 1"] r by simp
  then show ?thesis
    unfolding on_frame_def
    by (auto simp: r Let_def split: option.split intro!: keeps_intros kept_ws_close kept_identified kept_auth_call
        kept_topic_frame kept_route good_conn)
qed

lemma kept_event [keeps_intros]: "good sv \<Longrightarrow> kept (sv_event env w now ev sv)"
  by (cases ev) (auto simp: sv_event_def intro!: keeps_intros kept_frame good_peer_heartbeat)

lemma kept_message [keeps_intros]: "good sv \<Longrightarrow> kept (sv_on_message env w now data sv)"
  unfolding sv_on_message_def by (auto split: prod.split intro!: keeps_intros good_conn kept_event)

lemma kept_tick:
  assumes "good sv"
  shows "kept (sv_heartbeat_tick i now sv)"
proof -
  obtain hb evs where t: "hb_tick now (in_heartbeat (sv_internals sv i)) = (hb, evs)" by fastforce
  let ?f = "\<lambda>ev sv. case ev of
       HB_Send data \<Rightarrow> (let w = in_heartbeatTo (sv_internals sv i) in fine sv (if conn_open sv w then [Sv_Send w data] else []))
     | HB_Timeout \<Rightarrow> handleSessionDisconnect (Some i) (ss_id (session_at sv i)) sv"
  have "kept (?f ev sv)" if "ev \<in> set evs" "good sv" for ev sv
  proof (cases ev)
    case (HB_Send data)
    then have "data = encodeHeartbeat" using that(1) t by (auto simp: hb_tick_def split: if_splits)
    then show ?thesis using HB_Send that(2) by (auto simp: Let_def intro!: keeps_intros)
  next
    case HB_Timeout
    then show ?thesis using that(2) by (auto intro!: kept_disconnect)
  qed
  then have "kept (for_each ?f evs (upd_internal i (\<lambda>n. n\<lparr>in_heartbeat := hb\<rparr>) sv))"
    using assms by (intro keeps_for_each) (auto intro: good_internal)
  then show ?thesis
    unfolding sv_heartbeat_tick_def by (auto simp: t Let_def keeps_def split: prod.split option.split)
qed

lemma kept_step: "allowed_input inp \<Longrightarrow> good sv \<Longrightarrow> kept (server_step env now inp sv)"
  by (cases inp)
    (auto simp: server_step_def handleConnection_def split: option.split
      intro!: keeps_intros good_conn kept_message kept_on_close kept_tick kept_authorize kept_reject kept_broadcast
        kept_sv_principal_ops kept_call kept_close good_rate intro: good_enable good_limit)

lemma kept_run: "list_all (\<lambda>(now, inp). allowed_input inp) ins \<Longrightarrow> good sv \<Longrightarrow> kept (server_run env ins sv)"
proof (induction ins arbitrary: sv)
  case (Cons x ins)
  then show ?case by (cases x) (auto intro!: keeps_intros kept_step)
qed (simp add: keeps_fine)

end

end
