(* ===== verification/Server_Invariants.thy ===== *)
theory Server_Invariants
  imports Server_Rules
begin

text \<open>
  What every run of a server keeps, whatever its clients, its transport and its user's callbacks
  do: the session tables are consistent, and the limit of connections is respected. The invariant
  is an instance of the contract of \<open>Server_Rules\<close>.
\<close>

section \<open>Who a session is\<close>

text \<open>No operation changes the id of a session or takes its authorization away.\<close>

definition same_who :: "session \<Rightarrow> session \<Rightarrow> bool" where
  "same_who ss ss' \<longleftrightarrow> ss_id ss' = ss_id ss \<and> (ss_authorized ss \<longrightarrow> ss_authorized ss')"

named_theorems who_rules \<open>session operations keep the identity of the session\<close>

lemma who_refl [who_rules]: "same_who ss ss"
  by (simp add: same_who_def)

lemma who_set [who_rules]: "ss_set ss key v = Inr (ss', out) \<Longrightarrow> same_who ss ss'"
  by (auto simp: ss_set_def same_who_def Let_def split: option.splits if_splits prod.splits)

lemma who_clear [who_rules]:
  "ss_clearKey ss key = (ss', out) \<Longrightarrow> same_who ss ss'" "ss_clearAll ss = (ss', out) \<Longrightarrow> same_who ss ss'"
  by (auto simp: ss_clearKey_def ss_clearAll_def same_who_def Let_def split: option.splits if_splits prod.splits)

lemma who_topic_set [who_rules]: "ss_topic_set ss name key v = (ss', out) \<Longrightarrow> same_who ss ss'"
  by (auto simp: ss_topic_set_def same_who_def Let_def split: option.splits prod.splits)

lemma who_topics [who_rules]:
  "ss_createTopicHandle ss name params idx = Inr ss' \<Longrightarrow> same_who ss ss'"
  "ss_removeTopicHandle ss name = Inr (ss', out) \<Longrightarrow> same_who ss ss'"
  "ss_disposeAllTopicHandles ss = Inr ss' \<Longrightarrow> same_who ss ss'"
  by (auto simp: ss_createTopicHandle_def ss_removeTopicHandle_def ss_disposeAllTopicHandles_def same_who_def
      rbind_eq_Inr Let_def split: if_splits option.splits)

lemma who_protocol [who_rules]:
  "same_who ss (ss_bindSessionTX ss)" "same_who ss (ss_setTxProviders ss)" "same_who ss (ss_handleReconnect ss)"
  "same_who ss (ss_authorize ss p)" "ss_handleDisconnect ss = (ss', out) \<Longrightarrow> same_who ss ss'"
  "ss_startSync ss pt = (ss', pt', out) \<Longrightarrow> same_who ss ss'"
  by (auto simp: ss_bindSessionTX_def ss_setTxProviders_def ss_handleReconnect_def ss_authorize_def
      ss_handleDisconnect_def ss_startSync_def same_who_def Let_def split: if_splits prod.splits)

lemma who_handleFrame [who_rules]: "ss_handleFrame ss pt f = (ss', pt', out) \<Longrightarrow> same_who ss ss'"
  using ss_handleFrame_state(1) [of ss pt f ss' pt' out] by (simp add: same_who_def)

lemma same_who_trans: "same_who a b \<Longrightarrow> same_who b c \<Longrightarrow> same_who a c"
  by (simp add: same_who_def)

lemma who_move: "session_move ss ss' out \<Longrightarrow> same_who ss ss'"
  by (erule session_moveE) (auto intro: who_rules same_who_trans)

section \<open>The tables\<close>

definition tables_ok :: "server \<Rightarrow> bool" where
  "tables_ok sv \<longleftrightarrow> um_wf (sv_sessions sv) \<and> um_wf (sv_tmpSessions sv)
     \<and> (\<forall>u i. map_of (sv_sessions sv) u = Some i \<longrightarrow>
          map_of (sv_tmpSessions sv) u = None \<and> i < sv_next sv
          \<and> ss_id (session_at sv i) = u \<and> ss_authorized (session_at sv i))
     \<and> (\<forall>u i. map_of (sv_tmpSessions sv) u = Some i \<longrightarrow> i < sv_next sv \<and> ss_id (session_at sv i) = u)
     \<and> (\<not> sv_authEnabled sv \<longrightarrow> sv_tmpSessions sv = [])"

text \<open>With a limit \<open>m > 0\<close> that nobody changes, there are at most \<open>m\<close> sessions.\<close>

definition within_limit :: "int \<Rightarrow> server \<Rightarrow> bool" where
  "within_limit m sv \<longleftrightarrow> (0 < m \<longrightarrow> sv_maxConnections sv = m
     \<and> int (length (sv_sessions sv)) + int (length (sv_tmpSessions sv)) \<le> m)"

text \<open>Addresses that a handler holds on to keep belonging to the same client.\<close>

definition held :: "(nat \<times> string) list \<Rightarrow> server \<Rightarrow> bool" where
  "held T sv \<longleftrightarrow> (\<forall>(i, u) \<in> set T. i < sv_next sv \<and> ss_id (session_at sv i) = u)"

definition sv_ok :: "int \<Rightarrow> (nat \<times> string) list \<Rightarrow> server \<Rightarrow> bool" where
  "sv_ok m T sv \<longleftrightarrow> tables_ok sv \<and> within_limit m sv \<and> held T sv"

lemma list_all_out_ok [simp]: "list_all (sess_out_ok (\<lambda>_. True)) out" "list_all (fs_out_ok (\<lambda>_. True)) fout"
  by (simp_all add: list_all_iff)

named_theorems ok_intros \<open>state changes that keep the tables in order\<close>

lemma ok_upd_internal [ok_intros]:
  assumes "sv_ok m T sv" "same_who (session_at sv i) (in_session (f (sv_internals sv i)))"
  shows "sv_ok m T (upd_internal i f sv)"
  using assms by (auto simp: sv_ok_def tables_ok_def within_limit_def held_def upd_internal_def session_at_def same_who_def)

lemma ok_put_session [ok_intros]:
  "sv_ok m T sv \<Longrightarrow> same_who (session_at sv i) ss \<Longrightarrow> sv_ok m T (put_session i ss sv)"
  unfolding put_session_def by (rule ok_upd_internal) simp_all

lemma ok_fields [ok_intros]:
  "sv_ok m T sv \<Longrightarrow> sv_ok m T (sv\<lparr>sv_principals := pm\<rparr>)"
  "sv_ok m T sv \<Longrightarrow> sv_ok m T (sv\<lparr>sv_principalIndex := ix\<rparr>)"
  "sv_ok m T sv \<Longrightarrow> sv_ok m T (sv\<lparr>sv_framesIn := k\<rparr>)"
  "sv_ok m T sv \<Longrightarrow> sv_ok m T (sv\<lparr>sv_framesOut := k\<rparr>)"
  "sv_ok m T sv \<Longrightarrow> sv_ok m T (upd_conn w g sv)"
  "sv_ok m T sv \<Longrightarrow> sv_ok m T (indexAddSession p i sv)"
  "sv_ok m T sv \<Longrightarrow> sv_ok m T (indexRemoveSession p i sv)"
  by (auto simp: sv_ok_def tables_ok_def within_limit_def held_def upd_conn_def indexAddSession_def
      indexRemoveSession_def session_at_def Let_def split: option.split)

lemma ok_drop_tmp [ok_intros]:
  "sv_ok m T sv \<Longrightarrow> sv_ok m T (sv\<lparr>sv_tmpSessions := AList.delete u (sv_tmpSessions sv)\<rparr>)"
  using length_delete_le [of u "sv_tmpSessions sv"]
  by (auto simp: sv_ok_def tables_ok_def within_limit_def held_def session_at_def)

lemma ok_drop_session [ok_intros]:
  "sv_ok m T sv \<Longrightarrow> sv_ok m T (sv\<lparr>sv_sessions := AList.delete u (sv_sessions sv)\<rparr>)"
  using length_delete_le [of u "sv_sessions sv"]
  by (auto simp: sv_ok_def tables_ok_def within_limit_def held_def session_at_def)

lemma ok_clear_tables [ok_intros]:
  "sv_ok m T sv \<Longrightarrow> sv_ok m T (sv\<lparr>sv_sessions := [], sv_tmpSessions := [], sv_principalIndex := ix\<rparr>)"
  by (auto simp: sv_ok_def tables_ok_def within_limit_def held_def session_at_def)

lemma length_update_le: "length (AList.update k v m) \<le> Suc (length m)"
  by (induction m) auto

lemma length_delete_present: "map_of m k = Some v \<Longrightarrow> length (AList.delete k m) < length m"
proof (induction m)
  case (Cons x m)
  then show ?case using length_delete_le [of k m] by (cases x) (auto simp: less_Suc_eq_le)
qed simp

text \<open>From one table to the other, and into either of them.\<close>

lemma ok_demote:
  assumes "sv_ok m T sv" "sv_authEnabled sv" "map_of (sv_sessions sv) u = Some j" "i < sv_next sv"
    "ss_id (session_at sv i) = u"
  shows "sv_ok m T (sv\<lparr>sv_tmpSessions := AList.update u i (sv_tmpSessions sv),
                      sv_sessions := AList.delete u (sv_sessions sv)\<rparr>)"
  using assms length_delete_present [OF assms(3)] length_update_le [of u i "sv_tmpSessions sv"]
  by (auto simp: sv_ok_def tables_ok_def within_limit_def held_def session_at_def)

lemma ok_add_session:
  assumes "sv_ok m T sv" "map_of (sv_tmpSessions sv) u = None" "i < sv_next sv" "ss_id (session_at sv i) = u"
    "ss_authorized (session_at sv i)"
    "0 < m \<Longrightarrow> int (length (sv_sessions sv)) + int (length (sv_tmpSessions sv)) < m"
  shows "sv_ok m T (sv\<lparr>sv_sessions := AList.update u i (sv_sessions sv)\<rparr>)"
  using assms length_update_le [of u i "sv_sessions sv"]
  by (auto simp: sv_ok_def tables_ok_def within_limit_def held_def session_at_def)

lemma ok_add_tmp:
  assumes "sv_ok m T sv" "sv_authEnabled sv" "map_of (sv_sessions sv) u = None" "i < sv_next sv" "ss_id (session_at sv i) = u"
    "0 < m \<Longrightarrow> int (length (sv_sessions sv)) + int (length (sv_tmpSessions sv)) < m"
  shows "sv_ok m T (sv\<lparr>sv_tmpSessions := AList.update u i (sv_tmpSessions sv)\<rparr>)"
  using assms length_update_le [of u i "sv_tmpSessions sv"]
  by (auto simp: sv_ok_def tables_ok_def within_limit_def held_def session_at_def)

lemma ok_alloc:
  assumes "sv_ok m T sv"
  shows "sv_ok m T (upd_internal (sv_next sv) (\<lambda>_. n) (sv\<lparr>sv_next := sv_next sv + 1\<rparr>))"
  using assms by (fastforce simp: sv_ok_def tables_ok_def within_limit_def held_def upd_internal_def session_at_def)

section \<open>The contract\<close>

interpretation tables: handler_rules "sv_ok m T" "\<lambda>_. True" for m T
proof (unfold_locales, goal_cases)
  case (1 sv i ss' out)
  then show ?case by (blast intro: ok_put_session who_move)
next
  case (8 sv f i)
  then show ?case by (intro ok_upd_internal) (simp_all add: session_at_def who_refl)
qed (auto simp: list_all_iff intro: ok_fields)

lemma tables_disconnect [keeps_intros]: "sv_ok m T sv \<Longrightarrow> tables.kept m T (handleSessionDisconnect thr u sv)"
  unfolding handleSessionDisconnect_def Let_def
  by (auto split: option.split intro!: keeps_intros ok_intros simp: session_at_def who_rules)

interpretation tables: closing_rules "sv_ok m T" "\<lambda>_. True" for m T
  by unfold_locales (rule tables_disconnect)

section \<open>Handlers that change the tables\<close>

lemma tables_start_sync [keeps_intros]: "sv_ok m T sv \<Longrightarrow> tables.kept m T (start_sync i sv)"
  unfolding start_sync_def Let_def
  by (auto split: prod.split intro!: tables.kept_sess_out ok_intros intro: who_rules simp: session_at_def)

lemma tables_activate [keeps_intros]: "sv_ok m T sv \<Longrightarrow> tables.kept m T (activateSession env i p sv)"
  unfolding activateSession_def Let_def
  by (auto split: prod.split intro!: keeps_intros ok_intros simp: who_rules session_at_def)

lemma start_hb_cases:
  obtains e where "start_hb now i sv = (sv, [], Some e)"
  | hb where "start_hb now i sv = fine (upd_internal i (\<lambda>n. n\<lparr>in_heartbeat := hb\<rparr>) sv) []"
  by (cases "hb_start False now (in_heartbeat (sv_internals sv i))") (auto simp: start_hb_def run_res_def)

lemma upd_internal_fields [simp]:
  "sv_sessions (upd_internal i f sv) = sv_sessions sv" "sv_tmpSessions (upd_internal i f sv) = sv_tmpSessions sv"
  "sv_next (upd_internal i f sv) = sv_next sv" "sv_authEnabled (upd_internal i f sv) = sv_authEnabled sv"
  "sv_mode (upd_internal i f sv) = sv_mode sv" "sv_maxConnections (upd_internal i f sv) = sv_maxConnections sv"
  "session_at (upd_internal i f sv) j = (if j = i then in_session (f (sv_internals sv i)) else session_at sv j)"
  by (simp_all add: upd_internal_def session_at_def)

lemma put_session_fields [simp]:
  "sv_sessions (put_session i ss sv) = sv_sessions sv" "sv_tmpSessions (put_session i ss sv) = sv_tmpSessions sv"
  "sv_next (put_session i ss sv) = sv_next sv" "sv_authEnabled (put_session i ss sv) = sv_authEnabled sv"
  "sv_maxConnections (put_session i ss sv) = sv_maxConnections sv"
  "session_at (put_session i ss sv) j = (if j = i then ss else session_at sv j)"
  by (simp_all add: put_session_def)

lemma tables_create:
  assumes "sv_ok m T sv" "map_of (sv_sessions sv) u = None"
    and room: "0 < m \<Longrightarrow> int (length (sv_sessions sv)) + int (length (sv_tmpSessions sv)) < m"
  shows "tables.kept m T (create_session env w u now sv)"
proof -
  let ?i = "sv_next sv"
  let ?sv = "upd_internal ?i (\<lambda>_. new_internal (ss_setEnqueue (new_session u)) w now) (sv\<lparr>sv_next := ?i + 1\<rparr>)"
  have ok: "sv_ok m T ?sv" using assms(1) by (rule ok_alloc)
  show ?thesis
  proof (cases rule: start_hb_cases [of now ?i ?sv])
    case (1 e)
    then show ?thesis using ok by (simp add: create_session_def Let_def keeps_throw)
  next
    case (2 hb)
    let ?sv2 = "upd_internal ?i (\<lambda>n. n\<lparr>in_heartbeat := hb\<rparr>) ?sv"
    have ok2: "sv_ok m T ?sv2" by (rule ok_upd_internal [OF ok]) (simp add: who_refl session_at_def)
    have who: "ss_id (session_at ?sv2 ?i) = u"
      by (simp add: session_at_def upd_internal_def new_internal_def ss_setEnqueue_def new_session_def)
    show ?thesis
    proof (cases "sv_authEnabled sv")
      case True
      then have "create_session env w u now sv = fine (?sv2\<lparr>sv_tmpSessions := AList.update u ?i (sv_tmpSessions ?sv2)\<rparr>) []"
        using 2 by (simp add: create_session_def Let_def)
      moreover have "sv_ok m T (?sv2\<lparr>sv_tmpSessions := AList.update u ?i (sv_tmpSessions ?sv2)\<rparr>)"
        by (rule ok_add_tmp [OF ok2]) (use True assms(2) room who in simp_all)
      ultimately show ?thesis by (simp add: keeps_fine)
    next
      case False
      have tmp: "sv_tmpSessions sv = []" using assms(1) False by (simp add: sv_ok_def tables_ok_def)
      let ?p = "default_principal ?sv2"
      let ?sv3 = "put_session ?i (ss_authorize (session_at ?sv2 ?i) ?p) ?sv2"
      have ok3: "sv_ok m T ?sv3" by (rule ok_put_session [OF ok2]) (rule who_rules)
      have "sv_ok m T (?sv3\<lparr>sv_sessions := AList.update u ?i (sv_sessions ?sv3)\<rparr>)"
        by (rule ok_add_session [OF ok3]) (use tmp False room who in \<open>simp_all add: ss_authorize_def\<close>)
      moreover have "create_session env w u now sv
          = activateSession env ?i ?p (?sv3\<lparr>sv_sessions := AList.update u ?i (sv_sessions ?sv3)\<rparr>)"
        using 2 False by (simp add: create_session_def Let_def)
      ultimately show ?thesis by (simp add: tables_activate)
    qed
  qed
qed

lemma tables_resume:
  assumes "sv_ok m T sv" "map_of (sv_sessions sv) u = Some j" "i < sv_next sv" "ss_id (session_at sv i) = u"
  shows "tables.kept m T (resume_session env w u i sv)"
proof -
  let ?sv = "upd_internal i (\<lambda>n. n\<lparr>in_flushTo := w\<rparr>) sv"
  have ok: "sv_ok m T ?sv"
    by (rule ok_upd_internal [OF assms(1)]) (simp add: who_rules session_at_def)
  have here: "map_of (sv_sessions ?sv) u = Some j" "i < sv_next ?sv" "ss_id (session_at ?sv i) = u"
    using assms(2-4) by (simp_all) (simp add: session_at_def)
  show ?thesis
  proof (cases "sv_authEnabled ?sv")
    case True
    from ok_demote [OF ok True here] show ?thesis using True by (simp add: resume_session_def keeps_fine)
  next
    case False
    then show ?thesis
      by (auto simp: resume_session_def Let_def who_rules intro!: keeps_intros ok_put_session ok)
  qed
qed

lemma tables_reconnect:
  assumes "sv_ok m T sv" "i < sv_next sv" "ss_id (session_at sv i) = u"
  shows "tables.kept m T (reconnect_session env w u now i sv)"
proof -
  have "sv_ok m ((i, u) # T) sv" using assms by (simp add: sv_ok_def held_def)
  then have "tables.kept m ((i, u) # T) (reconnect_session env w u now i sv)"
    unfolding reconnect_session_def
  proof (intro keeps_and_then, goal_cases)
    case 1
    then show ?case by (auto split: option.split intro!: keeps_intros)
  next
    case (2 sv)
    let ?sv1 = "upd_internal i (\<lambda>n. n\<lparr>in_ws := Some w, in_session := ss_handleReconnect (in_session n)\<rparr>) sv"
    have ok1: "sv_ok m ((i, u) # T) ?sv1"
      by (rule ok_upd_internal [OF 2(2)]) (simp add: who_rules session_at_def)
    show ?case
    proof (cases "map_of (sv_sessions sv) u")
      case None
      then show ?thesis using 2 by (simp add: keeps_throw)
    next
      case (Some j)
      show ?thesis
      proof (cases rule: start_hb_cases [of now i ?sv1])
        case (1 e)
        then show ?thesis using Some ok1 by (simp add: keeps_throw Let_def)
      next
        case (2 hb)
        let ?sv2 = "upd_internal i (\<lambda>n. n\<lparr>in_heartbeat := hb\<rparr>) ?sv1"
        have ok2: "sv_ok m ((i, u) # T) ?sv2"
          by (rule ok_upd_internal [OF ok1]) (simp add: who_rules session_at_def)
        have "tables.kept m ((i, u) # T) (resume_session env w u i ?sv2)"
          by (rule tables_resume [OF ok2, of _ j]) (use Some ok2 in \<open>auto simp: sv_ok_def held_def\<close>)
        then show ?thesis using Some 2 by (simp add: Let_def)
      qed
    qed
  qed
  then show ?thesis by (simp add: keeps_def sv_ok_def held_def)
qed

lemma tables_identified:
  assumes "sv_ok m T sv"
  shows "tables.kept m T (handleIdentified env w u now sv)"
proof (cases "map_of (sv_sessions sv) u")
  case (Some i)
  then have "i < sv_next sv" "ss_id (session_at sv i) = u"
    using assms by (simp_all add: sv_ok_def tables_ok_def)
  then show ?thesis
    using Some tables_reconnect [OF assms] by (simp add: handleIdentified_def Let_def)
next
  case None
  have room: "int (length (sv_sessions sv)) + int (length (sv_tmpSessions sv)) < m"
    if "0 < m" "\<not> (0 < sv_maxConnections sv \<and> sv_maxConnections sv
        \<le> int (length (sv_sessions sv)) + int (length (sv_tmpSessions sv)))"
    using assms that by (auto simp: sv_ok_def within_limit_def)
  show ?thesis
    using None tables_create [OF assms None room] tables.kept_ws_close [OF assms]
    by (auto simp: handleIdentified_def Let_def)
qed

lemma sendFrame_cases:
  obtains out e k where "sv_sendFrame i f sv = (sv\<lparr>sv_framesOut := k\<rparr>, out, e)"
proof (cases "ws_is_open sv i")
  case True
  then show thesis
    using that [of "sv_framesOut sv + 1"]
    by (cases "encode f") (auto simp: ws_is_open_def sv_sendFrame_def fine_def run_res_def Let_def split: option.splits)
next
  case False
  then have "sv_sendFrame i f sv = (sv\<lparr>sv_framesOut := sv_framesOut sv\<rparr>, [], None)"
    by (auto simp: ws_is_open_def sv_sendFrame_def fine_def split: option.splits)
  then show thesis by (rule that)
qed

lemma tables_authorize [keeps_intros]:
  assumes "sv_ok m T sv"
  shows "tables.kept m T (sv_authorize env u token p sv)"
proof (cases "p = [] \<or> map_of (sv_tmpSessions sv) u = None")
  case True
  then show ?thesis using assms by (auto simp: sv_authorize_def intro!: keeps_intros)
next
  case False
  then obtain i where i: "map_of (sv_tmpSessions sv) u = Some i" by auto
  let ?sv1 = "sv\<lparr>sv_tmpSessions := AList.delete u (sv_tmpSessions sv)\<rparr>"
  let ?sv2 = "put_session i (ss_authorize (session_at ?sv1 i) p) ?sv1"
  have here: "i < sv_next sv" "ss_id (session_at sv i) = u" using assms i by (simp_all add: sv_ok_def tables_ok_def)
  have ok: "sv_ok m T ?sv2"
    by (rule ok_put_session [OF ok_drop_tmp [OF assms]]) (rule who_rules)
  obtain out e k where s: "sv_sendFrame i (signal AuthOk 0) ?sv2 = (?sv2\<lparr>sv_framesOut := k\<rparr>, out, e)"
    by (rule sendFrame_cases)
  have outs: "list_all (server_out_ok (\<lambda>_. True)) out"
    using tables.kept_sendFrame [OF _ ok, where f = "signal AuthOk 0" and i = i] s by (simp add: keeps_def)
  let ?sv3 = "?sv2\<lparr>sv_framesOut := k\<rparr>"
  have ok3: "sv_ok m T ?sv3" using ok by (rule ok_fields)
  have "sv_ok m T (?sv3\<lparr>sv_sessions := AList.update u i (sv_sessions ?sv3)\<rparr>)"
  proof (rule ok_add_session [OF ok3])
    show "ss_id (session_at ?sv3 i) = u" "ss_authorized (session_at ?sv3 i)"
      using here by (simp_all add: session_at_def put_session_def upd_internal_def ss_authorize_def)
    show "int (length (sv_sessions ?sv3)) + int (length (sv_tmpSessions ?sv3)) < m" if "0 < m"
      using that assms length_delete_present [OF i] by (simp add: sv_ok_def within_limit_def)
  qed (use here in simp_all)
  then have "tables.kept m T (activateSession env i p (?sv3\<lparr>sv_sessions := AList.update u i (sv_sessions ?sv3)\<rparr>))"
    by (rule tables_activate)
  then have "tables.kept m T (and_then (?sv3, out, e) (\<lambda>sv. activateSession env i p (sv\<lparr>sv_sessions := AList.update u i (sv_sessions sv)\<rparr>)))"
    using ok3 outs by (cases e) (simp_all add: keeps_throw keeps_emit_before and_then_None)
  then show ?thesis using False i s by (simp add: sv_authorize_def Let_def)
qed

lemma tables_route [keeps_intros]: "sv_ok m T sv \<Longrightarrow> tables.kept m T (route_frame i f sv)"
  unfolding route_frame_def Let_def
  by (auto split: prod.splits if_splits intro!: tables.kept_sess_out ok_put_session ok_fields
      simp: session_at_def dest: who_handleFrame)

lemma tables_close [keeps_intros]: "sv_ok m T sv \<Longrightarrow> tables.kept m T (sv_close sv)"
  unfolding sv_close_def close_internal_def Let_def
  by (auto split: option.split intro!: keeps_intros ok_intros simp: session_at_def who_rules)

section \<open>Properties\<close>

text \<open>The inputs of a run in which the limits and the use of authorization stay as they are.\<close>

definition settings_fixed :: "server_input \<Rightarrow> bool" where
  "settings_fixed inp \<longleftrightarrow>
     (case inp of SI_EnableAuthorization b t \<Rightarrow> False | SI_SetMaxConnections n \<Rightarrow> False | _ \<Rightarrow> True)"

interpretation tables: server_rules "sv_ok m T" "\<lambda>_. True" settings_fixed for m T
proof (unfold_locales, goal_cases)
  case (6 sv u)
  then show ?case by (rule ok_drop_tmp)
next
  case (9 sv n)
  then show ?case by (simp add: sv_ok_def tables_ok_def within_limit_def held_def session_at_def)
qed (auto simp: settings_fixed_def intro: tables_route tables_identified tables_authorize tables_close)

text \<open>A server as configured before it is started.\<close>

definition configured :: "server_mode \<Rightarrow> bool \<Rightarrow> int \<Rightarrow> server" where
  "configured mode auth maxConnections =
     (new_server mode 600000)\<lparr>sv_authEnabled := auth, sv_maxConnections := maxConnections\<rparr>"

lemma ok_configured: "sv_ok m [] (configured mode auth m)"
  by (simp add: configured_def new_server_def sv_ok_def tables_ok_def within_limit_def held_def)


text \<open>C12. The limit of connections is respected: with a positive limit the active and the waiting sessions
  together never exceed it, in any run, reconnections and authorizations included.\<close>

theorem max_connections_respected:
  assumes "list_all (\<lambda>(now, inp). settings_fixed inp) ins" and "0 < maxc"
  shows "int (activeSessions (sv_metrics (fst (server_run env ins (configured mode auth maxc))))
    + pendingSessions (sv_metrics (fst (server_run env ins (configured mode auth maxc))))) \<le> maxc"
proof -
  have "sv_ok maxc [] (fst (server_run env ins (configured mode auth maxc)))"
    by (rule keepsD(1) [OF tables.kept_run [OF assms(1) ok_configured]])
  then show ?thesis using assms(2) by (simp add: sv_metrics_def sv_ok_def within_limit_def)
qed

text \<open>A user without callbacks, on a transport that closes asynchronously.\<close>

definition plain_env :: env where
  "plain_env = \<lparr>env_sync_close = False, env_onConnection = [], env_onAuthorize = [],
     env_onSubscribe = [], env_onUnsubscribe = []\<rparr>"

text \<open>The bytes with which the client with the given id identifies itself.\<close>

definition identify_message :: "byte \<Rightarrow> bytes" where
  "identify_message b =
     (case encode (mk_frame Identify 0 DT_Binary (PBinary (replicate 16 b @ [3, 5]))) of Inr bs \<Rightarrow> bs | Inl _ \<Rightarrow> [])"

definition two_clients :: "(int \<times> server_input) list" where
  "two_clients = [(0, SI_Connect 1), (0, SI_Connect 2), (1, SI_Message 1 (identify_message 1)),
     (2, SI_Message 2 (identify_message 2))]"


theorem max_connections_respected_witness:
  "activeSessions (sv_metrics (fst (server_run plain_env two_clients (configured Principal False 1)))) \<le> 1
   \<and> Sv_Close 2 \<in> set (fst (snd (server_run plain_env two_clients (configured Principal False 1))))"
proof
  show "Sv_Close 2 \<in> set (fst (snd (server_run plain_env two_clients (configured Principal False 1))))" by code_simp
  have "list_all (\<lambda>(now, inp). settings_fixed inp) two_clients" by code_simp
  from max_connections_respected [OF this, of 1 plain_env Principal False]
  show "activeSessions (sv_metrics (fst (server_run plain_env two_clients (configured Principal False 1)))) \<le> 1" by simp
qed

end
