(* ===== verification/Server_Security.thy ===== *)
theory Server_Security
  imports Server_Invariants
begin

text \<open>
  Authorization guards the data: until the server's user authorizes somebody, no client gets
  anything but heartbeats and refusals, whatever it sends. A second invariant of the server, over
  the same rules \<open>keeps_intros\<close>.
\<close>

definition quiet :: "server \<Rightarrow> bool" where
  "quiet sv \<longleftrightarrow> sv_authEnabled sv \<and> sv_sessions sv = [] \<and> sv_principalIndex sv = []"

text \<open>Outputs that carry no data: heartbeats and refusals.\<close>

definition harmless :: "server_out \<Rightarrow> bool" where
  "harmless ev =
     (case ev of
        Sv_Send w bs \<Rightarrow> bs = encodeHeartbeat \<or> (\<exists>reason. encode (mk_frame AuthFail 0 DT_String (PString reason)) = Inr bs)
      | Sv_Connection u \<Rightarrow> False
      | Sv_Ready u \<Rightarrow> False
      | Sv_Subscribe u t \<Rightarrow> False
      | Sv_Unsubscribe u t \<Rightarrow> False
      | _ \<Rightarrow> True)"

abbreviation guarded :: "sres \<Rightarrow> bool" where
  "guarded \<equiv> keeps quiet harmless"

definition never_authorizes :: "env \<Rightarrow> bool" where
  "never_authorizes env \<longleftrightarrow> (\<forall>cb \<in> set (env_onAuthorize env). \<forall>u token. \<forall>call \<in> set (cb u token).
     \<exists>v reason. call = AC_Reject v reason)"

named_theorems quiet_intros \<open>state changes that keep a server quiet\<close>

lemma quiet_fields [quiet_intros]:
  "quiet sv \<Longrightarrow> quiet (upd_internal i f sv)" "quiet sv \<Longrightarrow> quiet (put_session i ss sv)"
  "quiet sv \<Longrightarrow> quiet (upd_conn w g sv)" "quiet sv \<Longrightarrow> quiet (sv\<lparr>sv_principals := pm\<rparr>)"
  "quiet sv \<Longrightarrow> quiet (sv\<lparr>sv_framesIn := k\<rparr>)" "quiet sv \<Longrightarrow> quiet (sv\<lparr>sv_framesOut := k\<rparr>)"
  "quiet sv \<Longrightarrow> quiet (sv\<lparr>sv_tmpSessions := tmp\<rparr>)" "quiet sv \<Longrightarrow> quiet (sv\<lparr>sv_next := n\<rparr>)"
  "quiet sv \<Longrightarrow> quiet (sv\<lparr>sv_maxFramesPerSec := k\<rparr>)" "quiet sv \<Longrightarrow> quiet (sv\<lparr>sv_maxConnections := k\<rparr>)"
  by (simp_all add: quiet_def upd_internal_def put_session_def upd_conn_def)

lemma quiet_no_session: "quiet sv \<Longrightarrow> map_of (sv_sessions sv) u = None"
  by (simp add: quiet_def)

lemma quiet_index [simp]: "quiet sv \<Longrightarrow> index_of sv p = []"
  by (simp add: quiet_def index_of_def)

lemma harmless_simps [simp]:
  "harmless (Sv_Close w)" "harmless (Sv_Disconnect u)" "harmless (Sv_AuthRequest u t)" "harmless Sv_Stop"
  "harmless (Sv_Send w encodeHeartbeat)"
  "encode (mk_frame AuthFail 0 DT_String (PString reason)) = Inr bs \<Longrightarrow> harmless (Sv_Send w bs)"
  by (auto simp: harmless_def)

lemma guarded_principal_op [keeps_intros]: "quiet sv \<Longrightarrow> guarded (principal_op p g sv)"
proof -
  assume q: "quiet sv"
  have "guarded (ptx_onValue p f sv)" "guarded (ptx_onResync p sv)" if "quiet sv" for f sv
    using that by (auto simp: ptx_onValue_def ptx_onResync_def Let_def split: prod.split intro!: keeps_fine quiet_intros)
      (simp add: quiet_def index_of_def keeps_fine)
  then show ?thesis
    using q unfolding principal_op_def Let_def
    by (auto split: prod.split fs_out.split intro!: keeps_intros quiet_intros)
qed

lemma guarded_sv_principal_op [keeps_intros]: "quiet sv \<Longrightarrow> guarded (sv_principal_op p g sv)"
  unfolding sv_principal_op_def by (intro keeps_intros)

lemma guarded_broadcast [keeps_intros]:
  "quiet sv \<Longrightarrow> guarded (sv_set key v sv)" "quiet sv \<Longrightarrow> guarded (sv_clear key sv)"
  "quiet sv \<Longrightarrow> guarded (sv_clear_all sv)"
  unfolding sv_set_def sv_clear_def sv_clear_all_def by (intro keeps_intros; assumption)+

lemma guarded_stop_hb [keeps_intros]: "quiet sv \<Longrightarrow> guarded (stop_hb thr i sv)"
  unfolding stop_hb_def by (auto intro!: keeps_intros quiet_intros)

lemma guarded_start_hb [keeps_intros]: "quiet sv \<Longrightarrow> guarded (start_hb now i sv)"
  unfolding start_hb_def by (auto intro!: keeps_intros quiet_intros)

lemma guarded_shut [keeps_intros]: "quiet sv \<Longrightarrow> guarded (shut_session thr i sv)"
  unfolding shut_session_def Let_def ss_handleDisconnect_def run_sess_out_def
  by (auto intro!: keeps_intros quiet_intros)

lemma guarded_disconnect [keeps_intros]: "quiet sv \<Longrightarrow> guarded (handleSessionDisconnect thr u sv)"
  by (auto simp: handleSessionDisconnect_def quiet_no_session split: option.split intro!: keeps_intros quiet_intros)

lemma guarded_on_close [keeps_intros]: "quiet sv \<Longrightarrow> guarded (on_ws_close w sv)"
  unfolding on_ws_close_def Let_def by (auto intro!: keeps_intros quiet_intros)

lemma guarded_ws_close [keeps_intros]: "quiet sv \<Longrightarrow> guarded (ws_close env w sv)"
  unfolding ws_close_def Let_def by (auto intro!: keeps_intros quiet_intros)

lemma guarded_create [keeps_intros]:
  assumes "quiet sv"
  shows "guarded (create_session env w u now sv)"
proof -
  let ?sv = "upd_internal (sv_next sv) (\<lambda>_. new_internal (ss_setEnqueue (new_session u)) w now) (sv\<lparr>sv_next := sv_next sv + 1\<rparr>)"
  have "create_session env w u now sv = and_then (start_hb now (sv_next sv) ?sv) (\<lambda>sv'.
      if sv_authEnabled sv' then fine (sv'\<lparr>sv_tmpSessions := AList.update u (sv_next sv) (sv_tmpSessions sv')\<rparr>) []
      else let p = default_principal sv'; sv' = put_session (sv_next sv) (ss_authorize (session_at sv' (sv_next sv)) p) sv'
           in activateSession env (sv_next sv) p (sv'\<lparr>sv_sessions := AList.update u (sv_next sv) (sv_sessions sv')\<rparr>))"
    by (simp add: create_session_def Let_def)
  moreover have "quiet ?sv" using assms by (intro quiet_intros)
  moreover have "sv_authEnabled sv'" if "quiet sv'" for sv' using that by (simp add: quiet_def)
  ultimately show ?thesis by (auto intro!: keeps_intros quiet_intros)
qed

lemma guarded_identified [keeps_intros]: "quiet sv \<Longrightarrow> guarded (handleIdentified env w u now sv)"
  by (auto simp: handleIdentified_def Let_def quiet_no_session intro!: keeps_intros)

lemma guarded_refusal: "quiet sv \<Longrightarrow> guarded (sv_sendFrame i (mk_frame AuthFail 0 DT_String (PString reason)) sv)"
  unfolding sv_sendFrame_def Let_def by (auto split: option.split intro!: keeps_intros quiet_intros)

lemma guarded_reject [keeps_intros]: "quiet sv \<Longrightarrow> guarded (sv_reject env u reason sv)"
  unfolding sv_reject_def Let_def by (auto split: option.split intro!: keeps_intros quiet_intros guarded_refusal)

lemma quiet_rate_limit: "quiet sv \<Longrightarrow> quiet (fst (rate_limit u now sv))"
  by (auto simp: rate_limit_def Let_def split: option.split intro!: quiet_intros)

lemma guarded_frame:
  assumes "quiet sv" "never_authorizes env"
  shows "guarded (on_frame env w now f sv)"
proof -
  let ?u = "cn_uuid (sv_conns sv w)"
  obtain sv1 limited where r: "rate_limit ?u now (sv\<lparr>sv_framesIn := sv_framesIn sv + 1\<rparr>) = (sv1, limited)" by fastforce
  have q: "quiet sv1" using quiet_rate_limit [of "sv\<lparr>sv_framesIn := sv_framesIn sv + 1\<rparr>" ?u now] assms(1) r
    by (simp add: quiet_intros)
  have call: "guarded (run_auth_call env call sv)"
    if "quiet sv" "cb \<in> set (env_onAuthorize env)" "call \<in> set (cb u token)" for call cb u token sv
    using assms(2) that by (fastforce simp: never_authorizes_def run_auth_call_def intro!: keeps_intros)
  show ?thesis
    unfolding on_frame_def using q
    by (auto simp: r Let_def quiet_no_session split: option.split intro!: keeps_intros quiet_intros call)
qed

lemma guarded_message:
  assumes "quiet sv" "never_authorizes env"
  shows "guarded (sv_on_message env w now data sv)"
proof -
  have "guarded (sv_event env w now ev sv)" if "quiet sv" for ev sv
    using that guarded_frame [OF that assms(2)]
    by (cases ev) (auto simp: sv_event_def on_peer_heartbeat_def split: option.split intro!: keeps_intros quiet_intros)
  then show ?thesis
    unfolding sv_on_message_def using assms(1) by (auto split: prod.split intro!: keeps_intros quiet_intros)
qed

lemma hb_sends: "hb_tick now hb = (hb', evs) \<Longrightarrow> HB_Send data \<in> set evs \<Longrightarrow> data = encodeHeartbeat"
  by (auto simp: hb_tick_def split: if_splits)

lemma guarded_tick:
  assumes "quiet sv"
  shows "guarded (sv_heartbeat_tick i now sv)"
proof -
  obtain hb evs where t: "hb_tick now (in_heartbeat (sv_internals sv i)) = (hb, evs)" by fastforce
  let ?f = "\<lambda>ev sv. case ev of
       HB_Send data \<Rightarrow> (let w = in_heartbeatTo (sv_internals sv i) in fine sv (if conn_open sv w then [Sv_Send w data] else []))
     | HB_Timeout \<Rightarrow> handleSessionDisconnect (Some i) (ss_id (session_at sv i)) sv"
  have "guarded (?f ev sv)" if "ev \<in> set evs" "quiet sv" for ev sv
  proof (cases ev)
    case (HB_Send data)
    then have "data = encodeHeartbeat" using that(1) hb_sends [OF t] by blast
    then show ?thesis using HB_Send that(2) by (auto simp: Let_def intro!: keeps_intros)
  next
    case HB_Timeout
    then show ?thesis using that(2) by (auto intro!: keeps_intros)
  qed
  then have "guarded (for_each ?f evs (upd_internal i (\<lambda>n. n\<lparr>in_heartbeat := hb\<rparr>) sv))"
    using assms by (intro keeps_for_each) (auto intro: quiet_intros)
  then show ?thesis
    unfolding sv_heartbeat_tick_def by (auto simp: t Let_def keeps_def split: prod.split option.split)
qed

lemma guarded_close: "quiet sv \<Longrightarrow> guarded (sv_close sv)"
proof -
  assume q: "quiet sv"
  have c: "guarded (close_internal i sv)" if "quiet sv" for i sv
    using that unfolding close_internal_def by (auto split: option.split intro!: keeps_intros quiet_intros)
  have "quiet (sv\<lparr>sv_sessions := [], sv_tmpSessions := [], sv_principalIndex := []\<rparr>)" using q by (simp add: quiet_def)
  then show ?thesis unfolding sv_close_def by (auto intro!: keeps_intros c)
qed

section \<open>Properties\<close>

definition no_authorization :: "server_input \<Rightarrow> bool" where
  "no_authorization inp \<longleftrightarrow>
     (case inp of SI_Authorize u t p \<Rightarrow> False | SI_EnableAuthorization b t \<Rightarrow> b | _ \<Rightarrow> True)"

lemma guarded_step:
  assumes "no_authorization inp" "never_authorizes env" "quiet sv"
  shows "guarded (server_step env now inp sv)"
proof (cases inp)
  case (SI_EnableAuthorization b t)
  then show ?thesis using assms by (simp add: server_step_def no_authorization_def quiet_def keeps_fine)
next
  case (SI_SessionCall u call)
  then show ?thesis using assms(3) by (simp add: server_step_def quiet_no_session keeps_fine)
qed (use assms guarded_tick guarded_close guarded_message in \<open>auto simp: server_step_def no_authorization_def
      handleConnection_def intro!: keeps_intros quiet_intros\<close>)

lemma guarded_run:
  "never_authorizes env \<Longrightarrow> list_all (\<lambda>(now, inp). no_authorization inp) ins \<Longrightarrow> quiet sv \<Longrightarrow> guarded (server_run env ins sv)"
proof (induction ins arbitrary: sv)
  case (Cons x ins)
  then show ?case by (cases x) (auto intro!: keeps_intros guarded_step)
qed (simp add: keeps_fine)

text \<open>C10. With authorization enabled, a server whose user authorizes nobody gives nothing away: in any run,
  whatever its clients send and whatever data is set, no session becomes active, no callback for
  connections or topics is called, and all that is ever sent are heartbeats and refusals.\<close>

theorem nothing_sent_without_authorization:
  assumes "never_authorizes env" and "list_all (\<lambda>(now, inp). no_authorization inp) ins"
  shows "sv_sessions (fst (server_run env ins (configured mode True maxc))) = []
    \<and> list_all harmless (fst (snd (server_run env ins (configured mode True maxc))))"
proof -
  have "quiet (configured mode True maxc)" by (simp add: configured_def new_server_def quiet_def)
  then have "guarded (server_run env ins (configured mode True maxc))" by (rule guarded_run [OF assms])
  then show ?thesis by (simp add: keeps_def quiet_def)
qed

theorem nothing_sent_without_authorization_witness:
  "sv_sessions (fst (server_run plain_env (two_clients @ [(3, SI_PrincipalSet ''default'' ''a'' PNull), (4, SI_Heartbeat 0)])
      (configured Principal True 0))) = []
   \<and> length (sv_tmpSessions (fst (server_run plain_env (two_clients @ [(3, SI_PrincipalSet ''default'' ''a'' PNull), (4, SI_Heartbeat 0)])
      (configured Principal True 0)))) = 2"
proof
  have "never_authorizes plain_env" by (simp add: never_authorizes_def plain_env_def)
  moreover have "list_all (\<lambda>(now, inp). no_authorization inp)
      (two_clients @ [(3, SI_PrincipalSet ''default'' ''a'' PNull), (4, SI_Heartbeat 0)])" by code_simp
  ultimately show "sv_sessions (fst (server_run plain_env (two_clients @ [(3, SI_PrincipalSet ''default'' ''a'' PNull), (4, SI_Heartbeat 0)])
      (configured Principal True 0))) = []"
    using nothing_sent_without_authorization by blast
qed code_simp

end
