(* ===== verification/Server_Faults.thy ===== *)
theory Server_Faults
  imports Server_Invariants
begin

text \<open>
  What goes wrong in the server when a client comes back on a new connection, before the old one is
  gone or under another principal; each is a run that the kernel evaluates.
\<close>

section \<open>Reconnecting\<close>

text \<open>Client 1 comes back on connection 2 at time 4 seconds while connection 1 is still open.\<close>

definition comes_back :: "(int \<times> server_input) list" where
  "comes_back = [(0, SI_Connect 1), (0, SI_Message 1 (identify_message 1)),
     (4000000000, SI_Connect 2), (4000000000, SI_Message 2 (identify_message 1))]"

definition after_return :: "(int \<times> server_input) list \<Rightarrow> (server, server_out) seq_res" where
  "after_return ins = server_run plain_env (comes_back @ ins) (configured Principal False 0)"

definition client_uuid :: string where
  "client_uuid = bytesToUuid (replicate 16 1)"


section \<open>Reconnecting under another principal\<close>

text \<open>Whether a step sends anything on connection \<open>w\<close>.\<close>

definition reaches :: "nat \<Rightarrow> (server, server_out) seq_res \<Rightarrow> bool" where
  "reaches w r \<longleftrightarrow> list_ex (\<lambda>ev. case ev of Sv_Send w' data \<Rightarrow> w' = w | _ \<Rightarrow> False) (fst (snd r))"

text \<open>A client is authorized as alice on connection 1, and comes back on connection 2.\<close>

definition alice_returns :: "(int \<times> server_input) list" where
  "alice_returns = [(0, SI_PrincipalSet ''alice'' ''a'' (PBool True)),
     (0, SI_Connect 1), (0, SI_Message 1 (identify_message 1)), (0, SI_Authorize client_uuid [] ''alice''),
     (1, SI_Connect 2), (1, SI_Message 2 (identify_message 1))]"

definition ready_bytes :: bytes where
  "ready_bytes = (case encode (signal ClientReady 0) of Inr bs \<Rightarrow> bs | Inl _ \<Rightarrow> [])"

definition waiting_again :: server where
  "waiting_again = fst (server_run plain_env alice_returns (configured Principal True 0))"

definition now_bob :: server where
  "now_bob = fst (server_run plain_env [(2, SI_Authorize client_uuid [] ''bob''), (2, SI_Message 2 ready_bytes)] waiting_again)"


end
