(* ===== verification/Protocol.thy ===== *)
theory Protocol
  imports Client_Faults Server_Security Server_Faults
begin

text \<open>
  Client and server together: the identification of a client, and the subscription to topics,
  where the client describes its subscriptions by paths and values and the server reads them back.
\<close>

section \<open>Identification\<close>

lemma show_base_small: "n < 16 \<Longrightarrow> show_base 16 n = [digit_char n]"
  by (subst show_base.simps) simp

lemma show_hex2_digits: "show_hex2 b = [digit_char (unat b div 16), digit_char (unat b mod 16)]"
proof (cases "unat b < 16")
  case True
  moreover have "digit_char 0 = CHR ''0''" by code_simp
  ultimately show ?thesis by (simp add: show_hex2_def show_hex_def show_base_small)
next
  case False
  have "unat b < 256" using unsigned_less [of b] by simp
  then have "unat b div 16 < 16" by simp
  then have "show_base 16 (unat b div 16) = [digit_char (unat b div 16)]" by (rule show_base_small)
  then have "show_base 16 (unat b) = [digit_char (unat b div 16), digit_char (unat b mod 16)]"
    using False by (subst show_base.simps) simp
  then show ?thesis using False by (simp add: show_hex2_def show_hex_def)
qed

lemma stoi_hex2: "stoi_base 16 (show_hex2 b) = Inr (uint b)"
proof -
  let ?x = "unat b div 16" and ?y = "unat b mod 16"
  have b: "unat b < 256" using unsigned_less [of b] by simp
  then have x: "?x < 16" and y: "?y < 16" by simp_all
  have d: "char_digit (digit_char ?x) = Some ?x" "char_digit (digit_char ?y) = Some ?y"
    using x y by (simp_all add: char_digit_digit_char del: mod_less_divisor)
  have "strto 16 [digit_char ?x, digit_char ?y] = Inr (int (unat b))"
    using digit_char_not_special [of ?x] x y d by (simp add: strto_def digits_val_def Let_def)
  moreover have "\<not> uint b < INT_MIN" "\<not> INT_MAX < uint b"
  proof -
    have "0 \<le> uint b" "uint b = int (unat b)" by simp_all
    then show "\<not> uint b < INT_MIN" "\<not> INT_MAX < uint b"
      unfolding INT_MIN_def INT_MAX_def using b by linarith+
  qed
  ultimately show ?thesis by (simp add: stoi_base_def show_hex2_digits)
qed

lemma hex_bytes_show: "hex_bytes (concat (map show_hex2 bs)) = Inr bs"
proof (induction bs)
  case (Cons b bs)
  obtain x y where xy: "show_hex2 b = [x, y]" using show_hex2_digits by blast
  have "stoi_base 16 [x, y] = Inr (uint b)" using stoi_hex2 [of b] by (simp add: xy)
  then show ?case using Cons by (simp add: xy)
qed simp

lemma show_hex2_no_dash: "filter (\<lambda>c. c \<noteq> CHR ''-'') (show_hex2 b) = show_hex2 b"
proof -
  have "unat b < 256" using unsigned_less [of b] by simp
  then have "unat b div 16 < 36" "unat b mod 16 < 36" by linarith+
  then show ?thesis
    using digit_char_not_special [of "unat b div 16"] digit_char_not_special [of "unat b mod 16"]
    by (simp add: show_hex2_digits)
qed

lemma filter_format_uuid:
  assumes "length bs = 16"
  shows "filter (\<lambda>c. c \<noteq> CHR ''-'') (format_uuid bs) = concat (map show_hex2 bs)"
proof -
  have "filter (\<lambda>c. c \<noteq> CHR ''-'') (format_uuid bs) = concat (map (\<lambda>i. show_hex2 (bs ! i)) [0..<16])"
    unfolding format_uuid_def filter_concat map_map o_def filter_append show_hex2_no_dash
    by (intro arg_cong [where f = concat] map_cong) auto
  also have "\<dots> = concat (map show_hex2 (map ((!) bs) [0..<16]))" by (simp only: map_map o_def)
  also have "map ((!) bs) [0..<16] = bs" using map_nth [of bs] assms by simp
  finally show ?thesis .
qed

lemma identify_payload_uuid: "length bs = 16 \<Longrightarrow> identify_payload (format_uuid bs) = Inr (bs @ [3, 5])"
  by (simp add: identify_payload_def filter_format_uuid hex_bytes_show)

lemma bytesToUuid_format: "length bs = 16 \<Longrightarrow> bytesToUuid (bs @ rest) = format_uuid bs"
  unfolding bytesToUuid_def format_uuid_def
  by (auto simp: nth_append intro!: arg_cong [where f = concat] map_cong)

lemma length_uuid: "10 \<le> length random \<Longrightarrow> length (uuid_v7_bytes ms random) = 16"
  by (simp add: uuid_v7_bytes_def Let_def)

text \<open>C35. A client is known to the server under the id it has given itself: the id that
  \<open>generateUUIDv7\<close> makes out of a time and ten random bytes is turned into the bytes of the
  identification, the server accepts these, and reads the same id back.\<close>

theorem identification_roundtrip:
  assumes "10 \<le> length random"
  shows "\<exists>bs. identify_payload (generateUUIDv7 ms random) = Inr bs
    \<and> identify_bytes (mk_frame Identify 0 DT_Binary (PBinary bs)) = Some bs
    \<and> bytesToUuid bs = generateUUIDv7 ms random"
  using length_uuid [OF assms, of ms]
  by (intro exI [of _ "uuid_v7_bytes ms random @ [3, 5]"])
    (simp add: generateUUIDv7_def identify_payload_uuid bytesToUuid_format identify_bytes_def nth_append)

theorem identification_roundtrip_witness:
  "\<exists>bs. identify_payload (generateUUIDv7 1700000000000 (replicate 10 0xAB)) = Inr bs
    \<and> bytesToUuid bs = generateUUIDv7 1700000000000 (replicate 10 0xAB) \<and> length bs = 18"
proof -
  have "case identify_payload (generateUUIDv7 1700000000000 (replicate 10 0xAB)) of Inr bs \<Rightarrow> length bs = 18 | Inl _ \<Rightarrow> False"
    by code_simp
  then show ?thesis
    using identification_roundtrip [of "replicate 10 0xAB" 1700000000000] by auto
qed

section \<open>Paths of subscriptions\<close>

definition name_path :: "nat \<Rightarrow> string" where
  "name_path j = ''topic.'' @ show_nat j @ ''.name''"

definition param_path :: "nat \<Rightarrow> string \<Rightarrow> string" where
  "param_path j k = ''topic.'' @ show_nat j @ ''.param.'' @ k"

lemma str_rfind_short: "length s < length p \<Longrightarrow> str_rfind p s = None"
  by (induction s) (auto simp: is_prefix_of_def)

lemma str_rfind_suffix: "p \<noteq> [] \<Longrightarrow> str_rfind p (x @ p) = Some (length x)"
proof (induction x)
  case Nil
  then obtain c cs where "p = c # cs" by (cases p) auto
  then show ?case using str_rfind_short [of cs p] by (simp add: is_prefix_of_def)
qed simp

lemma str_rfind_Some: "str_rfind p s = Some i \<Longrightarrow> is_prefix_of p (drop i s)"
proof (induction s arbitrary: i)
  case Nil
  then show ?case by (simp add: is_prefix_of_def split: if_splits)
next
  case (Cons c s)
  then show ?case by (cases "str_rfind p s") (auto split: if_splits)
qed

lemma str_find_skip: "p \<notin> set x \<Longrightarrow> str_find (p # ps) (x @ y) = map_option ((+) (length x)) (str_find (p # ps) y)"
proof (induction x)
  case Nil
  then show ?case by (simp add: option.map_ident)
next
  case (Cons c x)
  then have "str_find (p # ps) ((c # x) @ y) = map_option Suc (str_find (p # ps) (x @ y))"
    by (auto simp: is_prefix_of_def)
  then show ?case using Cons by (simp add: option.map_comp o_def)
qed

lemma find_param: "str_find ''.param.'' (param_path j k) = Some (length (''topic.'' @ show_nat j))"
proof -
  obtain d ds where s: "show_nat j = d # ds" by (cases "show_nat j") (use show_nat_nonempty in auto)
  have "CHR ''.'' \<notin> set (show_nat j)" by simp
  obtain e where e: "e < 10" "char_digit d = Some e"
    using show_base_digits [of 10 d j] s by (auto simp: show_nat_def)
  have "char_digit CHR ''p'' = Some 25" by code_simp
  then have d: "d \<noteq> CHR ''p''" using e by auto
  have "str_find ''.param.'' (show_nat j @ ''.param.'' @ k) = Some (length (show_nat j))"
    by (subst str_find_skip) (simp_all add: is_prefix_of_def)
  moreover have "\<not> is_prefix_of ''.param.'' (CHR ''.'' # show_nat j @ ''.param.'' @ k)"
    using d by (simp add: s is_prefix_of_def)
  ultimately have "str_find ''.param.'' (CHR ''.'' # show_nat j @ ''.param.'' @ k) = Some (Suc (length (show_nat j)))"
    by (simp only: str_find.simps if_False option.map)
  then have "str_find ''.param.'' (''topic'' @ (CHR ''.'' # show_nat j @ ''.param.'' @ k)) = Some (5 + Suc (length (show_nat j)))"
    by (subst str_find_skip) simp_all
  then show ?thesis by (simp add: param_path_def del: str_find.simps)
qed

text \<open>Parameter names that make their path look like that of a topic's name.\<close>

definition name_like :: "string \<Rightarrow> bool" where
  "name_like k \<longleftrightarrow> take 5 (rev (CHR ''.'' # k)) = ''eman.''"

lemma not_name_suffix:
  assumes "\<not> name_like k"
  shows "str_rfind ''.name'' (param_path j k) \<noteq> Some (length (param_path j k) - 5)"
proof
  let ?p = "param_path j k"
  assume "str_rfind ''.name'' ?p = Some (length ?p - 5)"
  then have "is_prefix_of ''.name'' (drop (length ?p - 5) ?p)" by (rule str_rfind_Some)
  then have "take 5 (drop (length ?p - 5) ?p) = ''.name''" by (simp add: is_prefix_of_def)
  moreover have "length (drop (length ?p - 5) ?p) = 5" by (simp add: param_path_def)
  ultimately have "drop (length ?p - 5) ?p = ''.name''" by simp
  then have r: "take 5 (rev ?p) = ''eman.''" by (simp add: take_rev)
  obtain r where k: "k = rev r" by (metis rev_rev_ident)
  have eq: "take 5 (r @ ''.marap.'' @ rev (''topic.'' @ show_nat j)) = ''eman.''" using r by (simp add: param_path_def k)
  have "take 5 (r @ ''.'') = ''eman.''"
  proof (cases "length r < 4")
    case True
    then have "take 5 (r @ ''.marap.'' @ rev (''topic.'' @ show_nat j)) ! length r = CHR ''.''"
      by (simp add: nth_append)
    moreover have "''eman.'' ! length r \<noteq> CHR ''.''"
      using True by (auto simp: less_Suc_eq numeral_eq_Suc)
    ultimately show ?thesis by (simp only: eq)
  next
    case False
    then show ?thesis using eq by (cases "length r = 4") simp_all
  qed
  then show False using assms by (simp add: name_like_def k)
qed

lemma parse_name_path:
  assumes "getByPath kr (name_path j) = Some e"
  shows "parse_path kr vals (name_path j) pa = parse_name (show_nat j) (map_of vals (ke_keyId e)) pa"
proof -
  have "name_path j = (''topic.'' @ show_nat j) @ ''.name''" by (simp add: name_path_def)
  then have r: "str_rfind ''.name'' (name_path j) = Some (length (name_path j) - 5)"
    using str_rfind_suffix [of "''.name''" "''topic.'' @ show_nat j"] by simp
  have "is_prefix_of ''topic.'' (name_path j)" "6 < length (name_path j)"
    "substr (name_path j) 6 (size_diff (length (name_path j) - 5) 6) = show_nat j"
    by (simp_all add: name_path_def is_prefix_of_def substr_def size_diff_def)
  then show ?thesis using r assms by (simp add: parse_path_def)
qed

lemma parse_param_path:
  assumes "getByPath kr (param_path j k) = Some e" "\<not> name_like k"
  shows "parse_path kr vals (param_path j k) pa = Inr (parse_param (show_nat j) k (map_of vals (ke_keyId e)) pa)"
proof -
  let ?n = "length (''topic.'' @ show_nat j)"
  have "is_prefix_of ''topic.'' (param_path j k)" "substr (param_path j k) 6 (size_diff ?n 6) = show_nat j"
    by (simp_all add: param_path_def is_prefix_of_def substr_def size_diff_def)
  moreover have "drop (?n + 7) (param_path j k) = k"
  proof -
    have "param_path j k = (''topic.'' @ show_nat j @ ''.param.'') @ k" by (simp add: param_path_def)
    moreover have "?n + 7 = length (''topic.'' @ show_nat j @ ''.param.'')" by simp
    ultimately show ?thesis by (metis append_eq_conv_conj)
  qed
  ultimately show ?thesis
    using assms find_param [of j k] not_name_suffix [OF assms(2), of j] by (simp add: parse_path_def Let_def)
qed

lemma digits_dot: "show_nat j @ CHR ''.'' # r = show_nat j' @ CHR ''.'' # r' \<longleftrightarrow> j = j' \<and> r = r'"
proof
  assume e: "show_nat j @ CHR ''.'' # r = show_nat j' @ CHR ''.'' # r'"
  have t: "takeWhile (\<lambda>c. c \<noteq> CHR ''.'') (show_nat j @ CHR ''.'' # r) = show_nat j" for j r
    by (subst takeWhile_append2) (use dot_notin_show_nat in fastforce)+
  have "show_nat j = show_nat j'" using arg_cong [OF e, of "takeWhile (\<lambda>c. c \<noteq> CHR ''.'')"] by (simp only: t)
  then show "j = j' \<and> r = r'" using e by simp
qed simp

lemma path_inj [simp]:
  "name_path j = name_path j' \<longleftrightarrow> j = j'"
  "param_path j k = param_path j' k' \<longleftrightarrow> j = j' \<and> k = k'"
  "name_path j \<noteq> param_path j' k" "param_path j' k \<noteq> name_path j"
  by (simp_all add: name_path_def param_path_def digits_dot)

section \<open>What the server makes of the paths\<close>

type_synonym subscriptions = "(string \<times> (string \<times> payload) list) list"

text \<open>The subscriptions of a client: sorted maps, no empty topic, no name-like parameter.\<close>

definition good_subs :: "subscriptions \<Rightarrow> bool" where
  "good_subs subs \<longleftrightarrow> om_wf subs \<and> length subs \<le> 10000 \<and>
     (\<forall>(name, params) \<in> set subs. name \<noteq> [] \<and> om_wf params \<and> (\<forall>(k, v) \<in> set params. \<not> name_like k))"

lemma sync_entries_set:
  "set (sync_entries (int n) subs)
     = (\<Union>j < length subs. insert (name_path (n + j), PString (fst (subs ! j)))
          ((\<lambda>(k, v). (param_path (n + j) k, v)) ` set (snd (subs ! j))))"
proof (induction subs arbitrary: n)
  case (Cons s subs)
  obtain name params where s: "s = (name, params)" by (cases s)
  have "{..<length (s # subs)} = insert 0 (Suc ` {..<length subs})" by (auto simp: lessThan_Suc_eq_insert_0)
  moreover have "set (sync_entries (int n) (s # subs))
      = set (topic_entries (int n) name params) \<union> set (sync_entries (int (Suc n)) subs)"
    by (simp add: s add.commute)
  ultimately show ?case
    unfolding Cons.IH by (simp add: s topic_entries_def name_path_def param_path_def show_int_def)
qed simp

text \<open>Parameter \<open>k\<close> of topic \<open>j\<close> is enumerated after the name of the topic.\<close>

definition after :: "string list \<Rightarrow> nat \<Rightarrow> string \<Rightarrow> bool" where
  "after P j k \<longleftrightarrow> (\<exists>A B. P = A @ param_path j k # B \<and> name_path j \<in> set A)"

lemma after_Nil [simp]: "\<not> after [] j k"
  by (simp add: after_def)

lemma after_snoc: "after (P @ [x]) j k \<longleftrightarrow> after P j k \<or> x = param_path j k \<and> name_path j \<in> set P"
proof
  assume "after (P @ [x]) j k"
  then obtain A B where "P @ [x] = A @ param_path j k # B" "name_path j \<in> set A" by (auto simp: after_def)
  then show "after P j k \<or> x = param_path j k \<and> name_path j \<in> set P"
    by (cases B rule: rev_cases) (auto simp: after_def)
next
  assume "after P j k \<or> x = param_path j k \<and> name_path j \<in> set P"
  then show "after (P @ [x]) j k"
  proof
    assume "after P j k"
    then obtain A B where "P = A @ param_path j k # B" "name_path j \<in> set A" by (auto simp: after_def)
    then have "P @ [x] = A @ param_path j k # (B @ [x]) \<and> name_path j \<in> set A" by simp
    then show ?thesis unfolding after_def by blast
  next
    assume "x = param_path j k \<and> name_path j \<in> set P"
    then show ?thesis by (auto simp: after_def)
  qed
qed

text \<open>What the loop has collected after the paths \<open>P\<close>.\<close>

definition understood :: "subscriptions \<Rightarrow> string list \<Rightarrow> parsed_topics \<Rightarrow> bool" where
  "understood subs P pa \<longleftrightarrow>
     om_wf (pa_topics pa) \<and> om_wf (pa_nameToIndex pa) \<and> om_wf (pa_indexToName pa)
     \<and> (\<forall>s n. map_of (pa_indexToName pa) s = Some n \<longleftrightarrow>
          (\<exists>j < length subs. s = show_nat j \<and> n = fst (subs ! j) \<and> name_path j \<in> set P))
     \<and> (\<forall>n i. map_of (pa_nameToIndex pa) n = Some i \<longleftrightarrow>
          (\<exists>j < length subs. n = fst (subs ! j) \<and> i = int j \<and> name_path j \<in> set P))
     \<and> (\<forall>n. map_of (pa_topics pa) n \<noteq> None \<longleftrightarrow>
          (\<exists>j < length subs. n = fst (subs ! j) \<and> name_path j \<in> set P))
     \<and> (\<forall>n. om_wf (params_of pa n))
     \<and> (\<forall>j < length subs. \<forall>k v. map_of (params_of pa (fst (subs ! j))) k = Some v \<longleftrightarrow>
          (k, v) \<in> set (snd (subs ! j)) \<and> after P j k)"

lemma understood_Nil: "understood subs [] no_topics"
  by (simp add: understood_def no_topics_def params_of_def)

lemma good_subs_nth:
  assumes "good_subs subs" "j < length subs"
  shows "fst (subs ! j) \<noteq> []" "om_wf (snd (subs ! j))" "(k, v) \<in> set (snd (subs ! j)) \<Longrightarrow> \<not> name_like k"
    "int j \<le> INT_MAX" "j' < length subs \<Longrightarrow> fst (subs ! j) = fst (subs ! j') \<longleftrightarrow> j = j'"
proof -
  have mem: "subs ! j \<in> set subs" using assms(2) by simp
  then show "fst (subs ! j) \<noteq> []" "om_wf (snd (subs ! j))" "(k, v) \<in> set (snd (subs ! j)) \<Longrightarrow> \<not> name_like k"
    using assms(1) unfolding good_subs_def by (fastforce simp: split_beta)+
  show "int j \<le> INT_MAX" using assms by (simp add: good_subs_def INT_MAX_def)
  have "distinct (map fst subs)" using assms(1) by (simp add: good_subs_def om_wf_def strict_sorted_iff)
  then show "j' < length subs \<Longrightarrow> fst (subs ! j) = fst (subs ! j') \<longleftrightarrow> j = j'"
    using nth_eq_iff_index_eq [of "map fst subs" j j'] assms(2) by simp
qed

lemma understood_name:
  assumes u: "understood subs P pa" and g: "good_subs subs" and j: "j < length subs"
  shows "\<exists>pa'. parse_name (show_nat j) (Some (PString (fst (subs ! j)))) pa = Inr pa'
    \<and> understood subs (P @ [name_path j]) pa'"
proof -
  let ?n = "fst (subs ! j)"
  let ?pa = "pa\<lparr>pa_indexToName := om_put (show_nat j) ?n (pa_indexToName pa),
      pa_nameToIndex := om_put ?n (int j) (pa_nameToIndex pa),
      pa_topics := (if map_of (pa_topics pa) ?n = None then om_put ?n [] (pa_topics pa) else pa_topics pa)\<rparr>"
  note gj = good_subs_nth [OF g j]
  have wf: "om_wf (pa_topics pa)" "om_wf (pa_nameToIndex pa)" "om_wf (pa_indexToName pa)"
    using u by (simp_all add: understood_def)
  have params: "params_of ?pa m = params_of pa m" for m
    using wf by (auto simp: params_of_def split: option.splits)
  have ix: "map_of (pa_indexToName ?pa) s = Some n \<longleftrightarrow>
      (\<exists>j' < length subs. s = show_nat j' \<and> n = fst (subs ! j') \<and> name_path j' \<in> set (P @ [name_path j]))" for s n
  proof (cases "s = show_nat j")
    case True
    then show ?thesis using wf j by auto
  next
    case False
    then have "map_of (pa_indexToName ?pa) s = map_of (pa_indexToName pa) s" using wf by simp
    moreover have "map_of (pa_indexToName pa) s = Some n \<longleftrightarrow>
        (\<exists>j' < length subs. s = show_nat j' \<and> n = fst (subs ! j') \<and> name_path j' \<in> set P)"
      using u by (simp add: understood_def)
    ultimately show ?thesis using False by auto
  qed
  have ni: "map_of (pa_nameToIndex ?pa) n = Some i \<longleftrightarrow>
      (\<exists>j' < length subs. n = fst (subs ! j') \<and> i = int j' \<and> name_path j' \<in> set (P @ [name_path j]))" for n i
  proof (cases "n = ?n")
    case True
    then show ?thesis using wf j gj(5) by auto
  next
    case False
    then have "map_of (pa_nameToIndex ?pa) n = map_of (pa_nameToIndex pa) n" using wf by simp
    moreover have "map_of (pa_nameToIndex pa) n = Some i \<longleftrightarrow>
        (\<exists>j' < length subs. n = fst (subs ! j') \<and> i = int j' \<and> name_path j' \<in> set P)"
      using u by (simp add: understood_def)
    ultimately show ?thesis using False by auto
  qed
  have tp: "map_of (pa_topics ?pa) n \<noteq> None \<longleftrightarrow>
      (\<exists>j' < length subs. n = fst (subs ! j') \<and> name_path j' \<in> set (P @ [name_path j]))" for n
  proof (cases "n = ?n")
    case True
    then show ?thesis using wf j by auto
  next
    case False
    then have "map_of (pa_topics ?pa) n = map_of (pa_topics pa) n" using wf by simp
    moreover have "map_of (pa_topics pa) n \<noteq> None \<longleftrightarrow>
        (\<exists>j' < length subs. n = fst (subs ! j') \<and> name_path j' \<in> set P)"
      using u unfolding understood_def by blast
    ultimately show ?thesis using False by auto
  qed
  have "understood subs (P @ [name_path j]) ?pa"
    unfolding understood_def ix ni tp params after_snoc
    using u wf by (simp add: understood_def)
  moreover have "parse_name (show_nat j) (Some (PString ?n)) pa = Inr ?pa"
    using gj(1,4) by (simp add: parse_name_def)
  ultimately show ?thesis by blast
qed

lemma understood_param:
  assumes u: "understood subs P pa" and g: "good_subs subs" and j: "j < length subs"
    and kv: "(k, v) \<in> set (snd (subs ! j))"
  shows "understood subs (P @ [param_path j k]) (parse_param (show_nat j) k (Some v) pa)"
proof (cases "name_path j \<in> set P")
  case False
  then have "map_of (pa_indexToName pa) (show_nat j) = None"
    using u unfolding understood_def by (metis not_Some_eq show_nat_inj)
  then have "parse_param (show_nat j) k (Some v) pa = pa" by (simp add: parse_param_def)
  moreover have eq: "after (P @ [param_path j k]) j' k' \<longleftrightarrow> after P j' k'"
    "name_path j' \<in> set (P @ [param_path j k]) \<longleftrightarrow> name_path j' \<in> set P" for j' k'
    using False by (auto simp: after_snoc)
  have "understood subs (P @ [param_path j k]) pa \<longleftrightarrow> understood subs P pa"
    unfolding understood_def eq by (rule refl)
  ultimately show ?thesis using u by simp
next
  case True
  let ?n = "fst (subs ! j)"
  note gj = good_subs_nth [OF g j]
  have wf: "om_wf (pa_topics pa)" "om_wf (params_of pa ?n)" using u by (simp_all add: understood_def)
  have "map_of (pa_indexToName pa) (show_nat j) = Some ?n" using u True j unfolding understood_def by blast
  then have pa: "parse_param (show_nat j) k (Some v) pa =
      pa\<lparr>pa_topics := om_put ?n (om_put k v (params_of pa ?n)) (pa_topics pa)\<rparr>" (is "_ = ?pa")
    by (simp add: parse_param_def)
  have params: "params_of ?pa m = (if m = ?n then om_put k v (params_of pa ?n) else params_of pa m)" for m
    using wf by (simp add: params_of_def)
  have uniq: "v' = v" if "(k, v') \<in> set (snd (subs ! j))" for v'
    using that kv gj(2) by (auto simp: om_wf_def strict_sorted_iff dest: eq_key_imp_eq_value)
  have tp: "map_of (pa_topics ?pa) n \<noteq> None \<longleftrightarrow> map_of (pa_topics pa) n \<noteq> None" for n
    using u True j wf unfolding understood_def by auto
  have vals: "map_of (params_of ?pa (fst (subs ! j'))) k' = Some v' \<longleftrightarrow>
      (k', v') \<in> set (snd (subs ! j')) \<and> after (P @ [param_path j k]) j' k'" if "j' < length subs" for j' k' v'
  proof -
    have old: "map_of (params_of pa (fst (subs ! j'))) k' = Some v' \<longleftrightarrow>
        (k', v') \<in> set (snd (subs ! j')) \<and> after P j' k'"
      using u that by (simp add: understood_def)
    show ?thesis
    proof (cases "j' = j")
      case False
      then have "fst (subs ! j') \<noteq> ?n" using gj(5) [OF that] by metis
      then show ?thesis using old False by (simp add: params after_snoc)
    next
      case same: True
      show ?thesis
      proof (cases "k' = k")
        case True
        then show ?thesis using same kv uniq [of v'] wf \<open>name_path j \<in> set P\<close> by (auto simp: params after_snoc)
      next
        case False
        then show ?thesis using same old wf by (simp add: params after_snoc)
      qed
    qed
  qed
  have nm: "name_path j' \<in> set (P @ [param_path j k]) \<longleftrightarrow> name_path j' \<in> set P" for j' by simp
  have pw: "om_wf (params_of ?pa m)" for m using u wf by (simp add: understood_def params)
  have fields: "pa_indexToName ?pa = pa_indexToName pa" "pa_nameToIndex ?pa = pa_nameToIndex pa" "om_wf (pa_topics ?pa)"
    using wf by simp_all
  show ?thesis
    unfolding pa understood_def tp nm fields(1,2)
  proof (intro conjI allI impI)
    show "om_wf (pa_topics ?pa)" by (rule fields)
    show "om_wf (params_of ?pa m)" for m by (rule pw)
    show "map_of (params_of ?pa (fst (subs ! j'))) k' = Some v' \<longleftrightarrow>
        (k', v') \<in> set (snd (subs ! j')) \<and> after (P @ [param_path j k]) j' k'" if "j' < length subs" for j' k' v'
      by (rule vals [OF that])
  qed (use u in \<open>simp_all add: understood_def\<close>)
qed

section \<open>What the server has been told\<close>

text \<open>The entries of a client's topic sync as the server keeps them: the registry and the values.\<close>

definition registered :: "(string \<times> payload) list \<Rightarrow> key_registry" where
  "registered es = (new_registry 10000)\<lparr>
     kr_byId := map (\<lambda>(i, p, v). (word_of_nat i, mk_entry p (detectDataType v) (word_of_nat i))) (enumerate 1 es),
     kr_pathToId := map (\<lambda>(i, p, v). (p, word_of_nat i)) (enumerate 1 es),
     kr_nextId := word_of_nat (1 + length es)\<rparr>"

definition valued :: "(string \<times> payload) list \<Rightarrow> (u32, payload) umap" where
  "valued es = map (\<lambda>(i, p, v). (word_of_nat i, v)) (enumerate 1 es)"

lemma registered_keys:
  "kr_paths (registered es) = map fst es"
  "map fst (kr_byId (registered es)) = map word_of_nat [1..<Suc (length es)]"
  "map fst (valued es) = map word_of_nat [1..<Suc (length es)]"
proof -
  have snd: "map (f \<circ> snd) (enumerate 1 es) = map f es" for f :: "string \<times> payload \<Rightarrow> 'a"
    by (metis map_map map_snd_enumerate)
  have fst: "map (f \<circ> fst) (enumerate 1 es) = map f [1..<Suc (length es)]" for f :: "nat \<Rightarrow> 'a"
    by (metis add.commute map_fst_enumerate map_map plus_1_eq_Suc)
  show "kr_paths (registered es) = map fst es"
    using snd [of fst] by (simp add: kr_paths_def registered_def o_def split_beta)
  show "map fst (kr_byId (registered es)) = map word_of_nat [1..<Suc (length es)]"
    "map fst (valued es) = map word_of_nat [1..<Suc (length es)]"
    using fst [of word_of_nat] by (simp_all add: registered_def valued_def o_def split_beta)
qed

lemma distinct_ids: "n < 2 ^ 32 \<Longrightarrow> distinct (map word_of_nat [1..<Suc n] :: u32 list)"
  by (auto simp: distinct_map inj_on_def word_of_nat_eq_iff take_bit_nat_eq_self)

lemma registered_lookup:
  assumes "(p, v) \<in> set es" "distinct (map fst es)" "length es < 2 ^ 32"
  shows "\<exists>e. getByPath (registered es) p = Some e \<and> map_of (valued es) (ke_keyId e) = Some v"
proof -
  obtain m where m: "m < length es" "es ! m = (p, v)" using assms(1) by (auto simp: in_set_conv_nth)
  then have mem: "(Suc m, p, v) \<in> set (enumerate 1 es)" by (auto simp: in_set_enumerate_eq)
  have "distinct (map fst (kr_pathToId (registered es)))"
    using registered_keys(1) [of es] assms(2) by (simp add: kr_paths_def)
  then have "map_of (kr_pathToId (registered es)) p = Some (word_of_nat (Suc m))"
    by (rule map_of_is_SomeI) (use mem in \<open>force simp: registered_def\<close>)
  moreover have "map_of (kr_byId (registered es)) (word_of_nat (Suc m)) = Some (mk_entry p (detectDataType v) (word_of_nat (Suc m)))"
    by (rule map_of_is_SomeI, unfold registered_keys, rule distinct_ids [OF assms(3)])
      (use mem in \<open>force simp: registered_def\<close>)
  moreover have "map_of (valued es) (word_of_nat (Suc m)) = Some v"
    by (rule map_of_is_SomeI, unfold registered_keys, rule distinct_ids [OF assms(3)])
      (use mem in \<open>force simp: valued_def\<close>)
  ultimately show ?thesis by (simp add: getByPath_def)
qed

lemma update_fresh: "k \<notin> fst ` set m \<Longrightarrow> AList.update k v m = m @ [(k, v)]"
  by (induction m) auto

lemma register_snoc:
  assumes "p \<notin> fst ` set es" "length es < 10000" "check_key_path p = Inr ()"
  shows "registerOne (registered es) (word_of_nat (Suc (length es))) p (detectDataType v) = Inr (registered (es @ [(p, v)]))"
proof -
  have "p \<notin> set (map fst (kr_pathToId (registered es)))"
    using assms(1) registered_keys(1) [of es] by (simp add: kr_paths_def)
  then have p: "map_of (kr_pathToId (registered es)) p = None"
    "AList.update p i (kr_pathToId (registered es)) = kr_pathToId (registered es) @ [(p, i)]" for i
    by (simp_all add: map_of_eq_None_iff update_fresh)
  have "word_of_nat (Suc (length es)) \<notin> fst ` set (kr_byId (registered es))"
  proof -
    have "distinct (map word_of_nat [1..<Suc (Suc (length es))] :: u32 list)" by (rule distinct_ids) (use assms(2) in simp)
    then have "word_of_nat (Suc (length es)) \<notin> set (map word_of_nat [1..<Suc (length es)] :: u32 list)" by simp
    then show ?thesis unfolding registered_keys(2) [symmetric] by simp
  qed
  then have i: "AList.update (word_of_nat (Suc (length es))) e (kr_byId (registered es))
      = kr_byId (registered es) @ [(word_of_nat (Suc (length es)), e)]" for e
    by (simp add: update_fresh)
  have "length (kr_byId (registered es)) = length es" by (simp add: registered_def)
  then show ?thesis
    unfolding registerOne_def i p using assms(2,3)
    by (simp add: registered_def new_registry_def enumerate_append_eq)
qed

definition tell :: "nat \<Rightarrow> (string \<times> payload) list \<Rightarrow> (string \<times> payload) list \<Rightarrow> server \<Rightarrow> server" where
  "tell i es vs sv =
     upd_internal i (\<lambda>n. n\<lparr>in_clientRegistry := Some (registered es), in_clientValues := valued vs\<rparr>) sv"

lemma registered_Nil: "registered [] = new_registry 10000"
  by (simp add: registered_def) (simp add: new_registry_def)

lemma tell_internal [simp]:
  "in_clientRegistry (sv_internals (tell i es vs sv) i) = Some (registered es)"
  "in_clientValues (sv_internals (tell i es vs sv) i) = valued vs"
  by (simp_all add: tell_def upd_internal_def)

lemma told_registration:
  assumes "p \<notin> fst ` set es" "length es < 10000" "check_key_path p = Inr ()"
  shows "handleClientTopicFrame env i
      (mk_frame ClientKeyRegistration (word_of_nat (Suc (length es))) (detectDataType v) (PString p)) (tell i es [] sv)
    = fine (tell i (es @ [(p, v)]) [] sv) []"
  using register_snoc [OF assms]
  by (cases "sv_internals sv i") (simp add: handleClientTopicFrame_def Let_def run_res_def, simp add: tell_def upd_internal_def)

lemma told_value:
  assumes "length vs < 2 ^ 32 - 1"
  shows "handleClientTopicFrame env i
      (mk_frame ClientValue (word_of_nat (Suc (length vs))) dt v) (tell i es vs sv)
    = fine (tell i es (vs @ [(p, v)]) sv) []"
proof -
  have "distinct (map word_of_nat [1..<Suc (Suc (length vs))] :: u32 list)" by (rule distinct_ids) (use assms in simp)
  then have "word_of_nat (Suc (length vs)) \<notin> set (map word_of_nat [1..<Suc (length vs)] :: u32 list)" by simp
  then have "word_of_nat (Suc (length vs)) \<notin> fst ` set (valued vs)"
    unfolding registered_keys(3) [symmetric] by simp
  then have "AList.update (word_of_nat (Suc (length vs))) v (valued vs) = valued vs @ [(word_of_nat (Suc (length vs)), v)]"
    by (rule update_fresh)
  also have "\<dots> = valued (vs @ [(p, v)])" by (simp add: valued_def enumerate_append_eq)
  finally have "AList.update (word_of_nat (Suc (length vs))) v (valued vs) = valued (vs @ [(p, v)])" .
  then show ?thesis
    by (simp add: handleClientTopicFrame_def tell_def upd_internal_def)
qed

lemma told_registrations:
  assumes "distinct (map fst es)" "length es \<le> 10000" "\<forall>(p, v) \<in> set es. check_key_path p = Inr ()"
  shows "for_each (handleClientTopicFrame env i)
      (map (\<lambda>(m, p, v). mk_frame ClientKeyRegistration (word_of_nat m) (detectDataType v) (PString p)) (enumerate 1 es))
      (tell i [] [] sv) = fine (tell i es [] sv) []"
  using assms
proof (induction es rule: rev_induct)
  case (snoc x es)
  obtain p v where x: "x = (p, v)" by (cases x)
  have "handleClientTopicFrame env i
      (mk_frame ClientKeyRegistration (word_of_nat (Suc (length es))) (detectDataType v) (PString p)) (tell i es [] sv)
    = fine (tell i (es @ [(p, v)]) [] sv) []"
    by (rule told_registration) (use snoc.prems in \<open>auto simp: x\<close>)
  with snoc show ?case by (simp add: x enumerate_append_eq for_each_append and_then_fine)
qed simp

lemma told_values:
  assumes "length vs \<le> 10000"
  shows "for_each (handleClientTopicFrame env i)
      (map (\<lambda>(m, p, v). mk_frame ClientValue (word_of_nat m) (detectDataType v) v) (enumerate 1 vs))
      (tell i es [] sv) = fine (tell i es vs sv) []"
  using assms
proof (induction vs rule: rev_induct)
  case (snoc x vs)
  obtain p v where x: "x = (p, v)" by (cases x)
  have "handleClientTopicFrame env i (mk_frame ClientValue (word_of_nat (Suc (length vs))) (detectDataType v) v) (tell i es vs sv)
    = fine (tell i es (vs @ [(p, v)]) sv) []"
    by (rule told_value) (use snoc.prems in simp)
  with snoc show ?case by (simp add: x enumerate_append_eq for_each_append and_then_fine)
qed simp

lemma told_all:
  assumes "distinct (map fst es)" "length es \<le> 10000" "\<forall>(p, v) \<in> set es. check_key_path p = Inr ()"
  shows "for_each (handleClientTopicFrame env i) (butlast (topic_sync_frames es)) sv = fine (tell i es es sv) []"
proof -
  have "handleClientTopicFrame env i (signal ClientReset 0) sv = fine (tell i [] [] sv) []"
    by (simp add: handleClientTopicFrame_def tell_def registered_Nil valued_def)
  then show ?thesis
    using told_registrations [OF assms, of env i sv] told_values [OF assms(2), of env i es sv]
    by (simp add: topic_sync_frames_def butlast_append for_each_append and_then_fine)
qed

lemma sync_entry_cases:
  assumes "p \<in> fst ` set (sync_entries 0 subs)"
  obtains j where "j < length subs" "p = name_path j" "(p, PString (fst (subs ! j))) \<in> set (sync_entries 0 subs)"
  | j k v where "j < length subs" "p = param_path j k" "(k, v) \<in> set (snd (subs ! j))" "(p, v) \<in> set (sync_entries 0 subs)"
  using assms sync_entries_set [of 0 subs] by fastforce

lemma distinct_sync_entries:
  assumes "\<forall>(name, params) \<in> set subs. om_wf params"
  shows "distinct (map fst (sync_entries (int n) subs))"
  using assms
proof (induction subs arbitrary: n)
  case (Cons s subs)
  obtain name params where s: "s = (name, params)" by (cases s)
  have "distinct (map fst params)" using Cons.prems by (simp add: s om_wf_def strict_sorted_iff)
  have ents: "map fst (topic_entries (int n) name params) = name_path n # map (param_path n) (map fst params)"
    by (simp add: topic_entries_def name_path_def param_path_def show_int_def split_beta)
  have "distinct (map (param_path n) (map fst params))"
    using \<open>distinct (map fst params)\<close> by (subst distinct_map) (simp add: inj_on_def)
  then have "distinct (map fst (topic_entries (int n) name params))"
    unfolding ents by auto
  moreover have "fst ` set (topic_entries (int n) name params) = insert (name_path n) (param_path n ` fst ` set params)"
    using arg_cong [OF ents, of set] by (simp add: image_image)
  moreover have "fst ` set (sync_entries (int (Suc n)) subs)
      = (\<Union>j < length subs. insert (name_path (Suc n + j)) (param_path (Suc n + j) ` fst ` set (snd (subs ! j))))"
    unfolding sync_entries_set by (simp add: image_UN image_image split_beta)
  ultimately have "fst ` set (topic_entries (int n) name params) \<inter> fst ` set (sync_entries (int (Suc n)) subs) = {}"
    by auto
  moreover have "distinct (map fst (sync_entries (int (Suc n)) subs))"
    by (rule Cons.IH) (use Cons.prems in simp)
  moreover have "int n + 1 = int (Suc n)" by simp
  ultimately show ?case
    using \<open>distinct (map fst (topic_entries (int n) name params))\<close> by (simp only: s sync_entries.simps map_append distinct_append set_map)
qed simp

lemma parse_sync_paths:
  assumes g: "good_subs subs" and len: "length (sync_entries 0 subs) < 2 ^ 32"
    and "set P \<subseteq> fst ` set (sync_entries 0 subs)"
  shows "\<exists>pa. rfold (parse_path (registered (sync_entries 0 subs)) (valued (sync_entries 0 subs))) P no_topics = Inr pa
    \<and> understood subs P pa"
  using assms(3)
proof (induction P rule: rev_induct)
  case Nil
  then show ?case by (simp add: understood_Nil)
next
  case (snoc p P)
  let ?es = "sync_entries 0 subs"
  let ?parse = "parse_path (registered ?es) (valued ?es)"
  obtain pa where pa: "rfold ?parse P no_topics = Inr pa" "understood subs P pa" using snoc by auto
  have "distinct (map fst ?es)"
    using distinct_sync_entries [of subs 0] g by (auto simp: good_subs_def)
  then have look: "\<exists>e. getByPath (registered ?es) q = Some e \<and> map_of (valued ?es) (ke_keyId e) = Some v"
    if "(q, v) \<in> set ?es" for q v
    using registered_lookup [OF that _ len] by blast
  have "p \<in> fst ` set ?es" using snoc.prems by simp
  then have "\<exists>pa'. ?parse p pa = Inr pa' \<and> understood subs (P @ [p]) pa'"
  proof (cases rule: sync_entry_cases [of p subs])
    case (1 j)
    obtain e where e: "getByPath (registered ?es) (name_path j) = Some e"
      "map_of (valued ?es) (ke_keyId e) = Some (PString (fst (subs ! j)))"
      using look [OF 1(3)] 1(2) by auto
    show ?thesis
      using understood_name [OF pa(2) g 1(1)]
      by (simp add: 1(2) parse_name_path [OF e(1)] e(2))
  next
    case (2 j k v)
    obtain e where e: "getByPath (registered ?es) (param_path j k) = Some e"
      "map_of (valued ?es) (ke_keyId e) = Some v"
      using look [OF 2(4)] 2(2) by auto
    show ?thesis
      using understood_param [OF pa(2) g 2(1,3)] good_subs_nth(3) [OF g 2(1,3)]
      by (simp add: 2(2) parse_param_path [OF e(1)] e(2))
  qed
  then show ?case using pa(1) by (auto simp: rfold_append)
qed

lemma understood_topics:
  assumes "understood subs P pa" "good_subs subs" "\<forall>j < length subs. name_path j \<in> set P"
  shows "map fst (pa_topics pa) = map fst subs"
proof -
  have wf: "sorted_wrt (<) (map fst (pa_topics pa))" "sorted_wrt (<) (map fst subs)"
    using assms(1,2) by (simp_all add: understood_def good_subs_def om_wf_def)
  have "n \<in> fst ` set (pa_topics pa) \<longleftrightarrow> n \<in> fst ` set subs" for n
  proof -
    have "n \<in> fst ` set (pa_topics pa) \<longleftrightarrow> map_of (pa_topics pa) n \<noteq> None" by (simp add: map_of_eq_None_iff)
    also have "\<dots> \<longleftrightarrow> (\<exists>j < length subs. n = fst (subs ! j))" using assms(1,3) by (auto simp: understood_def)
    also have "\<dots> \<longleftrightarrow> n \<in> fst ` set subs" by (force simp: in_set_conv_nth image_iff)
    finally show ?thesis .
  qed
  then have "set (map fst (pa_topics pa)) = set (map fst subs)" by auto
  then show ?thesis using wf by (intro strict_sorted_equal) auto
qed

text \<open>C16. The server understands the subscriptions that a client describes. When the frames of a topic
  sync of a client with given subscriptions have arrived (all but the last, which triggers the
  reading), the loop over the paths collects exactly the topics the client is subscribed to, each
  under the number the client has given it, in whatever order the server's hash map enumerates the
  paths. Of the parameters it collects exactly those that the map enumerates after the name of
  their topic: a parameter that comes first is lost. (A parameter whose path ends like that of a
  name is excluded.)\<close>

theorem topic_sync_understood:
  assumes "good_subs subs" and "length (sync_entries 0 subs) \<le> 10000"
    and "\<forall>(p, v) \<in> set (sync_entries 0 subs). check_key_path p = Inr ()"
  shows "\<exists>sv' kr. for_each (handleClientTopicFrame env i) (butlast (topic_sync_frames (sync_entries 0 subs))) sv = fine sv' []
    \<and> in_clientRegistry (sv_internals sv' i) = Some kr
    \<and> (\<forall>paths. set paths = set (kr_paths kr) \<longrightarrow>
        (\<exists>pa. rfold (parse_path kr (in_clientValues (sv_internals sv' i))) paths no_topics = Inr pa
          \<and> map fst (pa_topics pa) = map fst subs
          \<and> (\<forall>j < length subs. map_of (pa_nameToIndex pa) (fst (subs ! j)) = Some (int j)
              \<and> (\<forall>k v. map_of (params_of pa (fst (subs ! j))) k = Some v
                    \<longleftrightarrow> (k, v) \<in> set (snd (subs ! j)) \<and> after paths j k))))"
proof (rule exI [of _ "tell i (sync_entries 0 subs) (sync_entries 0 subs) sv"],
    rule exI [of _ "registered (sync_entries 0 subs)"], intro conjI allI impI)
  let ?es = "sync_entries 0 subs"
  have d: "distinct (map fst ?es)" using distinct_sync_entries [of subs 0] assms(1) by (auto simp: good_subs_def)
  show "for_each (handleClientTopicFrame env i) (butlast (topic_sync_frames ?es)) sv = fine (tell i ?es ?es sv) []"
    by (rule told_all [OF d assms(2,3)])
  show "in_clientRegistry (sv_internals (tell i ?es ?es sv) i) = Some (registered ?es)" by simp
  fix paths assume paths: "set paths = set (kr_paths (registered ?es))"
  then have sub: "set paths \<subseteq> fst ` set ?es" by (simp add: registered_keys)
  have len: "length ?es < 2 ^ 32" using assms(2) by simp
  obtain pa where pa: "rfold (parse_path (registered ?es) (valued ?es)) paths no_topics = Inr pa" "understood subs paths pa"
    using parse_sync_paths [OF assms(1) len sub] by blast
  have names: "\<forall>j < length subs. name_path j \<in> set paths"
    unfolding paths registered_keys(1) using sync_entries_set [of 0 subs] by (force simp: image_iff)
  have t: "map fst (pa_topics pa) = map fst subs" by (rule understood_topics [OF pa(2) assms(1) names])
  have ix: "map_of (pa_nameToIndex pa) (fst (subs ! j)) = Some (int j)" if "j < length subs" for j
  proof -
    have "map_of (pa_nameToIndex pa) (fst (subs ! j)) = Some (int j) \<longleftrightarrow>
        (\<exists>j' < length subs. fst (subs ! j) = fst (subs ! j') \<and> int j = int j' \<and> name_path j' \<in> set paths)"
      using pa(2) by (simp only: understood_def)
    then show ?thesis using that names by blast
  qed
  have ps: "map_of (params_of pa (fst (subs ! j))) k = Some v
      \<longleftrightarrow> (k, v) \<in> set (snd (subs ! j)) \<and> after paths j k" if "j < length subs" for j k v
    using pa(2) that by (simp add: understood_def)
  show "\<exists>pa. rfold (parse_path (registered ?es) (in_clientValues (sv_internals (tell i ?es ?es sv) i))) paths no_topics = Inr pa
          \<and> map fst (pa_topics pa) = map fst subs
          \<and> (\<forall>j < length subs. map_of (pa_nameToIndex pa) (fst (subs ! j)) = Some (int j)
              \<and> (\<forall>k v. map_of (params_of pa (fst (subs ! j))) k = Some v
                    \<longleftrightarrow> (k, v) \<in> set (snd (subs ! j)) \<and> after paths j k))"
    unfolding tell_internal by (intro exI [of _ pa] conjI allI impI pa(1) t ix ps)
qed

definition demo_subs :: subscriptions where
  "demo_subs = [(''chat'', [(''lang'', PString ''en''), (''room'', PInt32 7)]), (''news'', [])]"

theorem topic_sync_understood_witness:
  "\<exists>sv' kr. for_each (handleClientTopicFrame plain_env 0) (butlast (topic_sync_frames (sync_entries 0 demo_subs)))
        (new_server SessionTopic 0) = fine sv' []
    \<and> in_clientRegistry (sv_internals sv' 0) = Some kr
    \<and> (\<exists>pa. parse_topics (Some kr) (in_clientValues (sv_internals sv' 0)) = Inr pa
          \<and> map fst (pa_topics pa) = [''chat'', ''news''])"
proof -
  have "good_subs demo_subs" "length (sync_entries 0 demo_subs) \<le> 10000"
    "\<forall>(p, v) \<in> set (sync_entries 0 demo_subs). check_key_path p = Inr ()"
    by code_simp+
  from topic_sync_understood [OF this, of plain_env 0 "new_server SessionTopic 0"]
  obtain sv' kr where sv: "for_each (handleClientTopicFrame plain_env 0) (butlast (topic_sync_frames (sync_entries 0 demo_subs)))
        (new_server SessionTopic 0) = fine sv' []" "in_clientRegistry (sv_internals sv' 0) = Some kr"
    and parse: "\<forall>paths. set paths = set (kr_paths kr) \<longrightarrow>
        (\<exists>pa. rfold (parse_path kr (in_clientValues (sv_internals sv' 0))) paths no_topics = Inr pa
          \<and> map fst (pa_topics pa) = map fst demo_subs)"
    by (elim exE conjE) metis
  from parse obtain pa where "parse_topics (Some kr) (in_clientValues (sv_internals sv' 0)) = Inr pa"
    "map fst (pa_topics pa) = map fst demo_subs"
    by (auto simp: parse_topics_def)
  with sv show ?thesis by (auto simp: demo_subs_def)
qed

section \<open>What goes wrong with topics\<close>

text \<open>An active session in topic mode, and the topic syncs of its client one after the other.\<close>

definition topic_server :: server where
  "topic_server = fst (server_run plain_env [(0, SI_Connect 1), (0, SI_Message 1 (identify_message 1))]
     (configured SessionTopic False 0))"

definition topic_syncs :: "subscriptions list \<Rightarrow> sres" where
  "topic_syncs ss =
     for_each (\<lambda>subs. for_each (on_frame plain_env 1 0) (topic_sync_frames (sync_entries 0 subs))) ss topic_server"

definition server_prefixes :: "sres \<Rightarrow> (string \<times> string) list" where
  "server_prefixes r = map (\<lambda>(name, th). (name, topic_prefix (tp_index (th_payload th)))) (ss_topicHandles (session_at (fst r) 0))"

text \<open>The client numbers its subscriptions anew at every sync, in the order of their names, but the
  server keeps the number a topic had first. So when a client of topic \<open>b\<close> also subscribes to \<open>a\<close>,
  the data of both topics go out under one prefix, that of \<open>a\<close> for the client, which looks for \<open>b\<close>
  under another.\<close>

theorem topics_share_prefix:
  "server_prefixes (topic_syncs [[(''b'', [])], [(''a'', []), (''b'', [])]]) = [(''a'', ''t.0.''), (''b'', ''t.0.'')]
   \<and> cl_indexToTopic (assign_indices 0 [(''a'', []), (''b'', [])] (new_client ''00'' ''w'' default_reconnect))
     = [(0, ''a''), (1, ''b'')]"
  by (rule conjI; code_simp)

text \<open>When the first of two topics is unsubscribed, the client numbers the other one anew, but the server
  goes on under its old number: the handle of the topic that is left reads nothing any more.\<close>

theorem unsubscribing_strands_topic:
  "server_prefixes (topic_syncs [[(''a'', []), (''b'', [])], [(''b'', [])]]) = [(''b'', ''t.1.'')]
   \<and> cl_indexToTopic (assign_indices 0 [(''b'', [])] (new_client ''00'' ''w'' default_reconnect)) = [(0, ''b'')]"
  by (rule conjI; code_simp)

text \<open>A parameter with the name \<open>name\<close> subscribes the client to a topic it never asked for.\<close>

theorem parameter_becomes_topic:
  "map fst (server_prefixes (topic_syncs [[(''a'', [(''name'', PString ''secret'')])]])) = [''a'', ''secret'']"
  by code_simp

text \<open>A client can make the server's topic counter overflow, which is undefined behaviour.\<close>

theorem topic_number_overflows:
  "snd (snd (for_each (on_frame plain_env 1 0)
     [mk_frame ClientKeyRegistration 1 DT_String (PString ''topic.2147483647.name''),
      mk_frame ClientValue 1 DT_String (PString ''x''), signal ClientSync 0] topic_server)) = Some Undefined"
  by code_simp

text \<open>
  In the mode that has both sessions' topics and principals the data of principals goes nowhere:
  setting or clearing it never sends anything.
\<close>

theorem principal_data_unsent_in_topic_mode:
  "isTopicMode sv \<Longrightarrow> \<exists>sv' e. sv_principal_op p f sv = (sv', [], e)"
  by (cases "check_principal_mode sv")
    (auto simp: sv_principal_op_def run_res_def principal_op_def Let_def isTopicMode_def fine_def split_beta)

end
