(* ===== verification/Joining.thy ===== *)
theory Joining
  imports Server_Data Protocol
begin

text \<open>
  A client joins: it connects, identifies itself, is sent the keys of its principal, asks for the
  values, and from then on follows what the server's user sets.
\<close>

section \<open>Frames of a session\<close>

lemma sv_enqueue_open:
  assumes "conn_open sv (in_flushTo (sv_internals sv i))" "encode f = Inr bs"
  shows "sv_enqueue i f sv = fine sv [Sv_Send (in_flushTo (sv_internals sv i)) bs]"
  using assms by (simp add: sv_enqueue_def run_res_def)

lemma bytes_to_Cons [simp]:
  "bytes_to w (Sv_Send w' data # out) = (if w' = w then data else []) @ bytes_to w out"
  "bytes_to w (Sv_Ready u # out) = bytes_to w out"
  "bytes_to w (Sv_Connection u # out) = bytes_to w out"
  by (simp_all add: bytes_to_def)

lemma session_frames_sent:
  assumes "conn_open sv w" "in_flushTo (sv_internals sv i) = w" "encodeBatch fs = Inr bs"
  shows "\<exists>out. run_sess_out i (map S_Frame fs) sv = fine sv out \<and> bytes_to w out = bs"
  using assms(3)
proof (induction fs arbitrary: bs)
  case (Cons f fs)
  then obtain b bs' where b: "encode f = Inr b" "encodeBatch fs = Inr bs'" "bs = b @ bs'"
    by (auto simp: encodeBatch_Cons rbind_eq_Inr)
  then obtain out where "run_sess_out i (map S_Frame fs) sv = fine sv out" "bytes_to w out = bs'"
    using Cons by blast
  then show ?case
    using sv_enqueue_open [of sv i f b] assms(1,2) b by (auto simp: run_sess_out_def)
qed (simp add: run_sess_out_def)

lemma run_sess_out_append:
  "run_sess_out i (out @ out') sv = and_then (run_sess_out i out sv) (run_sess_out i out')"
  by (simp add: run_sess_out_def [abs_def] for_each_append)

lemma and_then_stop [simp]: "and_then r (\<lambda>sv. fine sv []) = r"
  by (cases r) (auto simp: and_then_def fine_def split: option.split)

lemma for_each_one: "for_each f [x] c = f x c"
  by (simp add: and_then_def fine_def split: prod.split option.split)

lemma default_feed_frame:
  assumes "transportable f" "encode f = Inr bs" "body_length f \<le> 1048576"
  shows "feed default_parser bs = (default_parser, [EvFrame f])"
proof -
  have "wire_image [([f], False)] = Inr bs" using assms(2) by (simp add: encodeBatch_Cons)
  then show ?thesis
    using feed_wire_image [of "new_parser 1048576" "[([f], False)]" bs] assms(1,3)
    by (simp add: default_parser_def new_parser_def)
qed

lemma sv_message_frame:
  assumes "cn_parser (sv_conns sv w) = default_parser" "cn_attached (sv_conns sv w)" "cn_open (sv_conns sv w)"
    "transportable f" "encode f = Inr bs" "body_length f \<le> 1048576"
  shows "server_step env now (SI_Message w bs) sv = catching (on_frame env w now f sv)"
proof -
  have "(sv_conns sv w)\<lparr>cn_parser := default_parser\<rparr> = sv_conns sv w"
    using assms(1) by (cases "sv_conns sv w") simp
  then have "upd_conn w (\<lambda>c. c\<lparr>cn_parser := default_parser\<rparr>) sv = sv" by (simp add: upd_conn_def)
  then show ?thesis
    using default_feed_frame [OF assms(4-6)] assms(1-3)
    by (simp add: server_step_def conn_open_def sv_on_message_def sv_event_def for_each_one del: for_each.simps)
qed


section \<open>Connecting\<close>

text \<open>A server that lets everybody in, and serves one principal to everybody.\<close>

definition welcoming :: "server \<Rightarrow> bool" where
  "welcoming sv \<longleftrightarrow> (sv_mode sv = Broadcast \<or> sv_mode sv = Principal) \<and> \<not> sv_authEnabled sv
     \<and> sv_maxConnections sv = 0 \<and> sv_maxFramesPerSec sv = 0"

text \<open>The client \<open>uuid\<close> on connection \<open>w\<close> has a session for principal \<open>p\<close>, in the given state.\<close>

definition attends :: "session_state \<Rightarrow> server \<Rightarrow> nat \<Rightarrow> string \<Rightarrow> string \<Rightarrow> principal_tx \<Rightarrow> bool" where
  "attends st sv w uuid p pt \<longleftrightarrow> offers sv p \<and> sv_maxFramesPerSec sv = 0
     \<and> sv_conns sv w = \<lparr>cn_open = True, cn_attached = True, cn_parser = default_parser, cn_identified = True, cn_uuid = uuid\<rparr>
     \<and> map_of (pm_principals (sv_principals sv)) p = Some pt
     \<and> (\<exists>i. map_of (sv_sessions sv) uuid = Some i
          \<and> filter (\<lambda>i. in_flushTo (sv_internals sv i) = w) (index_of sv p) = [i]
          \<and> in_flushTo (sv_internals sv i) = w \<and> in_ws (sv_internals sv i) = Some w
          \<and> in_provider (sv_internals sv i) = p
          \<and> ss_txProvider (session_at sv i) \<and> ss_enqueueFrame (session_at sv i)
          \<and> ss_flatState (session_at sv i) = None \<and> ss_topicHandles (session_at sv i) = []
          \<and> ss_serverSyncSent (session_at sv i) \<and> ss_state (session_at sv i) = st)"

abbreviation joining :: "server \<Rightarrow> nat \<Rightarrow> string \<Rightarrow> string \<Rightarrow> principal_tx \<Rightarrow> bool" where
  "joining \<equiv> attends SS_Synchronizing"

definition identification :: "bytes \<Rightarrow> frame" where
  "identification me = mk_frame Identify 0 DT_Binary (PBinary (me @ [3, 5]))"

lemma identification_facts:
  assumes "length me = 16"
  shows "transportable (identification me)" "body_length (identification me) \<le> 1048576"
    "identify_bytes (identification me) = Some (me @ [3, 5])"
proof -
  show "transportable (identification me)"
    unfolding identification_def by (rule transportable_value) (simp_all add: faithful_value_def isKeyRegistrationFrame_def)
  show "body_length (identification me) \<le> 1048576"
    using assms by (simp add: identification_def body_length_def frame_payload_def isKeyRegistrationFrame_def)
  show "identify_bytes (identification me) = Some (me @ [3, 5])"
    using assms by (simp add: identification_def identify_bytes_def mk_frame_def nth_append)
qed

text \<open>The server once the client on a new connection has identified itself.\<close>

definition met :: "server \<Rightarrow> nat \<Rightarrow> string \<Rightarrow> server" where
  "met sv w u = upd_conn w (\<lambda>c. c\<lparr>cn_uuid := u, cn_identified := True\<rparr>) (handleConnection w sv\<lparr>sv_framesIn := sv_framesIn sv + 1\<rparr>)"

lemma met_fields [simp]:
  "sv_mode (met sv w u) = sv_mode sv" "sv_authEnabled (met sv w u) = sv_authEnabled sv"
  "sv_maxConnections (met sv w u) = sv_maxConnections sv" "sv_maxFramesPerSec (met sv w u) = sv_maxFramesPerSec sv"
  "sv_next (met sv w u) = sv_next sv" "sv_principals (met sv w u) = sv_principals sv" "sv_sessions (met sv w u) = sv_sessions sv"
  "sv_tmpSessions (met sv w u) = sv_tmpSessions sv" "sv_principalIndex (met sv w u) = sv_principalIndex sv"
  "sv_internals (met sv w u) = sv_internals sv" "default_principal (met sv w u) = default_principal sv"
  "index_of (met sv w u) p = index_of sv p"
  "sv_conns (met sv w u) w = \<lparr>cn_open = True, cn_attached = True, cn_parser = default_parser, cn_identified = True, cn_uuid = u\<rparr>"
  by (simp_all add: met_def upd_conn_def handleConnection_def no_conn_def default_principal_def index_of_def)

lemma run_last [simp]: "and_then r (server_run env []) = r"
proof -
  have "server_run env [] = (\<lambda>sv. fine sv [])" by (rule ext) simp
  then show ?thesis by simp
qed

lemma first_contact:
  assumes "sv_maxConnections sv = 0" "sv_maxFramesPerSec sv = 0" "length me = 16" "encode (identification me) = Inr hello"
    and "map_of (sv_sessions sv) (bytesToUuid (me @ [3, 5])) = None"
  shows "server_run env [(t, SI_Connect w), (t', SI_Message w hello)] sv
    = catching (create_session env w (bytesToUuid (me @ [3, 5])) t' (met sv w (bytesToUuid (me @ [3, 5]))))"
proof -
  have "server_run env [(t, SI_Connect w), (t', SI_Message w hello)] sv
      = server_step env t' (SI_Message w hello) (handleConnection w sv)"
    by (simp add: server_step_def [of _ _ "SI_Connect w"] del: server_run.simps(1))
  also have "\<dots> = catching (on_frame env w t' (identification me) (handleConnection w sv))"
    using sv_message_frame [of "handleConnection w sv" w "identification me" hello env t'] identification_facts [OF assms(3)] assms(4)
    by (simp add: handleConnection_def upd_conn_def no_conn_def)
  also have "on_frame env w t' (identification me) (handleConnection w sv)
      = create_session env w (bytesToUuid (me @ [3, 5])) t' (met sv w (bytesToUuid (me @ [3, 5])))"
    using assms(1,2,5) identification_facts(3) [OF assms(3)]
    by (simp add: on_frame_def rate_limit_def met_def handleConnection_def upd_conn_def no_conn_def handleIdentified_def)
  finally show ?thesis .
qed

text \<open>\<open>activateSession\<close> on such a server.\<close>

lemma activate_syncs:
  assumes p: "\<not> isTopicMode sv" "effectivePrincipal sv pname = p" and "env_onConnection env = []"
    and conn: "conn_open sv w" "in_flushTo (sv_internals sv i) = w" "ss_enqueueFrame (session_at sv i)"
    and pt: "snd (pm_principal (sv_principals sv) p) = pt"
    and keys: "encodeBatch (fst (pt_buildKeyFrames pt)) = Inr bs" "fst (pt_buildKeyFrames pt) \<noteq> []"
  shows "\<exists>sv' out. activateSession env i pname sv = fine sv' out \<and> bytes_to w out = bs
    \<and> sv_conns sv' = sv_conns sv \<and> sv_sessions sv' = sv_sessions sv \<and> sv_mode sv' = sv_mode sv
    \<and> sv_maxFramesPerSec sv' = sv_maxFramesPerSec sv
    \<and> index_of sv' p = List.insert i (index_of sv p)
    \<and> map_of (pm_principals (sv_principals sv')) p = Some (snd (pt_buildKeyFrames pt))
    \<and> (\<forall>j. sv_internals sv' j = (if j = i then (sv_internals sv i)\<lparr>in_provider := p,
         in_session := (session_at sv i)\<lparr>ss_txProvider := True, ss_state := SS_Synchronizing, ss_serverSyncSent := True\<rparr>\<rparr>
         else sv_internals sv j))"
proof -
  obtain pm where pm: "pm_principal (sv_principals sv) p = (pm, pt)" using pt by (cases "pm_principal (sv_principals sv) p") simp
  then have "map_of (pm_principals pm) p = Some pt"
    by (auto simp: pm_principal_def Let_def split: option.splits)
  then have pm': "pm_principal (pm_addSession pm p) p = (pm_addSession pm p, pt)"
    by (simp add: pm_principal_def pm_addSession_def Let_def)
  obtain frames pt' where build: "pt_buildKeyFrames pt = (frames, pt')" by (cases "pt_buildKeyFrames pt")
  then have bytes: "encodeBatch frames = Inr bs" using keys(1) by simp
  let ?ss = "(session_at sv i)\<lparr>ss_txProvider := True, ss_state := SS_Synchronizing, ss_serverSyncSent := True\<rparr>"
  let ?sv = "\<lambda>sv0. put_session i ?ss (sv0\<lparr>sv_principals := pm_store (pm_addSession pm p) p pt'\<rparr>)"
  let ?sv1 = "upd_internal i (\<lambda>n. n\<lparr>in_provider := p, in_session := ss_setTxProviders (in_session n)\<rparr>)
      (indexAddSession p i (sv\<lparr>sv_principals := pm_addSession pm p\<rparr>))"
  have s: "ss_startSync (session_at ?sv1 i) pt = (?ss, pt', map S_Frame frames)"
    using build conn(3) keys(2) by (simp add: ss_startSync_def session_at_def upd_internal_def ss_setTxProviders_def indexAddSession_def Let_def)
  have sv1: "in_provider (sv_internals ?sv1 i) = p" "sv_principals ?sv1 = pm_addSession pm p"
    "ss_id (session_at ?sv1 i) = ss_id (session_at sv i)"
    by (simp_all add: upd_internal_def indexAddSession_def session_at_def ss_setTxProviders_def)
  have start: "start_sync i ?sv1 = run_sess_out i (map S_Frame frames) (?sv ?sv1)"
    using s sv1(1,2) by (simp add: start_sync_def pm')
  have act: "activateSession env i pname sv = emit_before [Sv_Connection (ss_id (session_at sv i))] (run_sess_out i (map S_Frame frames) (?sv ?sv1))"
    using p pm start assms(3) sv1(3) by (simp add: activateSession_def announce_session_def run_callbacks_def)
  have "conn_open (?sv ?sv1) w" "in_flushTo (sv_internals (?sv ?sv1) i) = w"
    using conn by (simp_all add: conn_open_def put_session_def upd_internal_def indexAddSession_def)
  then obtain out where out: "run_sess_out i (map S_Frame frames) (?sv ?sv1) = fine (?sv ?sv1) out" "bytes_to w out = bs"
    using session_frames_sent [OF _ _ bytes] by blast
  show ?thesis
    using act out build
    by (intro exI [of _ "?sv ?sv1"] exI [of _ "Sv_Connection (ss_id (session_at sv i)) # out"])
      (auto simp: put_session_def upd_internal_def indexAddSession_def index_of_def welcoming_def pm_store_def session_at_def ss_setTxProviders_def)
qed


text \<open>A session that enters the table on an idle connection is being synchronised from then on.\<close>

lemma activate_joins:
  assumes "offers sv p" "effectivePrincipal sv pname = p" "env_onConnection env = []" "sv_maxFramesPerSec sv = 0"
    and conn: "sv_conns sv w = \<lparr>cn_open = True, cn_attached = True, cn_parser = default_parser, cn_identified = True, cn_uuid = uuid\<rparr>"
    and i: "map_of (sv_sessions sv) uuid = Some i" "in_flushTo (sv_internals sv i) = w" "in_ws (sv_internals sv i) = Some w"
      "ss_enqueueFrame (session_at sv i)" "ss_flatState (session_at sv i) = None" "ss_topicHandles (session_at sv i) = []"
    and idle: "\<forall>j \<in> set (index_of sv p). j \<noteq> i \<and> in_flushTo (sv_internals sv j) \<noteq> w"
    and pt: "snd (pm_principal (sv_principals sv) p) = pt"
    and keys: "encodeBatch (fst (pt_buildKeyFrames pt)) = Inr bs" "fst (pt_buildKeyFrames pt) \<noteq> []"
  shows "\<exists>sv' out. activateSession env i pname sv = fine sv' out \<and> bytes_to w out = bs \<and> sv_mode sv' = sv_mode sv
    \<and> joining sv' w uuid p (snd (pt_buildKeyFrames pt))"
proof -
  have "conn_open sv w" "\<not> isTopicMode sv" using conn assms(1) by (auto simp: conn_open_def offers_def isTopicMode_def)
  from activate_syncs [OF this(2) assms(2,3) this(1) i(2,4) pt keys]
  obtain sv' out where sv': "activateSession env i pname sv = fine sv' out" "bytes_to w out = bs" "sv_conns sv' = sv_conns sv"
    "sv_sessions sv' = sv_sessions sv" "sv_mode sv' = sv_mode sv" "sv_maxFramesPerSec sv' = sv_maxFramesPerSec sv"
    "index_of sv' p = List.insert i (index_of sv p)"
    "map_of (pm_principals (sv_principals sv')) p = Some (snd (pt_buildKeyFrames pt))"
    "\<forall>j. sv_internals sv' j = (if j = i then (sv_internals sv i)\<lparr>in_provider := p,
         in_session := (session_at sv i)\<lparr>ss_txProvider := True, ss_state := SS_Synchronizing, ss_serverSyncSent := True\<rparr>\<rparr>
         else sv_internals sv j)"
    by blast
  have "i \<notin> set (index_of sv p)" using idle by blast
  moreover have "filter (\<lambda>j. in_flushTo (sv_internals sv' j) = w) (index_of sv p) = []"
    using idle by (auto simp: filter_empty_conv sv'(9))
  ultimately have "filter (\<lambda>j. in_flushTo (sv_internals sv' j) = w) (index_of sv' p) = [i]"
    using i(2) by (simp add: sv'(7,9))
  then have "joining sv' w uuid p (snd (pt_buildKeyFrames pt))"
    unfolding attends_def
    using assms(1,4) i sv'(3-6,8) conn by (simp add: sv'(9) session_at_def offers_def)
  then show ?thesis using sv'(1,2,5) by blast
qed

lemma create_admitted:
  assumes "\<not> sv_authEnabled sv"
  shows "\<exists>sv1. create_session env w u now sv = activateSession env (sv_next sv) (default_principal sv) sv1
    \<and> sv_mode sv1 = sv_mode sv \<and> \<not> sv_authEnabled sv1 \<and> sv_maxConnections sv1 = sv_maxConnections sv
    \<and> sv_maxFramesPerSec sv1 = sv_maxFramesPerSec sv \<and> sv_conns sv1 = sv_conns sv \<and> sv_principals sv1 = sv_principals sv
    \<and> sv_principalIndex sv1 = sv_principalIndex sv
    \<and> sv_sessions sv1 = AList.update u (sv_next sv) (sv_sessions sv)
    \<and> (\<forall>j. j \<noteq> sv_next sv \<longrightarrow> sv_internals sv1 j = sv_internals sv j)
    \<and> in_flushTo (sv_internals sv1 (sv_next sv)) = w \<and> in_ws (sv_internals sv1 (sv_next sv)) = Some w
    \<and> session_at sv1 (sv_next sv) = ss_authorize (ss_setEnqueue (new_session u)) (default_principal sv)"
proof -
  let ?i = "sv_next sv" and ?p = "default_principal sv"
  let ?ss = "ss_setEnqueue (new_session u)"
  obtain hb where hb: "hb_start False now new_heartbeat = Inr hb"
    by (simp add: hb_start_def hb_stop_def new_heartbeat_def assign_thread_def joinable_def)
  let ?sv = "upd_internal ?i (\<lambda>n. n\<lparr>in_heartbeat := hb\<rparr>)
      (upd_internal ?i (\<lambda>_. new_internal ?ss w now) (sv\<lparr>sv_next := ?i + 1\<rparr>))"
  have f: "in_heartbeat (sv_internals (upd_internal ?i (\<lambda>_. new_internal ?ss w now) (sv\<lparr>sv_next := ?i + 1\<rparr>)) ?i) = new_heartbeat"
    "session_at ?sv ?i = ?ss" "sv_authEnabled ?sv = sv_authEnabled sv" "default_principal ?sv = ?p"
    "sv_sessions ?sv = sv_sessions sv" "sv_sessions (put_session ?i (ss_authorize ?ss ?p) ?sv) = sv_sessions sv"
    by (simp_all add: upd_internal_def new_internal_def session_at_def default_principal_def put_session_def)
  let ?sv1 = "put_session ?i (ss_authorize ?ss ?p) ?sv\<lparr>sv_sessions := AList.update u ?i (sv_sessions sv)\<rparr>"
  have "create_session env w u now sv = activateSession env ?i ?p ?sv1"
    unfolding create_session_def start_hb_def Let_def f(1) hb run_res_def sum.case and_then_simps f(2-6)
    using assms by simp
  then show ?thesis
    using assms
    by (intro exI [of _ ?sv1])
      (simp add: put_session_def upd_internal_def new_internal_def session_at_def)
qed

lemma server_admits:
  assumes "welcoming sv" "env_onConnection env = []" "length me = 16" "encode (identification me) = Inr hello"
    and new: "map_of (sv_sessions sv) (bytesToUuid (me @ [3, 5])) = None"
    and idle: "\<forall>i \<in> set (index_of sv (default_principal sv)). i \<noteq> sv_next sv \<and> in_flushTo (sv_internals sv i) \<noteq> w"
    and pt: "snd (pm_principal (sv_principals sv) (default_principal sv)) = pt"
    and keys: "encodeBatch (fst (pt_buildKeyFrames pt)) = Inr bs" "fst (pt_buildKeyFrames pt) \<noteq> []"
  shows "\<exists>sv' out. server_run env [(t, SI_Connect w), (t', SI_Message w hello)] sv = fine sv' out
    \<and> bytes_to w out = bs \<and> sv_mode sv' = sv_mode sv
    \<and> joining sv' w (bytesToUuid (me @ [3, 5])) (default_principal sv) (snd (pt_buildKeyFrames pt))"
proof -
  let ?u = "bytesToUuid (me @ [3, 5])" and ?p = "default_principal sv" and ?i = "sv_next sv"
  have run: "server_run env [(t, SI_Connect w), (t', SI_Message w hello)] sv = catching (create_session env w ?u t' (met sv w ?u))"
    using first_contact [OF _ _ assms(3,4) new] assms(1) by (simp add: welcoming_def)
  obtain sv1 where sv1: "create_session env w ?u t' (met sv w ?u) = activateSession env ?i ?p sv1" "welcoming sv1"
    "default_principal sv1 = ?p" "sv_mode sv1 = sv_mode sv" "sv_conns sv1 = sv_conns (met sv w ?u)" "sv_principals sv1 = sv_principals sv" "index_of sv1 ?p = index_of sv ?p"
    "sv_sessions sv1 = AList.update ?u ?i (sv_sessions sv)" "\<forall>j. j \<noteq> ?i \<longrightarrow> sv_internals sv1 j = sv_internals sv j"
    "in_flushTo (sv_internals sv1 ?i) = w" "in_ws (sv_internals sv1 ?i) = Some w" "ss_enqueueFrame (session_at sv1 ?i)"
    "ss_flatState (session_at sv1 ?i) = None" "ss_topicHandles (session_at sv1 ?i) = []"
    using create_admitted [of "met sv w ?u" env w ?u t'] assms(1)
    by (auto simp: welcoming_def default_principal_def index_of_def ss_authorize_def ss_setEnqueue_def new_session_def)
  have conn: "sv_conns sv1 w = \<lparr>cn_open = True, cn_attached = True, cn_parser = default_parser, cn_identified = True, cn_uuid = ?u\<rparr>"
    by (simp add: sv1(5))
  have off: "offers sv1 ?p" "effectivePrincipal sv1 ?p = ?p" "sv_maxFramesPerSec sv1 = 0"
    using sv1(2-4) by (auto simp: offers_def effectivePrincipal_def default_principal_def welcoming_def split: if_splits)
  have "map_of (sv_sessions sv1) ?u = Some ?i" by (simp add: sv1(8))
  moreover have "\<forall>j \<in> set (index_of sv1 ?p). j \<noteq> ?i \<and> in_flushTo (sv_internals sv1 j) \<noteq> w"
    using idle sv1(9) by (simp add: sv1(7))
  ultimately show ?thesis
    using activate_joins [OF off(1,2) assms(2) off(3) conn _ sv1(10-14) _ _ keys] pt run sv1(1,4,6) by fastforce
qed

section \<open>Becoming ready\<close>

lemma server_readies:
  assumes "joining sv w uuid p pt" "encode (signal ClientReady 0) = Inr ready"
    and "encodeBatch (buildValueFrames (pt_flatState pt)) = Inr bs"
  shows "\<exists>sv' out. server_step env t (SI_Message w ready) sv = fine sv' out \<and> bytes_to w out = bs
    \<and> served sv' p pt w \<and> offers sv' p \<and> sv_mode sv' = sv_mode sv
    \<and> attends SS_Ready sv' w uuid p pt"
proof -
  obtain i where i: "map_of (sv_sessions sv) uuid = Some i"
    "filter (\<lambda>i. in_flushTo (sv_internals sv i) = w) (index_of sv p) = [i]"
    "in_flushTo (sv_internals sv i) = w" "in_ws (sv_internals sv i) = Some w" "in_provider (sv_internals sv i) = p"
    "ss_txProvider (session_at sv i)" "ss_enqueueFrame (session_at sv i)"
    "ss_serverSyncSent (session_at sv i)" "ss_state (session_at sv i) = SS_Synchronizing"
    "ss_flatState (session_at sv i) = None" "ss_topicHandles (session_at sv i) = []"
    and j: "offers sv p" "sv_maxFramesPerSec sv = 0" "map_of (pm_principals (sv_principals sv)) p = Some pt"
    "sv_conns sv w = \<lparr>cn_open = True, cn_attached = True, cn_parser = default_parser, cn_identified = True, cn_uuid = uuid\<rparr>"
    using assms(1) unfolding attends_def by blast
  let ?ss = "(session_at sv i)\<lparr>ss_state := SS_Ready\<rparr>"
  let ?sv = "put_session i ?ss (sv\<lparr>sv_framesIn := sv_framesIn sv + 1, sv_principals := pm_store (sv_principals sv) p pt\<rparr>)"
  have "body_length (signal ClientReady 0) \<le> 1048576" by (simp add: body_length_def frame_payload_def isKeyRegistrationFrame_def)
  then have "server_step env t (SI_Message w ready) sv = catching (on_frame env w t (signal ClientReady 0) sv)"
    using sv_message_frame [OF _ _ _ _ assms(2), where sv = sv and w = w] j(4) by simp
  also have "on_frame env w t (signal ClientReady 0) sv
      = run_sess_out i (map S_Frame (buildValueFrames (pt_flatState pt)) @ [S_Ready]) ?sv"
    using i(1,5-9) j
    by (simp add: on_frame_def rate_limit_def offers_def route_frame_def pm_principal_def ss_handleFrame_def
        pt_buildValueFrames_def session_at_def is_topic_frame_def mk_frame_def)
  finally have run: "server_step env t (SI_Message w ready) sv
      = catching (run_sess_out i (map S_Frame (buildValueFrames (pt_flatState pt)) @ [S_Ready]) ?sv)" .
  have "conn_open ?sv w" "in_flushTo (sv_internals ?sv i) = w"
    using i j by (simp_all add: conn_open_def put_session_def upd_internal_def)
  then obtain out where out: "run_sess_out i (map S_Frame (buildValueFrames (pt_flatState pt))) ?sv = fine ?sv out" "bytes_to w out = bs"
    using session_frames_sent [OF _ _ assms(3)] by blast
  have "filter (\<lambda>i. receives ?sv i \<and> in_flushTo (sv_internals ?sv i) = w) (index_of ?sv p) = [i]"
  proof -
    have "receives ?sv i"
      using i(3,4) j(4) by (simp add: receives_def session_at_def put_session_def upd_internal_def ws_is_open_def conn_open_def)
    moreover have "in_flushTo (sv_internals ?sv j) = in_flushTo (sv_internals sv j)" "index_of ?sv p = index_of sv p" for j
      by (simp_all add: put_session_def upd_internal_def index_of_def)
    ultimately have "filter (receives ?sv) (filter (\<lambda>j. in_flushTo (sv_internals ?sv j) = w) (index_of ?sv p)) = [i]"
      using i(2) by (simp del: filter_filter)
    then show ?thesis by (simp only: filter_filter conj_commute)
  qed
  then have "served ?sv p pt w" by (simp add: served_def put_session_def upd_internal_def pm_store_def)
  moreover have "offers ?sv p" "sv_mode ?sv = sv_mode sv"
    using j(1) by (simp_all add: offers_def put_session_def upd_internal_def)
  moreover have "attends SS_Ready ?sv w uuid p pt"
  proof -
    have "in_flushTo (sv_internals ?sv j) = in_flushTo (sv_internals sv j)" "index_of ?sv p = index_of sv p" for j
      by (simp_all add: put_session_def upd_internal_def index_of_def)
    then show ?thesis
      using i j calculation(2) unfolding attends_def by (simp add: put_session_def upd_internal_def session_at_def pm_store_def)
  qed
  moreover have "server_step env t (SI_Message w ready) sv = fine ?sv (out @ [Sv_Ready (ss_id (session_at ?sv i))])"
    unfolding run run_sess_out_append out(1) by (simp add: run_sess_out_def)
  ultimately show ?thesis using out(2) by auto
qed


section \<open>What the client is sent can be sent\<close>

text \<open>A store all of whose entries the calls that \<open>good_op\<close> describes could have made.\<close>

definition sendable :: "flat_state \<Rightarrow> bool" where
  "sendable fs \<longleftrightarrow> fs_wirePrefix fs = []
     \<and> (\<forall>key e. map_of (fs_entries fs) key = Some e \<longrightarrow> good_op 1048576 (Set_Key key (fe_value e)))"

lemma sendable_good: "sendable fs \<Longrightarrow> good_store fs"
  by (auto simp: sendable_def good_store_def good_op_def fs_keys_def um_dom [symmetric] dom_def)

lemma sendable_new: "sendable (new_flat_state [])"
  by (simp add: sendable_def new_flat_state_def)

lemma sendable_set:
  assumes "sendable fs" "good_op 1048576 (Set_Key key v)" "fs_set fs nxt key v = (fs', nxt', out)"
  shows "sendable fs'"
  using assms by (cases rule: fs_set_cases [of fs key v nxt])
    (auto simp: sendable_def add_entry_def drop_entry_def mk_fs_entry_def split: if_splits)

lemma sendable_step:
  assumes "sendable fs" "good_op 1048576 op" "fs_step (fs, nxt, out) op = (fs', nxt', out')"
  shows "sendable fs'"
proof (cases op)
  case (Set_Key key v)
  then show ?thesis using assms sendable_set by (auto simp: fs_step_simps split: prod.splits)
next
  case (Clear_Key key)
  then show ?thesis
    using assms
    by (auto simp: fs_step_simps fs_clear_def sendable_def drop_entry_def split: prod.splits option.splits if_splits)
qed

lemma sendable_run:
  "sendable fs \<Longrightarrow> list_all (good_op 1048576) ops \<Longrightarrow> sendable (fst (foldl fs_step (fs, nxt, out) ops))"
proof (induction ops arbitrary: fs nxt out)
  case (Cons op ops)
  obtain fs1 nxt1 out1 where "fs_step (fs, nxt, out) op = (fs1, nxt1, out1)" by (cases "fs_step (fs, nxt, out) op")
  then show ?case using Cons sendable_step by auto
qed simp

lemma entry_sendable:
  assumes "sendable fs" "fs_wf fs nxt" "(key, e) \<in> set (fs_entries fs)"
  shows "good_op 1048576 (Set_Key key (fe_value e))" "fe_type e = detectDataType (fe_value e)" "length key \<le> 200"
proof -
  have look: "map_of (fs_entries fs) key = Some e" using assms(2,3) by (auto simp: fs_wf_def um_lookup_iff)
  then show g: "good_op 1048576 (Set_Key key (fe_value e))" using assms(1) by (simp add: sendable_def)
  show "fe_type e = detectDataType (fe_value e)" by (rule fs_wf_entry(2) [OF assms(2) look])
  show "length key \<le> 200"
    using g by (auto simp: good_op_def good_key_def check_key_path_def MAX_KEY_PATH_BYTES_def split: if_splits)
qed

lemma sendable_frames:
  assumes "sendable fs" "fs_wf fs nxt"
  shows "list_all (\<lambda>f. transportable f \<and> body_length f \<le> 1048576) (buildKeyFrames fs @ [signal ServerSync 0])"
    "list_all (\<lambda>f. transportable f \<and> body_length f \<le> 1048576) (buildValueFrames fs)"
proof -
  have path: "fs_wirePath fs key = key" for key using assms(1) by (simp add: sendable_def fs_wirePath_def)
  have dt: "dt_canonical (detectDataType v)" for v by (cases v) simp_all
  have key: "transportable f \<and> body_length f \<le> 1048576"
    if "(key, e) \<in> set (fs_entries fs)" "f = mk_frame ServerKeyRegistration (fe_keyId e) (fe_type e) (PString (fs_wirePath fs key))" for key e f
    using entry_sendable(2,3) [OF assms that(1)] unfolding that(2)
    by (simp add: path dt body_length_def frame_payload_def isKeyRegistrationFrame_def)
  have "transportable (signal ServerSync 0)" "body_length (signal ServerSync 0) \<le> 1048576"
    by (simp_all add: body_length_def frame_payload_def isKeyRegistrationFrame_def)
  then show "list_all (\<lambda>f. transportable f \<and> body_length f \<le> 1048576) (buildKeyFrames fs @ [signal ServerSync 0])"
    using key by (fastforce simp: list_all_iff buildKeyFrames_def)
  have val: "transportable f \<and> body_length f \<le> 1048576"
    if "(key, e) \<in> set (fs_entries fs)" "f = mk_frame ServerValue (fe_keyId e) (fe_type e) (fe_value e)" for key e f
    using entry_sendable(1,2) [OF assms that(1)]
      transportable_value [of "detectDataType (fe_value e)" "fe_value e" ServerValue "fe_keyId e", OF _ dt] unfolding that(2)
    by (simp add: good_op_def body_length_def frame_payload_def isKeyRegistrationFrame_def)
  then show "list_all (\<lambda>f. transportable f \<and> body_length f \<le> 1048576) (buildValueFrames fs)"
    by (fastforce simp: list_all_iff buildValueFrames_def)
qed

text \<open>
  What a mirror knows already (of an earlier connection, say) agrees with what it will be told: an id or
  a path of the store is either known for the same key, or not at all. What is told lies over it.
\<close>

definition fits_in :: "mirror \<Rightarrow> string \<Rightarrow> u32 \<Rightarrow> bool" where
  "fits_in m key k \<longleftrightarrow> (\<exists>t. mi_keys m k = Some (key, t)) \<or> mi_keys m k = None \<and> (\<forall>k' t. mi_keys m k' \<noteq> Some (key, t))"

definition compatible :: "mirror \<Rightarrow> flat_state \<Rightarrow> bool" where
  "compatible m fs \<longleftrightarrow> (\<forall>key e. map_of (fs_entries fs) key = Some e \<longrightarrow> fits_in m key (fe_keyId e))"

definition overlay :: "mirror \<Rightarrow> mirror \<Rightarrow> mirror" where
  "overlay m m' = \<lparr>mi_keys = mi_keys m ++ mi_keys m', mi_vals = mi_vals m ++ mi_vals m'\<rparr>"

lemma nothing_known [simp]: "compatible empty_mirror fs" "overlay empty_mirror m = m"
  by (simp_all add: compatible_def fits_in_def overlay_def) (simp_all add: empty_mirror_def map_add_def)

lemma acceptable_keys:
  assumes "distinct (map fst es)" "distinct (map (fe_keyId \<circ> snd) es)"
    "\<forall>(key, e) \<in> set es. check_key_path key = Inr () \<and> fits_in m key (fe_keyId e)"
  shows "acceptable_all m (map (\<lambda>(key, e). mk_frame ServerKeyRegistration (fe_keyId e) (fe_type e) (PString key)) es)"
  using assms
proof (induction es arbitrary: m)
  case (Cons x es)
  obtain key e where x: "x = (key, e)" by (cases x)
  let ?m = "m\<lparr>mi_keys := (mi_keys m)(fe_keyId e \<mapsto> (key, fe_type e))\<rparr>"
  have "fits_in ?m key' (fe_keyId e')" if "(key', e') \<in> set es" for key' e'
  proof -
    have "key' \<noteq> key" "fe_keyId e' \<noteq> fe_keyId e" using Cons.prems(1,2) that by (auto simp: x image_iff)
    then show ?thesis using Cons.prems(3) that by (auto simp: fits_in_def)
  qed
  then have "acceptable_all ?m (map (\<lambda>(key, e). mk_frame ServerKeyRegistration (fe_keyId e) (fe_type e) (PString key)) es)"
    using Cons.prems by (intro Cons.IH) auto
  then show ?case using Cons.prems(3) by (auto simp: x acceptable_def fits_in_def mk_frame_def mirror_frame_def)
qed simp


lemma acceptable_values:
  "\<forall>(key, e) \<in> set es. mi_keys m (fe_keyId e) \<noteq> None \<Longrightarrow>
   acceptable_all m (map (\<lambda>(key, e). mk_frame ServerValue (fe_keyId e) (fe_type e) (fe_value e)) es)"
proof (induction es arbitrary: m)
  case (Cons x es)
  then show ?case by (cases x) (auto simp: acceptable_def mirror_frame_def mk_frame_def)
qed simp

lemma keys_told:
  assumes "fs_wf fs nxt"
  shows "foldl mirror_frame m (buildKeyFrames fs @ [signal ServerSync 0]) = m\<lparr>mi_keys := mi_keys m ++ mi_keys (view fs)\<rparr>"
proof -
  have "map_of (rev (map (\<lambda>(key, e). (fe_keyId e, (fs_wirePath fs key, fe_type e))) (fs_entries fs))) = mi_keys (view fs)"
    using map_of_by_id [OF assms, of "\<lambda>key e. (fs_wirePath fs key, fe_type e)"] by (simp add: view_def fun_eq_iff)
  then show ?thesis by (simp add: buildKeyFrames_def mirror_keys_fold)
qed

lemma has_key: "key \<in> set (fs_keys fs) \<longleftrightarrow> (\<exists>e. map_of (fs_entries fs) key = Some e)"
  by (auto simp: fs_keys_def um_dom [symmetric] dom_def)

lemma sync_accepted:
  assumes "fs_wf fs nxt" "sendable fs" "compatible m fs"
  shows "acceptable_all m (buildKeyFrames fs @ [signal ServerSync 0])"
    "registrations (buildKeyFrames fs @ [signal ServerSync 0]) = length (fs_entries fs)"
    "acceptable_all (foldl mirror_frame m (buildKeyFrames fs @ [signal ServerSync 0])) (buildValueFrames fs)"
    "registrations (buildValueFrames fs) = 0"
    "foldl mirror_frame (foldl mirror_frame m (buildKeyFrames fs @ [signal ServerSync 0])) (buildValueFrames fs) = overlay m (view fs)"
proof -
  have path: "fs_wirePath fs key = key" for key using assms(2) by (simp add: sendable_def fs_wirePath_def)
  have "distinct (map fst (fs_entries fs))" using assms(1) by (simp add: fs_wf_def um_wf_def)
  moreover have "distinct (map (fe_keyId \<circ> snd) (fs_entries fs))"
    using fs_wf_distinct_ids [OF assms(1)] by (simp add: comp_def case_prod_unfold)
  moreover have "check_key_path key = Inr ()" if "(key, e) \<in> set (fs_entries fs)" for key e
    using entry_sendable(1) [OF assms(2,1) that] by (simp add: good_op_def good_key_def)
  moreover have "fits_in m key (fe_keyId e)" if "(key, e) \<in> set (fs_entries fs)" for key e
    using assms(1,3) that by (auto simp: compatible_def fs_wf_def um_lookup_iff)
  ultimately have "acceptable_all m (buildKeyFrames fs)"
    unfolding buildKeyFrames_def path by (intro acceptable_keys) auto
  then show "acceptable_all m (buildKeyFrames fs @ [signal ServerSync 0])"
    by (simp add: acceptable_append acceptable_def mk_frame_def)
  show "registrations (buildKeyFrames fs @ [signal ServerSync 0]) = length (fs_entries fs)"
    "registrations (buildValueFrames fs) = 0"
    by (auto simp: registrations_def buildKeyFrames_def buildValueFrames_def mk_frame_def filter_map comp_def split_beta)
  let ?m = "m\<lparr>mi_keys := mi_keys m ++ mi_keys (view fs)\<rparr>"
  have "mi_keys (view fs) (fe_keyId e) \<noteq> None" if "(key, e) \<in> set (fs_entries fs)" for key e
    using fs_wf_entry(1) [OF assms(1)] um_lookup_iff [of "fs_entries fs" key e] assms(1) that by (auto simp: view_def fs_wf_def)
  then have told: "\<forall>(key, e) \<in> set (fs_entries fs). mi_keys ?m (fe_keyId e) \<noteq> None" by auto
  then show "acceptable_all (foldl mirror_frame m (buildKeyFrames fs @ [signal ServerSync 0])) (buildValueFrames fs)"
    unfolding keys_told [OF assms(1)] buildValueFrames_def by (rule acceptable_values)
  have "map_of (rev (map (\<lambda>(key, e). (fe_keyId e, fe_value e)) (fs_entries fs))) = mi_vals (view fs)"
    using map_of_by_id [OF assms(1), of "\<lambda>key e. fe_value e"]
    by (auto simp: view_def fun_eq_iff fs_getByKeyId_def split: option.split)
  then show "foldl mirror_frame (foldl mirror_frame m (buildKeyFrames fs @ [signal ServerSync 0])) (buildValueFrames fs) = overlay m (view fs)"
    unfolding keys_told [OF assms(1)] buildValueFrames_def mirror_vals_fold [OF told] by (simp add: overlay_def)
qed


section \<open>The client's end\<close>

definition client_sends :: "client_out list \<Rightarrow> bytes" where
  "client_sends out = concat (map (\<lambda>ev. case ev of Out_Send data \<Rightarrow> data | _ \<Rightarrow> []) out)"

lemma sends_simps [simp]:
  "client_sends [] = []" "client_sends (Out_Send data # out) = data @ client_sends out" "client_sends (out @ out') = client_sends out @ client_sends out'"
  "client_sends (Out_Ready # out) = client_sends out"
  by (simp_all add: client_sends_def)

text \<open>A client that is waiting to be synchronised, on an open socket.\<close>

definition waiting :: "client \<Rightarrow> bool" where
  "waiting c \<longleftrightarrow> ws_open c \<and> cl_state c \<noteq> CS_Ready"

lemma waiting_leave: "waiting c \<Longrightarrow> waiting (leave_identifying c)"
  by (simp add: waiting_def leave_identifying_def ws_open_def)

lemma registration_is_quiet:
  assumes "waiting c" "cl_pendingValues c = []" "frameType f = ServerKeyRegistration" "handleFrame who f c = fine c' out"
  shows "waiting c' \<and> out = []"
proof -
  have "cl_pendingValues (leave_identifying c) = []" using assms(2) by (simp add: leave_identifying_def)
  then show ?thesis
    using assms(3,4) waiting_leave [OF assms(1)]
    by (auto simp: handleFrame_def on_ServerKeyRegistration_def run_res_def Let_def fine_def waiting_def ws_open_def
        split: payload.splits sum.splits)
qed

lemma sync_asks_for_values:
  assumes "waiting c" "calm c" "encode (signal ClientReady 0) = Inr ready"
    "handleFrame who (signal ServerSync 0) c = fine c' out"
  shows "client_sends out = ready \<and> ws_open c'"
proof -
  have "ws_open (leave_identifying c)" "cl_state (leave_identifying c) \<noteq> CS_Ready"
    using waiting_leave [OF assms(1)] by (simp_all add: waiting_def)
  moreover have "\<not> rc_active (cl_reconnect (leave_identifying c))" "cl_subscriptions (leave_identifying c) = []"
    using assms(2) by (simp_all add: calm_def leave_identifying_def)
  ultimately show ?thesis
    using assms(3,4)
    by (auto simp: handleFrame_def on_ServerSync_def mk_frame_def sendFrame_def sendRaw_def become_ready_def Let_def ws_open_def split: if_splits)
qed

lemma keys_are_quiet:
  assumes "list_all (\<lambda>f. frameType f = ServerKeyRegistration) fs" "waiting c" "calm c" "acceptable_all (cl_mirror c) (fs @ gs)"
    "kr_size (cl_registry c) + registrations fs \<le> 10000"
  shows "\<exists>c'. for_each (handleFrame who) fs c = fine c' [] \<and> waiting c' \<and> calm c'
    \<and> acceptable_all (cl_mirror c') gs \<and> kr_size (cl_registry c') \<le> kr_size (cl_registry c) + registrations fs
    \<and> cl_mirror c' = foldl mirror_frame (cl_mirror c) fs"
  using assms
proof (induction fs arbitrary: c)
  case (Cons f fs)
  obtain c1 out1 where 1: "handleFrame who f c = fine c1 out1" "calm c1" "cl_mirror c1 = mirror_frame (cl_mirror c) f"
    "kr_size (cl_registry c1) \<le> kr_size (cl_registry c) + registrations [f]"
    using follow_frame [of c f who] Cons.prems by (auto simp: calm_following)
  moreover have "waiting c1 \<and> out1 = []"
    using registration_is_quiet [OF Cons.prems(2) _ _ 1(1)] Cons.prems(1,3) by (simp add: calm_def)
  moreover obtain c2 where "for_each (handleFrame who) fs c1 = fine c2 []" "waiting c2" "calm c2"
    "acceptable_all (cl_mirror c2) gs" "kr_size (cl_registry c2) \<le> kr_size (cl_registry c1) + registrations fs"
    "cl_mirror c2 = foldl mirror_frame (cl_mirror c1) fs"
    using Cons.IH [of c1] Cons.prems calculation by auto
  ultimately show ?case by auto
qed simp

lemma frames_as_events:
  assumes "for_each (handleFrame who) fs c = fine c' out"
  shows "for_each (on_event who now) (map EvFrame fs) c = fine c' out"
  using assms
proof (induction fs arbitrary: c out)
  case (Cons f fs)
  then show ?case by (auto elim!: and_then_fine)
qed simp

text \<open>What a server sends first: the acceptance, where it authorizes, then the keys.\<close>

definition greeting :: "bool \<Rightarrow> flat_state \<Rightarrow> frame list" where
  "greeting authorized fs = (if authorized then [signal AuthOk 0] else []) @ buildKeyFrames fs @ [signal ServerSync 0]"

lemma greeting_travels:
  assumes "sendable fs" "fs_wf fs nxt"
  shows "list_all (\<lambda>f. transportable f \<and> body_length f \<le> 1048576) (greeting auth fs)"
  using sendable_frames(1) [OF assms]
  by (simp add: greeting_def) (simp add: body_length_def frame_payload_def isKeyRegistrationFrame_def)

lemma acceptance_is_quiet:
  assumes "waiting c" "calm c"
  obtains c' where "for_each (handleFrame who) (if auth then [signal AuthOk 0] else []) c = fine c' []"
    "waiting c'" "calm c'" "cl_mirror c' = cl_mirror c" "cl_registry c' = cl_registry c"
proof (cases auth)
  case True
  let ?c = "c\<lparr>cl_state := CS_Synchronizing\<rparr>"
  have "for_each (handleFrame who) [signal AuthOk 0] c = fine ?c []"
    by (simp add: handleFrame_def for_each_one del: for_each.simps)
  moreover have "waiting ?c" "calm ?c" "cl_mirror ?c = cl_mirror c"
    using assms calm_cong [of ?c c] cl_mirror_cong [of ?c c] by (simp_all add: waiting_def ws_open_def)
  ultimately show ?thesis using True that [of ?c] by simp
qed (use assms that [of c] in simp)

lemma client_asks:
  assumes "waiting c" "calm c" "compatible (cl_mirror c) fs" "kr_size (cl_registry c) + length (fs_entries fs) \<le> 10000"
    and "fs_wf fs nxt" "sendable fs" "encode (signal ClientReady 0) = Inr ready"
  shows "\<exists>c' out. for_each (handleFrame who) (greeting auth fs) c = fine c' out
    \<and> client_sends out = ready \<and> calm c' \<and> ws_open c' \<and> kr_size (cl_registry c') \<le> kr_size (cl_registry c) + length (fs_entries fs)
    \<and> cl_mirror c' = foldl mirror_frame (cl_mirror c) (buildKeyFrames fs @ [signal ServerSync 0])"
proof -
  have reg: "list_all (\<lambda>f. frameType f = ServerKeyRegistration) (buildKeyFrames fs)"
    using buildKeyFrames_types by (auto simp: list_all_iff)
  obtain c0 where 0: "for_each (handleFrame who) (if auth then [signal AuthOk 0] else []) c = fine c0 []"
    "waiting c0" "calm c0" "cl_mirror c0 = cl_mirror c" "cl_registry c0 = cl_registry c"
    using acceptance_is_quiet [OF assms(1,2), of who auth] by metis
  have "compatible (cl_mirror c0) fs" by (simp only: 0(4) assms(3))
  note acc = sync_accepted(1,2) [OF assms(5,6) this]
  have size: "registrations (buildKeyFrames fs) = length (fs_entries fs)" using acc(2) by (simp add: mk_frame_def)
  obtain c1 where 1: "for_each (handleFrame who) (buildKeyFrames fs) c0 = fine c1 []" "waiting c1" "calm c1"
    "kr_size (cl_registry c1) \<le> kr_size (cl_registry c) + length (fs_entries fs)"
    "cl_mirror c1 = foldl mirror_frame (cl_mirror c0) (buildKeyFrames fs)"
    using keys_are_quiet [OF reg 0(2,3) acc(1), of who] 0(5) assms(4) size by auto
  obtain c2 out where 2: "handleFrame who (signal ServerSync 0) c1 = fine c2 out" "calm c2" "cl_mirror c2 = cl_mirror c1"
    "cl_registry c2 = cl_registry c1"
    using follow_sync [of c1 0 DT_Null PNull who] 1(3) unfolding calm_following by metis
  have "for_each (handleFrame who) (greeting auth fs) c = fine c2 out"
    unfolding greeting_def for_each_append 0(1) using 1(1) 2(1) by (simp add: for_each_append)
  then show ?thesis using sync_asks_for_values [OF 1(2,3) assms(7) 2(1)] 2(2-4) 1(4,5) 0(4) by auto
qed

lemma frames_parsed:
  assumes "list_all (\<lambda>f. transportable f \<and> body_length f \<le> 1048576) fs" "encodeBatch fs = Inr bs" "concat chunks = bs"
  shows "feed_chunks default_parser chunks = (default_parser, map EvFrame fs)"
proof -
  have "wire_image [(fs, False)] = Inr bs" using assms(2) by simp
  then show ?thesis
    unfolding feed_chunks_concat default_parser_def assms(3)
    using feed_wire_image [of "new_parser 1048576" "[(fs, False)]" bs] assms(1) by (simp add: new_parser_def)
qed

lemma frames_handled:
  assumes "list_all (\<lambda>f. transportable f \<and> body_length f \<le> 1048576) fs" "encodeBatch fs = Inr bs" "concat chunks = bs"
    "for_each (handleFrame who) fs c = fine c' out"
  shows "for_each (on_message who now) chunks (default_parser, c) = fine (default_parser, c') out"
  using on_messages [OF frames_parsed [OF assms(1-3)] frames_as_events [OF assms(4)]] by blast

lemma client_asks_for_values:
  assumes "waiting c" "calm c" "compatible (cl_mirror c) fs" "kr_size (cl_registry c) + length (fs_entries fs) \<le> 10000"
    and "fs_wf fs nxt" "sendable fs" "encode (signal ClientReady 0) = Inr ready"
    and "encodeBatch (greeting auth fs) = Inr bs" "concat chunks = bs"
  shows "\<exists>c' out. for_each (on_message who now) chunks (default_parser, c) = fine (default_parser, c') out
    \<and> client_sends out = ready \<and> calm c' \<and> ws_open c' \<and> kr_size (cl_registry c') \<le> kr_size (cl_registry c) + length (fs_entries fs)
    \<and> cl_mirror c' = foldl mirror_frame (cl_mirror c) (buildKeyFrames fs @ [signal ServerSync 0])"
  using client_asks [OF assms(1-7), of who auth] frames_handled [OF greeting_travels [OF assms(6,5)] assms(8,9)] by metis


section \<open>Joining\<close>

text \<open>From the moment the keys have been sent.\<close>

lemma synchronises:
  assumes "joining sv w uuid p pt" and "pt_flatState pt = fs" and "fs_wf fs (pt_nextKeyId pt)" and "sendable fs"
    and "length (fs_entries fs) \<le> 10000" and "encodeBatch (greeting auth fs) = Inr bs"
    and "waiting c" and "calm c" and "cl_mirror c = empty_mirror" and "kr_size (cl_registry c) = 0"
    and "\<forall>bs. concat (chop bs) = bs"
  shows "\<exists>c1 o1 sv2 out2 c2 o2.
      for_each (on_message who t3) (chop bs) (default_parser, c) = fine (default_parser, c1) o1
    \<and> server_step env t4 (SI_Message w (client_sends o1)) sv = fine sv2 out2
    \<and> for_each (on_message who t5) (chop (bytes_to w out2)) (default_parser, c1) = fine (default_parser, c2) o2
    \<and> offers sv2 p \<and> served sv2 p pt w \<and> caught_up c2 pt \<and> sv_mode sv2 = sv_mode sv
    \<and> kr_size (cl_registry c2) \<le> length (fs_entries fs)"
proof -
  let ?K = "buildKeyFrames fs @ [signal ServerSync 0]"
  have "list_all transportable (buildValueFrames fs)"
    using sendable_frames(2) [OF assms(4,3)] by (simp add: list_all_iff)
  then obtain b2 ready where b: "encodeBatch (buildValueFrames fs) = Inr b2" "encode (signal ClientReady 0) = Inr ready"
    using encodeBatch_defined encode_signal_defined [of ClientReady 0] by fastforce
  have known: "compatible (cl_mirror c) fs" "kr_size (cl_registry c) + length (fs_entries fs) \<le> 10000" using assms(5,9,10) by simp_all
  note acc = sync_accepted [OF assms(3,4) known(1)]
  obtain c1 o1 where c1: "for_each (on_message who t3) (chop bs) (default_parser, c) = fine (default_parser, c1) o1"
    "client_sends o1 = ready" "calm c1" "kr_size (cl_registry c1) \<le> length (fs_entries fs)"
    "cl_mirror c1 = foldl mirror_frame (cl_mirror c) ?K"
    using client_asks_for_values [OF assms(7,8) known assms(3,4) b(2) assms(6), of "chop bs" who t3] assms(10,11) by auto
  obtain sv2 out2 where s2: "server_step env t4 (SI_Message w ready) sv = fine sv2 out2" "bytes_to w out2 = b2"
    "served sv2 p pt w" "offers sv2 p" "sv_mode sv2 = sv_mode sv"
    using server_readies [OF assms(1) b(2), of b2 env t4] b(1) assms(2) by auto
  have "acceptable_all (cl_mirror c1) (buildValueFrames fs)" unfolding c1(5) by (rule acc(3))
  moreover have "kr_size (cl_registry c1) + registrations (buildValueFrames fs) \<le> 10000" using c1(4) assms(5) acc(4) by simp
  ultimately obtain c2 o2 where c2: "for_each (on_message who t5) (chop b2) (default_parser, c1) = fine (default_parser, c2) o2"
    "calm c2" "cl_mirror c2 = view fs" "kr_size (cl_registry c2) \<le> kr_size (cl_registry c1)"
    using frames_keep_up [OF c1(3) _ _ sendable_frames(2) [OF assms(4,3)] b(1), of "chop b2" who t5] assms(11) acc(4,5) c1(5) assms(9)
    by auto
  have "caught_up c2 pt" using c2 assms(2,3) sendable_good [OF assms(4)] by (simp add: caught_up_def)
  moreover have "kr_size (cl_registry c2) \<le> length (fs_entries fs)" using c1(4) c2(4) by simp
  ultimately show ?thesis using s2 c1(1,2) c2(1) by blast
qed

lemma joins:
  assumes "welcoming sv" and "env_onConnection env = []" and "length me = 16" and "encode (identification me) = Inr hello"
    and "map_of (sv_sessions sv) (bytesToUuid (me @ [3, 5])) = None"
    and "\<forall>i \<in> set (index_of sv (default_principal sv)). i \<noteq> sv_next sv \<and> in_flushTo (sv_internals sv i) \<noteq> w"
    and "snd (pm_principal (sv_principals sv) (default_principal sv)) = pt" and "pt_wf pt" and "pt_fresh pt"
    and "sendable (pt_flatState pt)" and "length (pt_keys pt) \<le> 10000"
    and "waiting c" and "calm c" and "cl_mirror c = empty_mirror" and "kr_size (cl_registry c) = 0"
    and "\<forall>bs. concat (chop bs) = bs"
  shows "\<exists>sv1 out1 c1 o1 sv2 out2 c2 o2 pt2.
      server_run env [(t1, SI_Connect w), (t2, SI_Message w hello)] sv = fine sv1 out1
    \<and> for_each (on_message who t3) (chop (bytes_to w out1)) (default_parser, c) = fine (default_parser, c1) o1
    \<and> server_step env t4 (SI_Message w (client_sends o1)) sv1 = fine sv2 out2
    \<and> for_each (on_message who t5) (chop (bytes_to w out2)) (default_parser, c1) = fine (default_parser, c2) o2
    \<and> offers sv2 (default_principal sv) \<and> served sv2 (default_principal sv) pt2 w \<and> caught_up c2 pt2
    \<and> sv_mode sv2 = sv_mode sv
    \<and> pt_flatState pt2 = pt_flatState pt \<and> pt_nextKeyId pt2 = pt_nextKeyId pt
    \<and> kr_size (cl_registry c2) \<le> length (pt_keys pt)"
proof -
  let ?p = "default_principal sv" and ?fs = "pt_flatState pt" and ?pt2 = "snd (pt_buildKeyFrames pt)"
  have wf: "fs_wf ?fs (pt_nextKeyId pt)" using assms(8) by (simp add: pt_wf_def)
  have len: "length (fs_entries ?fs) \<le> 10000" using assms(11) by (simp add: pt_keys_def fs_keys_def)
  have pt2: "pt_flatState ?pt2 = ?fs" "pt_nextKeyId ?pt2 = pt_nextKeyId pt"
    by (simp_all add: pt_buildKeyFrames_def Let_def)
  have "list_all transportable (greeting False ?fs)"
    using greeting_travels [OF assms(10) wf] by (simp add: list_all_iff)
  then obtain b1 where b: "encodeBatch (greeting False ?fs) = Inr b1" using encodeBatch_defined by blast
  then have "encodeBatch (fst (pt_buildKeyFrames pt)) = Inr b1" "fst (pt_buildKeyFrames pt) \<noteq> []"
    using pt_fresh_build(1) [OF assms(9)] by (simp_all add: greeting_def)
  then obtain sv1 out1 where s1: "server_run env [(t1, SI_Connect w), (t2, SI_Message w hello)] sv = fine sv1 out1"
    "bytes_to w out1 = b1" "sv_mode sv1 = sv_mode sv" "joining sv1 w (bytesToUuid (me @ [3, 5])) ?p ?pt2"
    using server_admits [OF assms(1-7), of b1] by blast
  from synchronises [OF s1(4) pt2(1) _ assms(10) len b assms(12-16)] wf s1 pt2 show ?thesis
    by (simp add: pt_keys_def fs_keys_def) blast
qed

text \<open>What a new client says when its socket has opened.\<close>

lemma sends_other [simp]: "client_sends (Out_WsConnect u # out) = client_sends out" "client_sends (Out_Connect # out) = client_sends out"
  by (simp_all add: client_sends_def)

lemma client_opens:
  assumes "length me = 16"
  shows "\<exists>c out. client_run [(t, j, In_Connect Connect_Returns), (t', j', In_Open)] (new_whole_client (format_uuid me) url opt)
      = fine (default_parser, c) out
    \<and> encode (identification me) = Inr (client_sends out)
    \<and> waiting c \<and> calm c \<and> cl_mirror c = empty_mirror \<and> kr_size (cl_registry c) = 0"
proof -
  let ?c = "new_client (format_uuid me) url opt"
  obtain hello where hello: "encode (identification me) = Inr hello"
    using identification_facts(1) [OF assms] transportable_encode by blast
  obtain hb where hb: "hb_start False t' new_heartbeat = Inr hb"
    by (simp add: hb_start_def hb_stop_def new_heartbeat_def assign_thread_def joinable_def)
  let ?c' = "?c\<lparr>cl_state := CS_Identifying, cl_ws := Some True, cl_heartbeat := hb\<rparr>"
  have "client_run [(t, j, In_Connect Connect_Returns), (t', j', In_Open)] (new_whole_client (format_uuid me) url opt)
      = fine (default_parser, ?c') [Out_WsConnect url, Out_Send hello, Out_Connect]"
    using hb hello identify_payload_uuid [OF assms]
    by (simp add: new_whole_client_def client_step_def connect_def handleOpen_def keep_parser_def run_res_def identification_def sendFrame_def sendRaw_def ws_open_def fine_def new_client_def and_then_def)
  moreover have "calm ?c'" using calm_cong [of ?c' ?c] by simp
  moreover have "cl_mirror ?c' = empty_mirror" using cl_mirror_cong [of ?c' ?c] by (simp add: mirror_new)
  moreover have "waiting ?c'" "kr_size (cl_registry ?c') = 0"
    by (simp_all add: waiting_def ws_open_def new_client_def new_registry_def kr_size_def)
  ultimately show ?thesis using hello by (intro exI [of _ ?c'] exI [of _ "[Out_WsConnect url, Out_Send hello, Out_Connect]"]) simp
qed

section \<open>Properties\<close>

text \<open>C5. What the server's user sets and clears through the server, in broadcast mode or on a principal,
  reaches every client that is ready and up to date: no call throws, and when the bytes that the
  calls send to the client's connection arrive, cut into any messages, the client handles all of
  them without an exception, is up to date again, and reads for every key what the server holds.\<close>

theorem ready_client_follows_server:
  assumes "served sv p pt w" and "offers sv p" and "caught_up c pt"
    and "unat (pt_nextKeyId pt) + length ops < 2 ^ 32" and "kr_size (cl_registry c) + length ops \<le> 10000"
    and "list_all (good_op 1048576) ops"
  shows "\<exists>sv' out pt'. server_run env (map (\<lambda>op. (now, op_input (sv_mode sv) p op)) ops) sv = fine sv' out
    \<and> served sv' p pt' w \<and> fst (foldl fs_step (pt_flatState pt, pt_nextKeyId pt, []) ops) = pt_flatState pt'
    \<and> (\<forall>chunks who t. concat chunks = bytes_to w out \<longrightarrow>
         (\<exists>c' out'. for_each (on_message who t) chunks (default_parser, c) = fine (default_parser, c') out'
            \<and> caught_up c' pt' \<and> (\<forall>key. cl_get c' key = pt_get pt' key) \<and> set (cl_keys c') = set (pt_keys pt')))"
proof -
  obtain fs nxt out where run: "foldl fs_step (pt_flatState pt, pt_nextKeyId pt, []) ops = (fs, nxt, out)"
    by (metis prod_cases3)
  note c = assms(3) [unfolded caught_up_def]
  have m: "mirror_out (cl_mirror c) [] = view (pt_flatState pt)" "acceptable_all (cl_mirror c) (frames_of [])"
    using c by simp_all
  have good: "acceptable_all (cl_mirror c) (frames_of out)" "registrations (frames_of out) \<le> length ops"
    "list_all (\<lambda>f. transportable f \<and> body_length f \<le> 1048576) (frames_of out)" "good_store fs"
    using good_ops_run [OF _ _ assms(4,6) m(2,1) _ _ run] c by auto
  have wf: "fs_wf fs nxt" "foldl mirror_frame (cl_mirror c) (frames_of out) = view fs"
    using fs_run [OF _ assms(4) m(1) run] c by (simp_all add: mirror_frames_of)
  let ?pt = "pt\<lparr>pt_flatState := fs, pt_nextKeyId := nxt\<rparr>"
  have tr: "list_all transportable (frames_of out)" using good(3) by (simp add: list_all_iff)
  obtain bs where bs: "encodeBatch (frames_of out) = Inr bs"
    using encodeBatch_defined [OF tr] by blast
  obtain sv' o' where sv': "server_run env (map (\<lambda>op. (now, op_input (sv_mode sv) p op)) ops) sv = fine sv' o'"
    "bytes_to w o' = bs" "served sv' p ?pt w"
    using served_run [OF assms(1,2) run tr bs] by blast
  have "\<exists>c' out'. for_each (on_message who t) chunks (default_parser, c) = fine (default_parser, c') out'
      \<and> caught_up c' ?pt \<and> (\<forall>key. cl_get c' key = pt_get ?pt key) \<and> set (cl_keys c') = set (pt_keys ?pt)"
    if bytes: "concat chunks = bytes_to w o'" for chunks who t
  proof -
    have "kr_size (cl_registry c) + registrations (frames_of out) \<le> 10000" using good(2) assms(5) by simp
    then obtain c' out' where c': "for_each (on_message who t) chunks (default_parser, c) = fine (default_parser, c') out'"
      "calm c'" "cl_mirror c' = view fs"
      using frames_keep_up [OF _ good(1) _ good(3) bs, of chunks who t] c wf(2) bytes sv'(2) by auto
    then have "caught_up c' ?pt" using wf(1) good(4) by (simp add: caught_up_def)
    then show ?thesis using c'(1) caught_up_reads by blast
  qed
  moreover have "fst (foldl fs_step (pt_flatState pt, pt_nextKeyId pt, []) ops) = pt_flatState ?pt" by (simp add: run)
  ultimately show ?thesis using sv' by blast
qed

text \<open>A broadcast server whose user has set a key, without clients.\<close>

definition stocked_server :: server where
  "stocked_server = fst (server_step plain_env 0 (SI_Set ''a'' (PBool True)) (configured Broadcast False 0))"

definition stocked_principal :: principal_tx where
  "stocked_principal = fst (pt_set (new_principal_tx BROADCAST_PRINCIPAL) ''a'' (PBool True))"

lemma stocked_facts:
  "welcoming stocked_server" "sv_sessions stocked_server = []" "index_of stocked_server p = []"
  "default_principal stocked_server = BROADCAST_PRINCIPAL"
  "snd (pm_principal (sv_principals stocked_server) BROADCAST_PRINCIPAL) = stocked_principal"
  "pt_wf stocked_principal" "pt_fresh stocked_principal" "sendable (pt_flatState stocked_principal)"
  "length (pt_keys stocked_principal) = 1" "pt_get stocked_principal ''a'' = PBool True" "pt_nextKeyId stocked_principal = 2"
  "sv_mode stocked_server = Broadcast"
proof -
  show "welcoming stocked_server" "sv_sessions stocked_server = []" "sv_mode stocked_server = Broadcast"
    "default_principal stocked_server = BROADCAST_PRINCIPAL"
    "snd (pm_principal (sv_principals stocked_server) BROADCAST_PRINCIPAL) = stocked_principal" by code_simp+
  have "sv_principalIndex stocked_server = []" by code_simp
  then show "index_of stocked_server p = []" by (simp add: index_of_def)
  show "pt_wf stocked_principal" unfolding stocked_principal_def
    by (rule pt_wf_set [OF pt_wf_new]) (simp add: new_principal_tx_def)
  show "pt_fresh stocked_principal" unfolding stocked_principal_def
    by (rule pt_set_flat [of "new_principal_tx BROADCAST_PRINCIPAL" "''a''" "PBool True"])
       (simp add: pt_fresh_def new_principal_tx_def)
  have key: "good_key ''a''" by code_simp
  then have op: "good_op 1048576 (Set_Key ''a'' (PBool True))"
    using faithful_detected [of "PBool True"]
    by (simp add: good_op_def body_length_def frame_payload_def isKeyRegistrationFrame_def)
  show "sendable (pt_flatState stocked_principal)"
    using sendable_set [OF sendable_new op] unfolding stocked_principal_def
    by (rule pt_set_flat [of "new_principal_tx BROADCAST_PRINCIPAL" "''a''" "PBool True"])
       (simp add: new_principal_tx_def)
  show "length (pt_keys stocked_principal) = 1" "pt_get stocked_principal ''a'' = PBool True" "pt_nextKeyId stocked_principal = 2"
    by code_simp+
qed

text \<open>A further key for it.\<close>

lemma good_set_b: "good_op 1048576 (Set_Key ''b'' (PInt32 7))"
proof -
  have "good_key ''b''" by code_simp
  then show ?thesis
    using faithful_detected [of "PInt32 7"]
    by (simp add: good_op_def body_length_def frame_payload_def isKeyRegistrationFrame_def serializeVarInteger_def
        order_trans [OF encodeVarInt_length(2)])
qed

text \<open>A client that has joined this server.\<close>

lemma joined_client:
  "\<exists>sv c pt. served sv BROADCAST_PRINCIPAL pt 1 \<and> offers sv BROADCAST_PRINCIPAL \<and> sv_mode sv = Broadcast \<and> caught_up c pt
     \<and> pt_flatState pt = pt_flatState stocked_principal \<and> pt_nextKeyId pt = 2 \<and> kr_size (cl_registry c) \<le> 1"
proof -
  have len: "length (replicate 16 (1 :: byte)) = 16" by simp
  have cut: "\<forall>bs :: bytes. concat [bs] = bs" by simp
  obtain c0 o0 where c0: "encode (identification (replicate 16 1)) = Inr (client_sends o0)"
    "waiting c0" "calm c0" "cl_mirror c0 = empty_mirror" "kr_size (cl_registry c0) = 0"
    using client_opens [OF len] by blast
  have env: "env_onConnection plain_env = []" by (simp add: plain_env_def)
  obtain sv c pt where j: "offers sv BROADCAST_PRINCIPAL" "served sv BROADCAST_PRINCIPAL pt 1" "caught_up c pt"
    "pt_flatState pt = pt_flatState stocked_principal" "pt_nextKeyId pt = pt_nextKeyId stocked_principal"
    "kr_size (cl_registry c) \<le> length (pt_keys stocked_principal)" "sv_mode sv = Broadcast"
    using joins [OF stocked_facts(1) env len c0(1) _ _ _ stocked_facts(6-8) _ c0(2-5) cut, of 1 0 0 Io_Thread 0 0 0] stocked_facts(2-5,9,12)
    by auto
  then show ?thesis using stocked_facts(9,11) by auto
qed

theorem ready_client_follows_server_witness:
  "\<exists>sv c pt sv' out c' out'. served sv BROADCAST_PRINCIPAL pt 1 \<and> caught_up c pt
     \<and> server_run plain_env [(5, SI_Set ''b'' (PInt32 7)), (5, SI_Clear ''a'')] sv = fine sv' out
     \<and> for_each (on_message Io_Thread 6) [bytes_to 1 out] (default_parser, c) = fine (default_parser, c') out'
     \<and> cl_get c' ''b'' = PInt32 7 \<and> cl_get c' ''a'' = PNull"
proof -
  let ?ops = "[Set_Key ''b'' (PInt32 7), Clear_Key ''a'']"
  obtain sv c pt where j: "served sv BROADCAST_PRINCIPAL pt 1" "offers sv BROADCAST_PRINCIPAL" "sv_mode sv = Broadcast" "caught_up c pt"
    "pt_flatState pt = pt_flatState stocked_principal" "pt_nextKeyId pt = 2" "kr_size (cl_registry c) \<le> 1"
    using joined_client by blast
  have good: "list_all (good_op 1048576) ?ops" using good_set_b by (simp add: good_op_def)
  have ops: "map (\<lambda>op. (5, op_input (sv_mode sv) BROADCAST_PRINCIPAL op)) ?ops = [(5, SI_Set ''b'' (PInt32 7)), (5, SI_Clear ''a'')]"
    by (simp add: op_input_def j(3))
  from ready_client_follows_server [OF j(1,2,4) _ _ good, of plain_env 5] j(6,7)
  obtain sv' out pt' where f: "server_run plain_env [(5, SI_Set ''b'' (PInt32 7)), (5, SI_Clear ''a'')] sv = fine sv' out"
    "fst (foldl fs_step (pt_flatState stocked_principal, 2, []) ?ops) = pt_flatState pt'"
    and g: "\<forall>chunks who t. concat chunks = bytes_to 1 out \<longrightarrow>
         (\<exists>c' out'. for_each (on_message who t) chunks (default_parser, c) = fine (default_parser, c') out'
            \<and> caught_up c' pt' \<and> (\<forall>key. cl_get c' key = pt_get pt' key) \<and> set (cl_keys c') = set (pt_keys pt'))"
    unfolding ops j(5,6) by auto
  have "concat [bytes_to 1 out] = bytes_to 1 out" by simp
  then obtain c' out' where h: "for_each (on_message Io_Thread 6) [bytes_to 1 out] (default_parser, c) = fine (default_parser, c') out'"
    "\<forall>key. cl_get c' key = pt_get pt' key" using g by blast
  have "fs_get (fst (foldl fs_step (pt_flatState stocked_principal, 2, []) ?ops)) ''b'' = PInt32 7"
    "fs_get (fst (foldl fs_step (pt_flatState stocked_principal, 2, []) ?ops)) ''a'' = PNull" by code_simp+
  then have "cl_get c' ''b'' = PInt32 7" "cl_get c' ''a'' = PNull" using h(2) f(2) by (simp_all add: pt_get_def)
  then show ?thesis using j(1,4) f(1) h(1) by blast
qed



end
