(* ===== verification/Joining_Auth.thy ===== *)
theory Joining_Auth
  imports Joining
begin

text \<open>
  A client joins a server with authorization: it connects and identifies itself, is held back
  without a byte of data, sends its token, and once the server's user has authorized it, the
  acceptance and the keys start the synchronisation of \<open>Joining\<close>.
\<close>

section \<open>Held back\<close>

text \<open>A server that wants authorization and limits nothing else, outside the topic modes.\<close>

definition guarding :: "server \<Rightarrow> bool" where
  "guarding sv \<longleftrightarrow> (sv_mode sv = Broadcast \<or> sv_mode sv = Principal) \<and> sv_authEnabled sv
     \<and> sv_maxConnections sv = 0 \<and> sv_maxFramesPerSec sv = 0"

text \<open>The client \<open>uuid\<close> on connection \<open>w\<close> has identified itself and waits to be authorized.\<close>

definition held_back :: "server \<Rightarrow> nat \<Rightarrow> string \<Rightarrow> nat \<Rightarrow> bool" where
  "held_back sv w uuid i \<longleftrightarrow> guarding sv
     \<and> sv_conns sv w = \<lparr>cn_open = True, cn_attached = True, cn_parser = default_parser, cn_identified = True, cn_uuid = uuid\<rparr>
     \<and> map_of (sv_tmpSessions sv) uuid = Some i \<and> in_flushTo (sv_internals sv i) = w
     \<and> in_ws (sv_internals sv i) = Some w \<and> ss_enqueueFrame (session_at sv i)
     \<and> ss_flatState (session_at sv i) = None \<and> ss_topicHandles (session_at sv i) = []"

lemma create_guarded:
  assumes "guarding sv"
  shows "\<exists>sv1. create_session env w u now sv = fine sv1 [] \<and> guarding sv1 \<and> sv_mode sv1 = sv_mode sv
    \<and> sv_conns sv1 = sv_conns sv \<and> sv_principals sv1 = sv_principals sv \<and> sv_principalIndex sv1 = sv_principalIndex sv
    \<and> sv_tmpSessions sv1 = AList.update u (sv_next sv) (sv_tmpSessions sv)
    \<and> (\<forall>j. j \<noteq> sv_next sv \<longrightarrow> sv_internals sv1 j = sv_internals sv j)
    \<and> in_flushTo (sv_internals sv1 (sv_next sv)) = w \<and> in_ws (sv_internals sv1 (sv_next sv)) = Some w
    \<and> ss_enqueueFrame (session_at sv1 (sv_next sv))
    \<and> ss_flatState (session_at sv1 (sv_next sv)) = None \<and> ss_topicHandles (session_at sv1 (sv_next sv)) = []"
proof -
  let ?i = "sv_next sv"
  let ?ss = "ss_setEnqueue (new_session u)"
  obtain hb where hb: "hb_start False now new_heartbeat = Inr hb"
    by (simp add: hb_start_def hb_stop_def new_heartbeat_def assign_thread_def joinable_def)
  let ?made = "upd_internal ?i (\<lambda>_. new_internal ?ss w now) (sv\<lparr>sv_next := ?i + 1\<rparr>)"
  let ?sv = "upd_internal ?i (\<lambda>n. n\<lparr>in_heartbeat := hb\<rparr>) ?made"
  have f: "in_heartbeat (sv_internals ?made ?i) = new_heartbeat" "sv_authEnabled ?sv = sv_authEnabled sv"
    "sv_tmpSessions ?sv = sv_tmpSessions sv"
    by (simp_all add: upd_internal_def new_internal_def)
  have "create_session env w u now sv = fine (?sv\<lparr>sv_tmpSessions := AList.update u ?i (sv_tmpSessions sv)\<rparr>) []"
    unfolding create_session_def start_hb_def Let_def f(1) hb run_res_def sum.case and_then_simps f(2,3)
    using assms by (simp add: guarding_def)
  then show ?thesis
    using assms
    by (intro exI [of _ "?sv\<lparr>sv_tmpSessions := AList.update u ?i (sv_tmpSessions sv)\<rparr>"])
      (simp add: guarding_def upd_internal_def new_internal_def session_at_def ss_setEnqueue_def new_session_def)
qed

lemma server_holds_back:
  assumes "guarding sv" "length me = 16" "encode (identification me) = Inr hello"
    and new: "map_of (sv_sessions sv) (bytesToUuid (me @ [3, 5])) = None"
  shows "\<exists>sv'. server_run env [(t, SI_Connect w), (t', SI_Message w hello)] sv = fine sv' []
    \<and> held_back sv' w (bytesToUuid (me @ [3, 5])) (sv_next sv) \<and> sv_mode sv' = sv_mode sv
    \<and> sv_principals sv' = sv_principals sv \<and> sv_principalIndex sv' = sv_principalIndex sv
    \<and> (\<forall>j. j \<noteq> sv_next sv \<longrightarrow> sv_internals sv' j = sv_internals sv j)"
proof -
  let ?u = "bytesToUuid (me @ [3, 5])" and ?i = "sv_next sv"
  have run: "server_run env [(t, SI_Connect w), (t', SI_Message w hello)] sv = catching (create_session env w ?u t' (met sv w ?u))"
    using first_contact [OF _ _ assms(2,3) new] assms(1) by (simp add: guarding_def)
  have "guarding (met sv w ?u)" using assms(1) by (simp add: guarding_def)
  from create_guarded [OF this, of env w ?u t']
  obtain sv1 where sv1: "create_session env w ?u t' (met sv w ?u) = fine sv1 []" "guarding sv1" "sv_mode sv1 = sv_mode sv"
    "sv_conns sv1 = sv_conns (met sv w ?u)"
    "sv_principals sv1 = sv_principals sv" "sv_principalIndex sv1 = sv_principalIndex sv"
    "sv_tmpSessions sv1 = AList.update ?u ?i (sv_tmpSessions sv)" "\<forall>j. j \<noteq> ?i \<longrightarrow> sv_internals sv1 j = sv_internals sv j"
    "in_flushTo (sv_internals sv1 ?i) = w" "in_ws (sv_internals sv1 ?i) = Some w" "ss_enqueueFrame (session_at sv1 ?i)"
    "ss_flatState (session_at sv1 ?i) = None" "ss_topicHandles (session_at sv1 ?i) = []"
    unfolding met_fields by blast
  then show ?thesis using run by (intro exI [of _ sv1]) (simp add: held_back_def)
qed

section \<open>Authorized\<close>

definition token_frame :: "string \<Rightarrow> frame" where
  "token_frame token = mk_frame Auth 0 DT_String (PString token)"

lemma token_facts:
  "transportable (token_frame token)" "body_length (token_frame token) = 6 + length token"
  "\<exists>bs. encode (token_frame token) = Inr bs"
proof -
  show t: "transportable (token_frame token)"
    unfolding token_frame_def by (rule transportable_value) (simp_all add: faithful_value_def isKeyRegistrationFrame_def)
  show "body_length (token_frame token) = 6 + length token"
    by (simp add: token_frame_def body_length_def frame_payload_def isKeyRegistrationFrame_def)
  show "\<exists>bs. encode (token_frame token) = Inr bs" by (rule transportable_encode [OF t]) blast
qed

text \<open>The token is shown to the server's user, and nothing else happens.\<close>

lemma server_asks_user:
  assumes "held_back sv w uuid i" "env_onAuthorize env = []" "encode (token_frame token) = Inr bs" "length token \<le> 1048570"
  shows "server_step env t (SI_Message w bs) sv = fine (sv\<lparr>sv_framesIn := sv_framesIn sv + 1\<rparr>) [Sv_AuthRequest uuid token]"
proof -
  have "server_step env t (SI_Message w bs) sv = catching (on_frame env w t (token_frame token) sv)"
    using assms by (intro sv_message_frame) (simp_all add: held_back_def token_facts)
  also have "on_frame env w t (token_frame token) sv = fine (sv\<lparr>sv_framesIn := sv_framesIn sv + 1\<rparr>) [Sv_AuthRequest uuid token]"
    using assms(1,2) by (simp add: on_frame_def rate_limit_def held_back_def guarding_def token_frame_def)
  finally show ?thesis by simp
qed

lemma server_accepts:
  assumes "held_back sv w uuid i" "env_onConnection env = []" "pname \<noteq> []" "effectivePrincipal sv pname = p"
    and idle: "\<forall>j \<in> set (index_of sv p). j \<noteq> i \<and> in_flushTo (sv_internals sv j) \<noteq> w"
    and pt: "snd (pm_principal (sv_principals sv) p) = pt" "pt_fresh pt"
    and keys: "encodeBatch (greeting True (pt_flatState pt)) = Inr bs"
  shows "\<exists>sv' out. server_step env t (SI_Authorize uuid token pname) sv = fine sv' out \<and> bytes_to w out = bs
    \<and> sv_mode sv' = sv_mode sv \<and> joining sv' w uuid p (snd (pt_buildKeyFrames pt))"
proof -
  note h = assms(1) [unfolded held_back_def]
  obtain ok kb where b: "encode (signal AuthOk 0) = Inr ok" "encodeBatch (buildKeyFrames (pt_flatState pt) @ [signal ServerSync 0]) = Inr kb"
    "bs = ok @ kb"
    using keys by (auto simp: greeting_def encodeBatch_Cons rbind_eq_Inr)
  then have kb: "encodeBatch (fst (pt_buildKeyFrames pt)) = Inr kb" "fst (pt_buildKeyFrames pt) \<noteq> []"
    by (simp_all add: pt_fresh_build(1) [OF pt(2)])
  let ?taken = "put_session i (ss_authorize (session_at sv i) pname) (sv\<lparr>sv_tmpSessions := AList.delete uuid (sv_tmpSessions sv)\<rparr>)"
  let ?entered = "?taken\<lparr>sv_framesOut := sv_framesOut sv + 1, sv_sessions := AList.update uuid i (sv_sessions sv)\<rparr>"
  have "sv_sendFrame i (signal AuthOk 0) ?taken = fine (?taken\<lparr>sv_framesOut := sv_framesOut sv + 1\<rparr>) [Sv_Send w ok]"
    using h b(1) by (simp add: sv_sendFrame_def put_session_def upd_internal_def conn_open_def run_res_def Let_def)
  then have run: "server_step env t (SI_Authorize uuid token pname) sv = emit_before [Sv_Send w ok] (activateSession env i pname ?entered)"
    using h assms(3) by (simp add: server_step_def sv_authorize_def Let_def session_at_def put_session_def upd_internal_def)
  have s3: "offers ?entered p" "effectivePrincipal ?entered pname = p" "sv_maxFramesPerSec ?entered = 0" "sv_mode ?entered = sv_mode sv"
    "sv_conns ?entered w = \<lparr>cn_open = True, cn_attached = True, cn_parser = default_parser, cn_identified = True, cn_uuid = uuid\<rparr>"
    "map_of (sv_sessions ?entered) uuid = Some i" "in_flushTo (sv_internals ?entered i) = w" "in_ws (sv_internals ?entered i) = Some w"
    "ss_enqueueFrame (session_at ?entered i)" "ss_flatState (session_at ?entered i) = None" "ss_topicHandles (session_at ?entered i) = []"
    "snd (pm_principal (sv_principals ?entered) p) = pt"
    "\<forall>j \<in> set (index_of ?entered p). j \<noteq> i \<and> in_flushTo (sv_internals ?entered j) \<noteq> w"
    using h assms(4) idle pt(1)
    by (auto simp: guarding_def offers_def effectivePrincipal_def put_session_def upd_internal_def session_at_def ss_authorize_def index_of_def)
  obtain sv' out where "activateSession env i pname ?entered = fine sv' out" "bytes_to w out = kb" "sv_mode sv' = sv_mode sv"
    "joining sv' w uuid p (snd (pt_buildKeyFrames pt))"
    using activate_joins [OF s3(1,2) assms(2) s3(3,5-11,13,12) kb] s3(4) by auto
  then show ?thesis using run b(3) by (intro exI [of _ sv'] exI [of _ "Sv_Send w ok # out"]) simp
qed

lemma server_run_append:
  "server_run env (ins @ ins') sv = and_then (server_run env ins sv) (server_run env ins')"
proof (induction ins arbitrary: sv)
  case (Cons x ins)
  have "server_run env (ins @ ins') = (\<lambda>sv. and_then (server_run env ins sv) (server_run env ins'))"
    by (rule ext) (rule Cons)
  then show ?case by (cases x) (simp add: and_then_assoc)
qed simp

lemma client_authorizes:
  assumes "waiting c" "calm c" "encode (token_frame token) = Inr bs"
  shows "\<exists>c' out. client_step now j (In_Authorize token) (default_parser, c) = fine (default_parser, c') out \<and> client_sends out = bs
    \<and> waiting c' \<and> calm c' \<and> cl_mirror c' = cl_mirror c \<and> cl_registry c' = cl_registry c"
proof -
  let ?c = "c\<lparr>cl_state := CS_Authorizing\<rparr>"
  have "client_step now j (In_Authorize token) (default_parser, c) = fine (default_parser, ?c) [Out_Send bs]"
    using assms(1,3)
    by (simp add: client_step_def cl_authorize_def waiting_def sendFrame_def token_frame_def sendRaw_def keep_parser_def fine_def and_then_def)
  moreover have "waiting ?c" "calm ?c" "cl_mirror ?c = cl_mirror c"
    using assms calm_cong [of ?c c] cl_mirror_cong [of ?c c] by (simp_all add: waiting_def ws_open_def)
  ultimately show ?thesis by (intro exI [of _ ?c] exI [of _ "[Out_Send bs]"]) simp
qed

text \<open>Up to the user's decision: the client waits, the server holds it back.\<close>

lemma user_is_asked:
  assumes "guarding sv" and "env_onAuthorize env = []" and "length me = 16" and "map_of (sv_sessions sv) (format_uuid me) = None"
    and "length token \<le> 1048570"
  shows "\<exists>c0 o0 c1 o1 sv1.
      client_run [(t0, j0, In_Connect Connect_Returns), (t0, j0, In_Open)] (new_whole_client (format_uuid me) url opt)
        = fine (default_parser, c0) o0
    \<and> client_step t1 j1 (In_Authorize token) (default_parser, c0) = fine (default_parser, c1) o1
    \<and> server_run env [(t1, SI_Connect w), (t2, SI_Message w (client_sends o0)), (t3, SI_Message w (client_sends o1))] sv
        = fine sv1 [Sv_AuthRequest (format_uuid me) token]
    \<and> waiting c1 \<and> calm c1 \<and> cl_mirror c1 = empty_mirror \<and> kr_size (cl_registry c1) = 0
    \<and> held_back sv1 w (format_uuid me) (sv_next sv) \<and> sv_mode sv1 = sv_mode sv \<and> sv_principals sv1 = sv_principals sv
    \<and> sv_principalIndex sv1 = sv_principalIndex sv \<and> (\<forall>j. j \<noteq> sv_next sv \<longrightarrow> sv_internals sv1 j = sv_internals sv j)"
proof -
  let ?u = "format_uuid me" and ?i = "sv_next sv"
  have u: "bytesToUuid (me @ [3, 5]) = ?u" by (rule bytesToUuid_format [OF assms(3)])
  obtain c0 o0 where c0: "client_run [(t0, j0, In_Connect Connect_Returns), (t0, j0, In_Open)] (new_whole_client ?u url opt)
      = fine (default_parser, c0) o0" "encode (identification me) = Inr (client_sends o0)"
    "waiting c0" "calm c0" "cl_mirror c0 = empty_mirror" "kr_size (cl_registry c0) = 0"
    using client_opens [OF assms(3), of t0 j0 t0 j0 url opt] by blast
  obtain tok where tok: "encode (token_frame token) = Inr tok" using token_facts(3) by blast
  obtain c1 o1 where c1: "client_step t1 j1 (In_Authorize token) (default_parser, c0) = fine (default_parser, c1) o1"
    "client_sends o1 = tok" "waiting c1" "calm c1" "cl_mirror c1 = empty_mirror" "kr_size (cl_registry c1) = 0"
    using client_authorizes [OF c0(3,4) tok, of t1 j1] c0(5,6) by auto
  obtain sv0 where s0: "server_run env [(t1, SI_Connect w), (t2, SI_Message w (client_sends o0))] sv = fine sv0 []"
    "held_back sv0 w ?u ?i" "sv_mode sv0 = sv_mode sv" "sv_principals sv0 = sv_principals sv"
    "sv_principalIndex sv0 = sv_principalIndex sv" "\<forall>j. j \<noteq> ?i \<longrightarrow> sv_internals sv0 j = sv_internals sv j"
    using server_holds_back [OF assms(1,3) c0(2), of env t1 w t2] assms(4) u by auto
  let ?sv1 = "sv0\<lparr>sv_framesIn := sv_framesIn sv0 + 1\<rparr>"
  have "server_step env t3 (SI_Message w tok) sv0 = fine ?sv1 [Sv_AuthRequest ?u token]"
    by (rule server_asks_user [OF s0(2) assms(2) tok assms(5)])
  then have "server_run env [(t1, SI_Connect w), (t2, SI_Message w (client_sends o0)), (t3, SI_Message w (client_sends o1))] sv
      = fine ?sv1 [Sv_AuthRequest ?u token]"
    using server_run_append [of env "[(t1, SI_Connect w), (t2, SI_Message w (client_sends o0))]"
        "[(t3, SI_Message w (client_sends o1))]" sv] s0(1) c1(2) by simp
  moreover have "held_back ?sv1 w ?u ?i" using s0(2) by (simp add: held_back_def guarding_def session_at_def)
  ultimately show ?thesis
    using c0(1) c1(1,3-6) s0(3-6)
    by (intro exI [of _ c0] exI [of _ o0] exI [of _ c1] exI [of _ o1] exI [of _ ?sv1]) simp
qed

section \<open>Properties\<close>


text \<open>The stocked broadcast server of \<open>Joining\<close>, with authorization.\<close>

definition guarded_server :: server where
  "guarded_server = fst (server_step plain_env 1 (SI_EnableAuthorization True 5000) stocked_server)"

lemma guarded_facts:
  "guarding guarded_server" "sv_sessions guarded_server = []" "index_of guarded_server p = []"
  "effectivePrincipal guarded_server ''alice'' = BROADCAST_PRINCIPAL"
  "snd (pm_principal (sv_principals guarded_server) BROADCAST_PRINCIPAL) = stocked_principal"
proof -
  have g: "guarded_server = stocked_server\<lparr>sv_authEnabled := True, sv_authTimeoutMs := 5000\<rparr>"
    by (simp add: guarded_server_def server_step_def fine_def)
  show "guarding guarded_server" "sv_sessions guarded_server = []" "index_of guarded_server p = []"
    "effectivePrincipal guarded_server ''alice'' = BROADCAST_PRINCIPAL"
    "snd (pm_principal (sv_principals guarded_server) BROADCAST_PRINCIPAL) = stocked_principal"
    using stocked_facts(1,2,5,12) stocked_facts(3) [of p]
    by (simp_all add: g guarding_def welcoming_def effectivePrincipal_def index_of_def)
qed


end
