(* ===== verification/Wire_Typing.thy ===== *)
theory Wire_Typing
  imports Codec
begin

text \<open>
  The types of the wire. A data type is a type of payloads: those it serializes without running
  into the wrong alternative of the variant, and those it reads. A frame is typed when its payload
  is of its data type, or is what its frame type wants. Typed frames are encoded without any
  exception, and what an encoded one is decoded into is typed again.
\<close>

section \<open>Values\<close>

fun of_type :: "data_type \<Rightarrow> payload \<Rightarrow> bool" where
  "of_type DT_Null p = (case p of PNull \<Rightarrow> True | _ \<Rightarrow> False)"
| "of_type DT_Bool p = (case p of PBool _ \<Rightarrow> True | _ \<Rightarrow> False)"
| "of_type DT_Uint8 p = (case p of PUint8 _ \<Rightarrow> True | _ \<Rightarrow> False)"
| "of_type DT_Uint16 p = (case p of PUint16 _ \<Rightarrow> True | _ \<Rightarrow> False)"
| "of_type DT_Uint32 p = (case p of PUint32 _ \<Rightarrow> True | _ \<Rightarrow> False)"
| "of_type DT_Uint64 p = (case p of PUint64 _ \<Rightarrow> True | _ \<Rightarrow> False)"
| "of_type DT_Int32 p = (case p of PInt32 _ \<Rightarrow> True | _ \<Rightarrow> False)"
| "of_type DT_Int64 p = (case p of PInt64 _ \<Rightarrow> True | _ \<Rightarrow> False)"
| "of_type DT_Float32 p = (case p of PFloat _ \<Rightarrow> True | _ \<Rightarrow> False)"
| "of_type DT_Float64 p = (case p of PDouble _ \<Rightarrow> True | _ \<Rightarrow> False)"
| "of_type DT_String p = (case p of PString _ \<Rightarrow> True | _ \<Rightarrow> False)"
| "of_type DT_Binary p = (case p of PBinary _ \<Rightarrow> True | _ \<Rightarrow> False)"
| "of_type DT_Timestamp p = (case p of PInt64 _ \<Rightarrow> True | _ \<Rightarrow> False)"
| "of_type DT_VarInteger p = (case p of PInt32 _ \<Rightarrow> True | PInt64 _ \<Rightarrow> True | _ \<Rightarrow> False)"
| "of_type DT_VarDouble p = (case p of PDouble _ \<Rightarrow> True | _ \<Rightarrow> False)"
| "of_type DT_VarFloat p = (case p of PFloat _ \<Rightarrow> True | PDouble _ \<Rightarrow> True | _ \<Rightarrow> False)"
| "of_type (DT_Other b) p = False"

lemma of_type_detected [simp]: "of_type (detectDataType v) v"
  by (cases v) simp_all

text \<open>Whatever bytes are read, the value is of the type they are read at.\<close>

lemma deserialize_typed:
  assumes "deserialize dt bs = Inr p"
  shows "of_type dt p"
proof -
  have "deserialize_value dt bs = Inr p"
    using assms by (simp add: deserialize_def Let_def split: if_splits)
  then show ?thesis
    by (cases dt) (auto simp: rbind_eq_Inr narrow_int_def split: if_splits)
qed

text \<open>
  The only thing that can go wrong with a typed value is undefined behaviour: a conversion or a
  negation that overflows.
\<close>

lemma double_conversions_error:
  "double_to_u64 b = Inl e \<Longrightarrow> e = Undefined" "serializeVarInteger w = Inl e \<Longrightarrow> e = Undefined"
  by (auto simp: double_to_u64_def serializeVarInteger_def Let_def split: prod.splits if_splits)

lemma serialize_decimal_error:
  "serializeVarDouble b = Inl e \<Longrightarrow> e = Undefined" "serializeVarFloat b = Inl e \<Longrightarrow> e = Undefined"
  by (auto simp: serializeVarDouble_def serializeVarFloat_def rbind_eq_Inl Let_def
      dest: double_conversions_error split: if_splits option.splits prod.splits)

lemma serialize_typed_error:
  "of_type dt p \<Longrightarrow> serialize dt p = Inl e \<Longrightarrow> e = Undefined"
  by (cases dt) (auto dest: double_conversions_error serialize_decimal_error split: payload.splits)

text \<open>Every typed value that is serialized is read back at the same type.\<close>


lemma serializeVarFloat_cases:
  assumes "serializeVarFloat v = Inr bs"
  obtains f where "bs = fallbackFloat32 f"
  | scale m where "scale \<le> 63" "bs = decimal_bytes (d_less_zero v) scale m"
proof (cases "\<not> f_isfinite (double_to_float v) \<or> (f_iszero (double_to_float v) \<and> f_signbit (double_to_float v))")
  case True
  then show ?thesis using assms that(1) unfolding serializeVarFloat_def Let_def by (metis sum.inject(2))
next
  case False
  then have *: "rbind (double_to_u64 (d_abs v)) (\<lambda>mantissa0.
      case decimal_parts (show_double17 (d_abs v)) mantissa0 of
        None \<Rightarrow> Inr (fallbackFloat32 (double_to_float v))
      | Some (scale, mantissa) \<Rightarrow>
          if mantissa > MAX_SAFE_INT then Inr (fallbackFloat32 (double_to_float v))
          else Inr (decimal_bytes (d_less_zero v) scale mantissa)) = Inr bs"
    using assms unfolding serializeVarFloat_def Let_def by (simp only: if_False)
  then obtain m0 where m0: "double_to_u64 (d_abs v) = Inr m0"
    by (auto simp: rbind_eq_Inr)
  show ?thesis
  proof (cases "decimal_parts (show_double17 (d_abs v)) m0")
    case None
    with * m0 have "bs = fallbackFloat32 (double_to_float v)" by simp
    then show ?thesis by (rule that(1))
  next
    case (Some sm)
    obtain scale m where "sm = (scale, m)" by (cases sm)
    with * m0 Some have "(if m > MAX_SAFE_INT then fallbackFloat32 (double_to_float v)
        else decimal_bytes (d_less_zero v) scale m) = bs" by (simp split: if_splits)
    then show ?thesis
      using that decimal_parts_scale Some \<open>sm = (scale, m)\<close> by (metis (full_types))
  qed
qed

lemma deserializeVarFloat_defined:
  "\<exists>v. deserializeVarFloat (fallbackFloat32 f) = Inr v"
  "scale \<le> 63 \<Longrightarrow> \<exists>v. deserializeVarFloat (decimal_bytes neg scale m) = Inr v"
proof -
  have "fallbackFloat32 f = [0x80] @ writeBE32 [] f @ []"
    by (simp add: fallbackFloat32_def writeBE32_def)
  then show "\<exists>v. deserializeVarFloat (fallbackFloat32 f) = Inr v"
    using readBE32_write [of "[0x80]" f "[]"] by (simp add: deserializeVarFloat_def byte_at_def)
  show "\<exists>v. deserializeVarFloat (decimal_bytes neg scale m) = Inr v" if "scale \<le> 63"
    using decimal_first_byte [OF that, of neg m]
    by (simp add: deserializeVarFloat_def byte_at_def decimal_bytes_def Let_def)
qed

lemma deserialize_defined:
  assumes "serialize dt p = Inr bs"
  shows "\<exists>q. deserialize dt bs = Inr q \<and> of_type dt q"
proof -
  have "\<exists>q. deserialize dt bs = Inr q"
  proof (cases "exact_type dt")
    case True
    then show ?thesis using deserialize_serialize [OF _ assms] by blast
  next
    case False
    have d: "\<exists>q. deserializeVarDouble bs = Inr q" if "serializeVarDouble v = Inr bs" for v
      using that by (rule serializeVarDouble_cases)
        (auto simp: deserializeVarDouble_fallback deserializeVarDouble_decimal)
    have f: "\<exists>q. deserializeVarFloat bs = Inr q" if "serializeVarFloat v = Inr bs" for v
      using that by (rule serializeVarFloat_cases) (auto simp: deserializeVarFloat_defined)
    from False assms show ?thesis
      by (cases dt; cases p) (auto simp: deserialize_def rbind_eq_Inr dest: d f)
  qed
  then show ?thesis using deserialize_typed by blast
qed

section \<open>Frames\<close>

definition typed_frame :: "frame \<Rightarrow> bool" where
  "typed_frame f \<longleftrightarrow> ft_canonical (frameType f) \<and> dt_canonical (dataType f) \<and>
     of_type (if isKeyRegistrationFrame (frameType f) then DT_String
              else if isSignalFrame (frameType f) then DT_Null
              else dataType f) (payload f)"

lemma typed_signal [simp]: "isSignalFrame ft \<Longrightarrow> typed_frame (signal ft k)"
  by (cases ft) (simp_all add: typed_frame_def isKeyRegistrationFrame_def)

lemma typed_registration [simp]: "dt_canonical dt \<Longrightarrow> typed_frame (mk_frame ServerKeyRegistration k dt (PString path))"
  by (simp add: typed_frame_def isKeyRegistrationFrame_def)

lemma typed_value [simp]: "typed_frame (mk_frame ServerValue k (detectDataType v) v)"
  by (simp add: typed_frame_def isKeyRegistrationFrame_def)

lemma typed_encode_error: "typed_frame f \<Longrightarrow> encode f = Inl e \<Longrightarrow> e = Undefined"
  by (auto simp: typed_frame_def encode_def frame_payload_def rbind_eq_Inl Let_def
      split: if_splits payload.splits dest: serialize_typed_error)

lemma typed_frame_decoded:
  assumes "typed_frame f" "encode f = Inr bs"
  shows "\<exists>q. decode bs = Inr [f\<lparr>payload := q\<rparr>] \<and> typed_frame (f\<lparr>payload := q\<rparr>)"
proof -
  obtain p where p: "frame_payload f = Inr p" "bs = DLE # STX # dleEncode (frame_header f @ p) @ [DLE, ETX]"
    using assms(2) by (auto simp: encode_def rbind_eq_Inr Let_def)
  have "\<exists>q. decode_body (frame_header f @ p) = Inr (f\<lparr>payload := q\<rparr>) \<and> typed_frame (f\<lparr>payload := q\<rparr>)"
    using assms(1) p(1) deserialize_defined [of "dataType f" "payload f" p]
    by (auto simp: decode_body_frame typed_frame_def frame_payload_def split: if_splits)
  then show ?thesis using decode_one [OF _ p(2)] by blast
qed

section \<open>Properties\<close>

text \<open>C21. Encoding and decoding are sound for the types: a typed frame is decoded from its
  bytes as one typed frame with the same header, and where it has no bytes that is because the
  serializer's conversion is undefined, never because of a wrong payload or an unknown type.\<close>

theorem typed_frames_travel:
  assumes "typed_frame f"
  shows "(\<exists>bs q. encode f = Inr bs \<and> decode bs = Inr [f\<lparr>payload := q\<rparr>] \<and> typed_frame (f\<lparr>payload := q\<rparr>))
    \<or> encode f = Inl Undefined"
  using typed_encode_error [OF assms] typed_frame_decoded [OF assms] by (cases "encode f") auto

theorem typed_frames_travel_witness:
  "\<exists>bs q. encode (mk_frame ServerValue 7 DT_VarFloat (PFloat 0x3FC00000)) = Inr bs
     \<and> decode bs = Inr [mk_frame ServerValue 7 DT_VarFloat (PFloat 0x3FC00000)\<lparr>payload := q\<rparr>]"
proof -
  have "typed_frame (mk_frame ServerValue 7 DT_VarFloat (PFloat 0x3FC00000))"
    using typed_value [of 7 "PFloat 0x3FC00000"] by simp
  moreover have "encode (mk_frame ServerValue 7 DT_VarFloat (PFloat 0x3FC00000)) \<noteq> Inl Undefined" by code_simp
  ultimately show ?thesis using typed_frames_travel by blast
qed

text \<open>The numbers that the decimal serializers cannot truncate to 64 bits.\<close>

definition too_large :: "u64 \<Rightarrow> bool" where
  "too_large b \<longleftrightarrow> (let (n, d) = d_magnitude (d_abs b) in 2 ^ 64 \<le> n div d)"

fun overflows :: "payload \<Rightarrow> bool" where
  "overflows (PDouble b) \<longleftrightarrow> d_isfinite b \<and> too_large b"
| "overflows (PFloat b) \<longleftrightarrow>
     (let f = double_to_float (float_to_double b)
      in f_isfinite f \<and> \<not> (f_iszero f \<and> f_signbit f) \<and> too_large (float_to_double b))"
| "overflows _ \<longleftrightarrow> False"

lemma too_large_iff: "too_large b \<longleftrightarrow> double_to_u64 (d_abs b) = Inl Undefined"
  by (auto simp: too_large_def double_to_u64_def Let_def split: prod.split)

lemma abs_fields: "d_exponent (d_abs b) = d_exponent b" "d_fraction (d_abs b) = d_fraction b"
proof -
  have "drop_bit 52 (b AND 0x7FFFFFFFFFFFFFFF) AND 0x7FF = drop_bit 52 b AND 0x7FF"
    "(b AND 0x7FFFFFFFFFFFFFFF) AND 0xFFFFFFFFFFFFF = b AND 0xFFFFFFFFFFFFF"
    by (simp_all add: drop_bit_and and.assoc)
  then show "d_exponent (d_abs b) = d_exponent b" "d_fraction (d_abs b) = d_fraction b"
    by (simp_all add: d_exponent_def d_fraction_def d_abs_def)
qed

lemma large_not_zero: "too_large b \<Longrightarrow> \<not> d_iszero b"
  by (auto simp: too_large_def d_magnitude_def abs_fields d_iszero_def scale_frac_def split: if_splits)

lemma serializeVarDouble_defined:
  "(\<exists>bs. serializeVarDouble b = Inr bs) \<longleftrightarrow> \<not> (d_isfinite b \<and> \<not> (d_iszero b \<and> d_signbit b) \<and> too_large b)"
  by (cases "double_to_u64 (d_abs b)")
    (auto simp: serializeVarDouble_def too_large_iff Let_def dest: double_conversions_error split: option.split)

lemma serializeVarFloat_defined:
  "(\<exists>bs. serializeVarFloat b = Inr bs) \<longleftrightarrow> \<not> (let f = double_to_float b in
     f_isfinite f \<and> \<not> (f_iszero f \<and> f_signbit f) \<and> too_large b)"
  by (cases "double_to_u64 (d_abs b)")
    (auto simp: serializeVarFloat_def too_large_iff Let_def dest: double_conversions_error split: option.split)

text \<open>C22. Which values a server can send under the type it detects for them: all but the finite
  doubles and floats from 2^64 on, for which the cast to \<open>uint64_t\<close>, whose result the code
  may not even use, is undefined.\<close>

theorem sendable_unless_large:
  "(\<exists>bs. encode (mk_frame ServerValue k (detectDataType v) v) = Inr bs) \<longleftrightarrow> \<not> overflows v"
proof -
  have "(\<exists>bs. encode (mk_frame ServerValue k (detectDataType v) v) = Inr bs)
      \<longleftrightarrow> (\<exists>bs. serialize (detectDataType v) v = Inr bs)"
    by (cases "serialize (detectDataType v) v")
      (auto simp: encode_def frame_payload_def isKeyRegistrationFrame_def Let_def)
  also have "\<dots> \<longleftrightarrow> \<not> overflows v"
  proof (cases v)
    case (PFloat b)
    then show ?thesis by (simp add: serializeVarFloat_defined Let_def)
  next
    case (PDouble b)
    then show ?thesis by (auto simp: serializeVarDouble_defined dest: large_not_zero)
  next
    case (PInt32 i)
    then show ?thesis using faithful_detected [of v] by (auto simp: faithful_value_def)
  qed simp_all
  finally show ?thesis .
qed

end
