(* ===== verification/Server_Typing.thy ===== *)
theory Server_Typing
  imports Server_Invariants Wire_Typing
begin

text \<open>
  Type soundness of the server: in every run, whatever is set and whoever sends what, the stores
  hold values under the types detected for them, and every message that is sent is a heartbeat or
  decodes to one typed frame of a kind that servers send. The invariant is an instance of the
  contract of \<open>Server_Rules\<close>.
\<close>

section \<open>Typed states\<close>

definition server_frame :: "frame \<Rightarrow> bool" where
  "server_frame f \<longleftrightarrow> typed_frame f \<and>
     frameType f \<in> {ServerKeyRegistration, ServerValue, ServerSync, ServerReset, ServerKeyDelete, AuthOk, AuthFail}"

definition typed_store :: "flat_state \<Rightarrow> bool" where
  "typed_store fs \<longleftrightarrow> list_all (\<lambda>(key, e). fe_type e = detectDataType (fe_value e)) (fs_entries fs)"

definition typed_pt :: "principal_tx \<Rightarrow> bool" where
  "typed_pt pt \<longleftrightarrow> typed_store (pt_flatState pt) \<and> list_all server_frame (pt_cachedKeyFrames pt)"

definition typed_pm :: "principal_manager \<Rightarrow> bool" where
  "typed_pm pm \<longleftrightarrow> list_all (\<lambda>(p, pt). typed_pt pt) (pm_principals pm)"

definition typed_session :: "session \<Rightarrow> bool" where
  "typed_session ss \<longleftrightarrow> list_all typed_store (session_stores ss)"

definition typed_server :: "server \<Rightarrow> bool" where
  "typed_server sv \<longleftrightarrow> typed_pm (sv_principals sv) \<and> (\<forall>i. typed_session (session_at sv i))"

lemma server_frame_simps [simp]:
  "server_frame (signal ServerSync k)" "server_frame (signal ServerReset k)"
  "server_frame (signal ServerKeyDelete k)" "server_frame (signal AuthOk k)"
  "server_frame (mk_frame AuthFail k DT_String (PString reason))"
  "server_frame (mk_frame ServerKeyRegistration k (detectDataType v) (PString path))"
  "server_frame (mk_frame ServerValue k (detectDataType v) v)"
  by (simp_all add: server_frame_def) (simp add: typed_frame_def isKeyRegistrationFrame_def)

lemma list_all_update: "P (k, v) \<Longrightarrow> list_all P m \<Longrightarrow> list_all P (AList.update k v m)"
  by (induction m) auto

lemma list_all_delete: "list_all P m \<Longrightarrow> list_all P (AList.delete k m)"
  by (induction m) (auto simp: AList.delete_eq)

lemma list_all_om: "P (k, v) \<Longrightarrow> list_all P m \<Longrightarrow> list_all P (om_put k v m)" "list_all P m \<Longrightarrow> list_all P (om_del k m)"
  by (induction m) (auto simp: om_del_def)

lemma list_all_map_of: "list_all P m \<Longrightarrow> map_of m k = Some v \<Longrightarrow> P (k, v)"
  by (auto simp: list_all_iff dest: map_of_SomeD)

section \<open>Stores\<close>

lemma typed_new_store [simp]: "typed_store (new_flat_state prefix)"
  by (simp add: typed_store_def new_flat_state_def)

lemma typed_entry: "typed_store fs \<Longrightarrow> map_of (fs_entries fs) key = Some e \<Longrightarrow> fe_type e = detectDataType (fe_value e)"
  by (auto simp: typed_store_def dest: list_all_map_of)

lemma typed_set:
  assumes "typed_store fs" "fs_set fs nxt key v = (fs', nxt', out)"
  shows "typed_store fs'" "list_all (fs_out_ok server_frame) out"
proof -
  have a: "list_all (fs_out_ok server_frame) (announce fs k key v)" for k by (simp add: announce_def)
  have "typed_store fs' \<and> list_all (fs_out_ok server_frame) out"
  proof (cases rule: fs_set_cases [of fs key v nxt])
    case (value_only e)
    then show ?thesis using assms by (auto simp: typed_store_def intro!: list_all_update)
  next
    case (new_type e)
    then show ?thesis using assms a
      by (auto simp: typed_store_def add_entry_def drop_entry_def intro!: list_all_update list_all_delete)
  next
    case new_key
    then show ?thesis using assms a by (auto simp: typed_store_def add_entry_def intro!: list_all_update)
  qed
  then show "typed_store fs'" "list_all (fs_out_ok server_frame) out" by simp_all
qed

lemma typed_clear:
  assumes "typed_store fs"
  shows "fs_clear fs key = (fs', out) \<Longrightarrow> typed_store fs'"
    "fs_clear fs key = (fs', out) \<Longrightarrow> list_all (fs_out_ok server_frame) out"
    "fs_clear_all fs = (fs', out) \<Longrightarrow> typed_store fs'"
    "fs_clear_all fs = (fs', out) \<Longrightarrow> list_all (fs_out_ok server_frame) out"
  using assms
  by (auto simp: fs_clear_def fs_clear_all_def typed_store_def drop_entry_def
      split: option.splits if_splits intro!: list_all_delete)

lemma typed_frames:
  assumes "typed_store fs"
  shows "list_all server_frame (buildKeyFrames fs)" "list_all server_frame (buildValueFrames fs)"
  using assms by (auto simp: list_all_iff buildKeyFrames_def buildValueFrames_def typed_store_def)

section \<open>Principals\<close>

lemma typed_principal_move:
  assumes "typed_pt pt" "principal_move pt pt' out"
  shows "typed_pt pt' \<and> list_all (fs_out_ok server_frame) out"
  using assms(2)
proof (cases rule: principal_move.cases)
  case (set key v)
  then show ?thesis
    using assms(1) typed_set [of "pt_flatState pt" "pt_nextKeyId pt" key v]
    by (auto simp: pt_set_def typed_pt_def split: prod.splits)
next
  case (clear key)
  then show ?thesis
    using assms(1) typed_clear(1,2) [of "pt_flatState pt" key] by (auto simp: pt_clear_def typed_pt_def split: prod.splits)
next
  case clear_all
  then show ?thesis
    using assms(1) typed_clear(3,4) [of "pt_flatState pt"]
    by (auto simp: pt_clear_all_def typed_pt_def pt_triggerResync_def Let_def split: prod.splits)
qed

lemma typed_build:
  "typed_pt pt \<Longrightarrow> pt_buildKeyFrames pt = (fs, pt') \<Longrightarrow> typed_pt pt' \<and> list_all server_frame fs"
  using typed_frames [of "pt_flatState pt"]
  by (auto simp: pt_buildKeyFrames_def typed_pt_def Let_def split: if_splits)

lemma typed_pm_principal:
  "typed_pm pm \<Longrightarrow> pm_principal pm p = (pm', pt) \<Longrightarrow> typed_pm pm' \<and> typed_pt pt"
  by (auto simp: pm_principal_def typed_pm_def new_principal_tx_def typed_pt_def Let_def
      dest: list_all_map_of split: option.splits intro!: list_all_update)

lemma typed_pm_store: "typed_pm pm \<Longrightarrow> typed_pt pt \<Longrightarrow> typed_pm (pm_store pm p pt)"
  by (auto simp: pm_store_def typed_pm_def intro: list_all_update)

lemma typed_pm_counts [simp]:
  "typed_pm (pm_addSession pm p) = typed_pm pm" "typed_pm (fst (pm_removeSession pm p)) = typed_pm pm"
  by (simp_all add: typed_pm_def pm_addSession_def pm_removeSession_def Let_def split: option.split)

section \<open>Sessions\<close>

lemma typed_sessionI:
  "(\<And>fs. ss_flatState ss = Some fs \<Longrightarrow> typed_store fs) \<Longrightarrow>
   list_all (\<lambda>(name, th). typed_store (tp_flatState (th_payload th))) (ss_topicHandles ss) \<Longrightarrow> typed_session ss"
  by (auto simp: typed_session_def session_stores_def list_all_iff split: option.split)

lemma typed_sessionD:
  assumes "typed_session ss"
  shows "ss_flatState ss = Some fs \<Longrightarrow> typed_store fs"
    "list_all (\<lambda>(name, th). typed_store (tp_flatState (th_payload th))) (ss_topicHandles ss)"
  using assms by (auto simp: typed_session_def session_stores_def list_all_iff split: option.splits)

lemma typed_topic: "typed_session ss \<Longrightarrow> map_of (ss_topicHandles ss) name = Some th \<Longrightarrow> typed_store (tp_flatState (th_payload th))"
  using list_all_map_of [OF typed_sessionD(2)] by fastforce

lemma typed_resync:
  assumes "typed_session ss"
  shows "list_all (sess_out_ok server_frame) (triggerSessionResync ss)"
proof -
  have "list_all server_frame (ss_flatKeyFrames ss)" "list_all server_frame (ss_flatValueFrames ss)"
    using typed_sessionD(1) [OF assms]
    by (auto simp: ss_flatKeyFrames_def ss_flatValueFrames_def intro: typed_frames split: option.split)
  moreover have "list_all server_frame (concat (map (\<lambda>(_, th). tp_buildKeyFrames (th_payload th)) (ss_topicHandles ss)))"
    "list_all server_frame (concat (map (\<lambda>(_, th). tp_buildValueFrames (th_payload th)) (ss_topicHandles ss)))"
    using typed_sessionD(2) [OF assms] typed_frames
    by (fastforce simp: list_all_iff tp_buildKeyFrames_def tp_buildValueFrames_def)+
  ultimately show ?thesis by (auto simp: triggerSessionResync_def list_all_iff)
qed

lemma typed_run_out:
  "typed_session ss \<Longrightarrow> list_all (fs_out_ok server_frame) out \<Longrightarrow> list_all (sess_out_ok server_frame) (ss_run_out ss out)"
  by (induction out) (auto simp: ss_run_out_def typed_resync split: fs_out.split)

lemma typed_session_cong:
  "ss_flatState ss' = ss_flatState ss \<Longrightarrow> ss_topicHandles ss' = ss_topicHandles ss \<Longrightarrow> typed_session ss' = typed_session ss"
  by (simp add: typed_session_def session_stores_def)

lemma typed_set_flat:
  assumes "typed_session ss" "typed_store fs"
  shows "typed_session (ss\<lparr>ss_flatState := Some fs\<rparr>)" "typed_session (ss\<lparr>ss_flatState := Some fs, ss_nextKeyId := n\<rparr>)"
  using assms by (auto intro!: typed_sessionI dest: typed_sessionD(2))

lemma typed_set_topics:
  assumes "typed_session ss" "list_all (\<lambda>(name, th). typed_store (tp_flatState (th_payload th))) ths"
  shows "typed_session (ss\<lparr>ss_topicHandles := ths\<rparr>)" "typed_session (ss\<lparr>ss_topicHandles := ths, ss_nextKeyId := n\<rparr>)"
    "typed_session (ss\<lparr>ss_topicIndex := ix, ss_topicHandles := ths\<rparr>)"
  using assms by (auto intro!: typed_sessionI dest: typed_sessionD(1))

lemma typed_move:
  assumes "typed_session ss" "session_move ss ss' out"
  shows "typed_session ss' \<and> list_all (sess_out_ok server_frame) out"
  using assms(2)
proof (cases rule: session_move.cases)
  case (set key v)
  then obtain fs fs' nxt fout where "ss_flatState ss = Some fs" "fs_set fs (ss_nextKeyId ss) key v = (fs', nxt, fout)"
      "ss' = ss\<lparr>ss_flatState := Some fs', ss_nextKeyId := nxt\<rparr>" "out = ss_run_out ss' fout"
    by (auto simp: ss_set_def Let_def split: option.splits if_splits prod.splits)
  then show ?thesis
    using assms(1) typed_set [of fs] typed_sessionD(1) [OF assms(1)] by (simp add: typed_set_flat typed_run_out)
next
  case (clear key)
  then show ?thesis
    using assms(1) typed_clear(1,2) typed_sessionD(1) [OF assms(1)]
    by (auto simp: ss_clearKey_def Let_def typed_set_flat split: option.splits if_splits prod.splits intro!: typed_run_out)
next
  case clear_all
  then show ?thesis
    using assms(1) typed_clear(3,4) typed_sessionD(1) [OF assms(1)]
    by (auto simp: ss_clearAll_def Let_def typed_set_flat split: option.splits if_splits prod.splits intro!: typed_run_out)
next
  case (topic_set name key v)
  show ?thesis
  proof (cases "map_of (ss_topicHandles ss) name")
    case None
    then show ?thesis using topic_set assms(1) by (simp add: ss_topic_set_def)
  next
    case (Some th)
    obtain fs nxt fout where f: "fs_set (tp_flatState (th_payload th)) (ss_nextKeyId ss) key v = (fs, nxt, fout)"
      by (cases "fs_set (tp_flatState (th_payload th)) (ss_nextKeyId ss) key v")
    note typed_set [OF typed_topic [OF assms(1) Some] f]
    moreover have "list_all (\<lambda>(name, th). typed_store (tp_flatState (th_payload th)))
        (om_put name (th\<lparr>th_payload := (th_payload th)\<lparr>tp_flatState := fs\<rparr>\<rparr>) (ss_topicHandles ss))"
      using typed_sessionD(2) [OF assms(1)] calculation by (intro list_all_om) simp_all
    ultimately show ?thesis
      using topic_set Some f assms(1)
      by (auto simp: ss_topic_set_def tp_set_def tp_emit_def Let_def typed_set_topics intro!: typed_run_out)
  qed
next
  case (create_topic name params idx)
  then show ?thesis
    using assms(1) typed_sessionD(2) [OF assms(1)]
    by (auto simp: ss_createTopicHandle_def rbind_eq_Inr Let_def new_topic_handle_def new_topic_payload_def tp_bind_def
        split: if_splits intro!: typed_set_topics list_all_om)
next
  case (remove_topic name)
  then show ?thesis
    using assms(1) typed_sessionD(2) [OF assms(1)]
    by (auto simp: ss_removeTopicHandle_def rbind_eq_Inr Let_def typed_set_topics list_all_om typed_resync split: option.splits)
next
  case (shut ss1)
  then show ?thesis
    using typed_set_topics(1) [OF assms(1), of "[]"] typed_session_cong [of ss' "ss\<lparr>ss_topicHandles := []\<rparr>"]
    by (auto simp: ss_disposeAllTopicHandles_def ss_handleDisconnect_def rbind_eq_Inr)
next
  case bind
  then show ?thesis
    using typed_set_flat(1) [OF assms(1), of "new_flat_state []"]
      typed_session_cong [of ss' "ss\<lparr>ss_flatState := Some (new_flat_state [])\<rparr>"]
    by (simp add: ss_bindSessionTX_def)
next
  case providers
  then show ?thesis using typed_session_cong [of ss' ss] assms(1) by (simp add: ss_setTxProviders_def)
qed

lemma typed_protocol:
  assumes "typed_session ss"
  shows "typed_session (ss_handleReconnect ss)" "typed_session (ss_authorize ss p)" "typed_session (ss_setTxProviders ss)"
    "typed_session (ss_bindSessionTX ss)"
  using assms typed_move [OF assms session_move.bind] typed_move [OF assms session_move.providers]
  by (auto simp: ss_handleReconnect_def ss_authorize_def typed_session_def session_stores_def)

lemma typed_start:
  assumes "typed_session ss" "typed_pt pt" "ss_startSync ss pt = (ss', pt', out)"
  shows "typed_session ss' \<and> typed_pt pt' \<and> list_all (sess_out_ok server_frame) out"
  using assms typed_session_cong [of ss' ss] typed_build [OF assms(2)]
  by (auto simp: ss_startSync_def Let_def list_all_iff split: if_splits prod.splits)

lemma typed_find: "list_all P xs \<Longrightarrow> find Q xs = Some x \<Longrightarrow> P x"
  by (auto simp: list_all_iff find_Some_iff)

lemma typed_answer_frames:
  "list_all server_frame vfs \<Longrightarrow> server_frame f \<Longrightarrow> list_all (sess_out_ok server_frame) (answer_from_frames vfs k f)"
  by (auto simp: answer_from_frames_def dest: typed_find split: option.split)

lemma typed_topics_answer:
  "list_all (\<lambda>(name, th). typed_store (tp_flatState (th_payload th))) ths
    \<Longrightarrow> list_all (sess_out_ok server_frame) (topics_answer ths k)"
proof (induction ths k rule: topics_answer.induct)
  case (2 name th ths k)
  then have "list_all server_frame (tp_buildKeyFrames (th_payload th))"
    "list_all server_frame (tp_buildValueFrames (th_payload th))"
    using typed_frames [of "tp_flatState (th_payload th)"] by (simp_all add: tp_buildKeyFrames_def tp_buildValueFrames_def)
  with 2 show ?case by (auto split: option.split intro: typed_answer_frames dest: typed_find)
qed simp

lemma typed_session_answer:
  assumes "typed_session ss"
  shows "list_all (sess_out_ok server_frame) (session_answer ss k)"
  using typed_topics_answer [OF typed_sessionD(2) [OF assms]] typed_sessionD(1) [OF assms]
  by (auto simp: session_answer_def fs_getByKeyId_def typed_entry split: option.splits)

lemma typed_values: "typed_pt pt \<Longrightarrow> list_all server_frame (pt_buildValueFrames pt)"
  by (simp add: pt_buildValueFrames_def typed_pt_def typed_frames)

lemma typed_key_request:
  assumes "typed_session ss" "typed_pt pt" "handleKeyRequest ss pt k = (pt', out)"
  shows "typed_pt pt' \<and> list_all (sess_out_ok server_frame) out"
proof -
  obtain fs pt1 where b: "pt_buildKeyFrames pt = (fs, pt1)" by fastforce
  have t: "typed_pt pt1" "list_all server_frame fs" using typed_build [OF assms(2) b] by simp_all
  show ?thesis
    using assms t typed_session_answer [OF assms(1), of k] typed_values [OF t(1)]
    by (auto simp: handleKeyRequest_def b split: if_splits option.splits intro: typed_answer_frames dest: typed_find)
qed

lemma sess_frames_ok [simp]: "list_all (sess_out_ok P) (map S_Frame fs) = list_all P fs"
  by (simp add: list_all_iff)

lemma typed_handle:
  assumes "typed_session ss" "typed_pt pt" "ss_handleFrame ss pt f = (ss', pt', out)"
  shows "typed_session ss' \<and> typed_pt pt' \<and> list_all (sess_out_ok server_frame) out"
proof -
  have "typed_session (ss\<lparr>ss_state := SS_Ready\<rparr>)"
    using assms(1) by (simp add: typed_session_def session_stores_def)
  then show ?thesis
    using assms typed_values [OF assms(2)] typed_build [OF assms(2)]
    by (auto simp: ss_handleFrame_def Let_def split: frame_type.splits if_splits prod.splits dest: typed_key_request)
qed

section \<open>Servers\<close>

lemma typed_fields [simp]:
  "typed_server (sv\<lparr>sv_principalIndex := ix\<rparr>) = typed_server sv"
  "typed_server (sv\<lparr>sv_framesIn := k\<rparr>) = typed_server sv" "typed_server (sv\<lparr>sv_framesOut := k\<rparr>) = typed_server sv"
  "typed_server (sv\<lparr>sv_sessions := t\<rparr>) = typed_server sv" "typed_server (sv\<lparr>sv_tmpSessions := t\<rparr>) = typed_server sv"
  "typed_server (sv\<lparr>sv_maxConnections := n\<rparr>) = typed_server sv" "typed_server (sv\<lparr>sv_maxFramesPerSec := n\<rparr>) = typed_server sv"
  "typed_server (sv\<lparr>sv_authEnabled := b, sv_authTimeoutMs := n\<rparr>) = typed_server sv"
  "typed_server (sv\<lparr>sv_tmpSessions := t, sv_sessions := t'\<rparr>) = typed_server sv"
  "typed_server (sv\<lparr>sv_sessions := t, sv_tmpSessions := t', sv_principalIndex := ix\<rparr>) = typed_server sv"
  "typed_server (sv\<lparr>sv_next := i\<rparr>) = typed_server sv" "typed_server (upd_conn w g sv) = typed_server sv"
  "typed_server (indexAddSession p i sv) = typed_server sv" "typed_server (indexRemoveSession p i sv) = typed_server sv"
  by (auto simp: typed_server_def session_at_def upd_conn_def indexAddSession_def indexRemoveSession_def Let_def
      split: option.split)

lemma index_fields [simp]:
  "sv_internals (indexAddSession p i sv) = sv_internals sv" "sv_internals (indexRemoveSession p i sv) = sv_internals sv"
  "sv_principals (indexAddSession p i sv) = sv_principals sv" "sv_principals (indexRemoveSession p i sv) = sv_principals sv"
  "sv_principals (upd_internal j g sv) = sv_principals sv"
  by (simp_all add: indexAddSession_def indexRemoveSession_def upd_internal_def Let_def split: option.split)

lemma typed_upd_internal:
  "typed_server sv \<Longrightarrow> typed_session (in_session (f (sv_internals sv i))) \<Longrightarrow> typed_server (upd_internal i f sv)"
  by (auto simp: typed_server_def upd_internal_def session_at_def)

lemma typed_put_session: "typed_server sv \<Longrightarrow> typed_session ss \<Longrightarrow> typed_server (put_session i ss sv)"
  unfolding put_session_def by (rule typed_upd_internal) simp_all

lemma typed_session_at: "typed_server sv \<Longrightarrow> typed_session (session_at sv i)" "typed_server sv \<Longrightarrow> typed_session (in_session (sv_internals sv i))"
  by (simp_all add: typed_server_def session_at_def)

lemma typed_put_principals: "typed_server sv \<Longrightarrow> typed_pm pm \<Longrightarrow> typed_server (sv\<lparr>sv_principals := pm\<rparr>)"
  by (simp add: typed_server_def session_at_def)

lemma typed_principals: "typed_server sv \<Longrightarrow> typed_pm (sv_principals sv)"
  by (simp add: typed_server_def)

lemma typed_new_principal:
  "pm_principal (sv_principals sv) p = (pm, pt) \<Longrightarrow> typed_server sv \<Longrightarrow> typed_pm pm"
  using typed_pm_principal [OF typed_principals] by blast

lemmas typed_intros = typed_upd_internal typed_put_session typed_put_principals typed_pm_store typed_protocol

interpretation typing: handler_rules typed_server server_frame
proof (unfold_locales, goal_cases)
  case (1 sv i ss' out)
  then show ?case using typed_move [OF typed_session_at(1)] by (blast intro: typed_put_session)
next
  case (2 sv i ss' out)
  then show ?case using typed_move [OF typed_session_at(1)] by blast
next
  case (3 sv p pm pt pt' fout)
  then show ?case
    using typed_pm_principal [OF typed_principals 3(2)] typed_principal_move by (blast intro: typed_intros)
next
  case (4 sv p pm pt pt' fout)
  then show ?case using typed_pm_principal [OF typed_principals 4(2)] typed_principal_move by blast
next
  case (5 sv p pm pt fs pt')
  then show ?case using typed_pm_principal [OF typed_principals 5(2)] typed_build by (blast intro: typed_intros)
next
  case (6 sv p pm pt fs pt')
  then show ?case using typed_pm_principal [OF typed_principals 6(2)] typed_build by blast
next
  case (8 sv f i)
  then show ?case by (intro typed_upd_internal) (simp_all add: typed_session_at)
qed simp_all

lemma typed_disconnect [keeps_intros]: "typed_server sv \<Longrightarrow> typing.kept (handleSessionDisconnect thr u sv)"
  unfolding handleSessionDisconnect_def Let_def
  by (auto split: option.split intro!: keeps_intros typed_intros simp: typed_session_at typed_principals)

interpretation typing: closing_rules typed_server server_frame
  by unfold_locales (rule typed_disconnect)

lemma typed_start_sync [keeps_intros]:
  assumes "typed_server sv"
  shows "typing.kept (start_sync i sv)"
proof -
  obtain pm pt where pm: "pm_principal (sv_principals sv) (in_provider (sv_internals sv i)) = (pm, pt)" by fastforce
  obtain ss pt' out where s: "ss_startSync (session_at sv i) pt = (ss, pt', out)" by (metis prod_cases3)
  have "typed_pm pm" "typed_pt pt" using typed_pm_principal [OF typed_principals [OF assms] pm] by simp_all
  then show ?thesis
    using typed_start [OF typed_session_at(1) [OF assms] _ s] assms
    by (auto simp: start_sync_def pm s Let_def intro!: typing.kept_sess_out typed_intros)
qed

lemma typed_route:
  assumes "typed_server sv"
  shows "typing.kept (route_frame i f sv)"
proof -
  let ?pp = "if ss_txProvider (session_at sv i) then pm_principal (sv_principals sv) (in_provider (sv_internals sv i))
    else (sv_principals sv, new_principal_tx (in_provider (sv_internals sv i)))"
  obtain pm pt where pm: "?pp = (pm, pt)" by fastforce
  obtain ss pt' out where h: "ss_handleFrame (session_at sv i) pt f = (ss, pt', out)" by (metis prod_cases3)
  have "typed_pt (new_principal_tx p)" for p by (simp add: new_principal_tx_def typed_pt_def)
  then have "typed_pm pm \<and> typed_pt pt"
    using pm typed_pm_principal [OF typed_principals [OF assms]] typed_principals [OF assms] by (auto split: if_splits)
  then show ?thesis
    using typed_handle [OF typed_session_at(1) [OF assms] _ h] assms
    by (auto simp: route_frame_def pm h Let_def intro!: typing.kept_sess_out typed_intros)
qed

lemma typed_activate [keeps_intros]:
  assumes "typed_server sv"
  shows "typing.kept (activateSession env i p sv)"
proof -
  obtain pm pt where pm: "pm_principal (sv_principals sv) (effectivePrincipal sv p) = (pm, pt)" by fastforce
  show ?thesis
    using assms typed_new_principal [OF pm assms] unfolding activateSession_def Let_def
    by (auto simp: pm typed_session_at intro!: keeps_intros typed_intros)
qed

lemma typed_new_session: "typed_session (in_session (new_internal (ss_setEnqueue (new_session u)) w now))"
  by (simp add: new_internal_def ss_setEnqueue_def new_session_def typed_session_def session_stores_def)

lemma typed_create: "typed_server sv \<Longrightarrow> typing.kept (create_session env w u now sv)"
  unfolding create_session_def Let_def
  by (auto intro!: keeps_intros typed_intros simp: typed_new_session typed_session_at)

lemma typed_resume [keeps_intros]: "typed_server sv \<Longrightarrow> typing.kept (resume_session env w u i sv)"
  unfolding resume_session_def Let_def
  by (auto intro!: keeps_intros typed_intros simp: typed_session_at)

lemma typed_reconnect: "typed_server sv \<Longrightarrow> typing.kept (reconnect_session env w u now i sv)"
  unfolding reconnect_session_def Let_def
  by (auto split: option.split intro!: keeps_intros typed_intros simp: typed_session_at)

lemma typed_identified: "typed_server sv \<Longrightarrow> typing.kept (handleIdentified env w u now sv)"
  unfolding handleIdentified_def Let_def
  by (auto split: option.split intro!: keeps_intros typed_create typed_reconnect)

lemma typed_authorize: "typed_server sv \<Longrightarrow> typing.kept (sv_authorize env u token p sv)"
  unfolding sv_authorize_def Let_def
  by (auto split: option.split intro!: keeps_intros typed_intros simp: typed_session_at)

lemma typed_close: "typed_server sv \<Longrightarrow> typing.kept (sv_close sv)"
  unfolding sv_close_def close_internal_def Let_def
  by (auto split: option.split intro!: keeps_intros typed_intros simp: typed_session_at)

interpretation typing: server_rules typed_server server_frame "\<lambda>_. True"
  by unfold_locales (simp_all add: typed_route typed_identified typed_authorize typed_close)

section \<open>Properties\<close>

text \<open>A message that is typed: a heartbeat, or one frame of a kind that servers send.\<close>

definition typed_message :: "bytes \<Rightarrow> bool" where
  "typed_message bs \<longleftrightarrow> bs = encodeHeartbeat
     \<or> (case decode bs of Inr [f] \<Rightarrow> server_frame f | _ \<Rightarrow> False)"

lemma server_frame_message:
  assumes "server_frame f" "encode f = Inr bs"
  shows "typed_message bs"
proof -
  obtain q where "decode bs = Inr [f\<lparr>payload := q\<rparr>]" "typed_frame (f\<lparr>payload := q\<rparr>)"
    using typed_frame_decoded assms unfolding server_frame_def by blast
  then show ?thesis using assms(1) by (simp add: typed_message_def server_frame_def)
qed

definition typed_out :: "server_out \<Rightarrow> bool" where
  "typed_out ev \<longleftrightarrow> (case ev of Sv_Send w bs \<Rightarrow> typed_message bs | _ \<Rightarrow> True)"

lemma typed_configured: "typed_server (configured mode auth maxc)"
  by (simp add: configured_def new_server_def typed_server_def typed_pm_def new_principal_manager_def session_at_def
      new_internal_def new_session_def typed_session_def session_stores_def)

text \<open>C7. The server is type sound: in every run of every server, whatever its user sets and
  calls and whatever its clients send, each value of each principal is kept under the type
  detected for it, and each message that is sent, before an exception or after it was caught, is a
  heartbeat or decodes to exactly one frame, of a type that only servers send and with a payload
  of the data type in its header.\<close>

theorem server_is_type_sound:
  "let (sv, out, e) = server_run env ins (configured mode auth maxc)
   in list_all typed_out out
      \<and> (\<forall>(p, pt) \<in> set (pm_principals (sv_principals sv)). \<forall>(key, en) \<in> set (fs_entries (pt_flatState pt)).
           fe_type en = detectDataType (fe_value en))"
proof -
  obtain sv out e where r: "server_run env ins (configured mode auth maxc) = (sv, out, e)" by (metis prod_cases3)
  have "typing.kept (server_run env ins (configured mode auth maxc))"
    by (rule typing.kept_run [OF _ typed_configured]) (simp add: list_all_iff)
  then have "list_all (server_out_ok server_frame) out" "typed_server sv" by (simp_all add: keeps_def r)
  moreover have "typed_out ev" if "server_out_ok server_frame ev" for ev
    using that server_frame_message
    by (auto simp: server_out_ok_def typed_out_def typed_message_def split: server_out.splits)
  ultimately show ?thesis
    by (auto simp: r list_all_iff typed_server_def typed_pm_def typed_pt_def typed_store_def)
qed

text \<open>A value is set, a client joins, and the frames it is sent are typed.\<close>

theorem server_is_type_sound_witness:
  "\<exists>sv out e. server_run plain_env [(0, SI_Set ''a'' (PBool True)), (0, SI_Connect 1), (1, SI_Message 1 (identify_message 1))]
      (configured Broadcast False 0) = (sv, out, e)
    \<and> length (filter (\<lambda>ev. case ev of Sv_Send w data \<Rightarrow> True | _ \<Rightarrow> False) out) = 2
    \<and> pm_principalNames (sv_principals sv) = [BROADCAST_PRINCIPAL] \<and> list_all typed_out out"
proof -
  let ?run = "server_run plain_env [(0, SI_Set ''a'' (PBool True)), (0, SI_Connect 1), (1, SI_Message 1 (identify_message 1))]
      (configured Broadcast False 0)"
  have "case ?run of (sv, out, e) \<Rightarrow> length (filter (\<lambda>ev. case ev of Sv_Send w data \<Rightarrow> True | _ \<Rightarrow> False) out) = 2
      \<and> pm_principalNames (sv_principals sv) = [BROADCAST_PRINCIPAL]"
    by code_simp
  moreover have "case ?run of (sv, out, e) \<Rightarrow> list_all typed_out out"
    using server_is_type_sound [of plain_env "[(0, SI_Set ''a'' (PBool True)), (0, SI_Connect 1), (1, SI_Message 1 (identify_message 1))]"
        Broadcast False 0]
    by (simp add: case_prod_unfold Let_def del: server_run.simps)
  ultimately show ?thesis by (cases ?run) auto
qed

end
