(* ===== verification/Server_Index.thy ===== *)
theory Server_Index
  imports Server_Invariants Server_Data Wire_Typing
begin

text \<open>
  No active session is forgotten: outside the topic modes every session of the table is in the
  index of its principal, in every run, so that what is set for a principal is sent to all of its
  sessions that are ready. The invariant extends the one of the tables and is an instance of
  the contract of \<open>Server_Rules\<close>.
\<close>

section \<open>The index\<close>

definition in_index :: "server \<Rightarrow> nat \<Rightarrow> bool" where
  "in_index sv i \<longleftrightarrow> i \<in> set (index_of sv (effectivePrincipal sv (ss_principal (session_at sv i))))"

text \<open>All sessions but those at \<open>X\<close>, which are on their way into the index.\<close>

definition ix_ok :: "nat set \<Rightarrow> server \<Rightarrow> bool" where
  "ix_ok X sv \<longleftrightarrow> \<not> isTopicMode sv
     \<and> (\<forall>u i. map_of (sv_sessions sv) u = Some i \<longrightarrow> i \<notin> X \<longrightarrow> in_index sv i)"

definition ok_ix :: "int \<Rightarrow> (nat \<times> string) list \<Rightarrow> nat set \<Rightarrow> server \<Rightarrow> bool" where
  "ok_ix m T X sv \<longleftrightarrow> sv_ok m T sv \<and> ix_ok X sv"

lemma ok_ixD: "ok_ix m T X sv \<Longrightarrow> sv_ok m T sv" "ok_ix m T X sv \<Longrightarrow> ix_ok X sv" "ok_ix m T X sv \<Longrightarrow> \<not> isTopicMode sv"
  by (simp_all add: ok_ix_def ix_ok_def)

lemma same_principal:
  "session_move ss ss' out \<Longrightarrow> ss_principal ss' = ss_principal ss"
  "ss_startSync ss pt = (ss', pt', out) \<Longrightarrow> ss_principal ss' = ss_principal ss"
  "ss_handleFrame ss pt f = (ss', pt', out) \<Longrightarrow> ss_principal ss' = ss_principal ss"
  "ss_principal (ss_handleReconnect ss) = ss_principal ss" "ss_principal (ss_setTxProviders ss) = ss_principal ss"
proof -
  show "ss_principal ss' = ss_principal ss" if "session_move ss ss' out"
    using that
    by (cases rule: session_move.cases)
      (auto simp: ss_set_def ss_clearKey_def ss_clearAll_def ss_topic_set_def ss_createTopicHandle_def
        ss_removeTopicHandle_def ss_disposeAllTopicHandles_def ss_handleDisconnect_def ss_bindSessionTX_def
        ss_setTxProviders_def rbind_eq_Inr Let_def split: option.splits if_splits prod.splits)
  show "ss_principal ss' = ss_principal ss" if "ss_startSync ss pt = (ss', pt', out)"
    using that by (auto simp: ss_startSync_def Let_def split: if_splits prod.splits)
  show "ss_principal ss' = ss_principal ss" if "ss_handleFrame ss pt f = (ss', pt', out)"
    using that by (auto simp: ss_handleFrame_def Let_def split: frame_type.splits if_splits prod.splits)
qed (simp_all add: ss_handleReconnect_def ss_setTxProviders_def)

section \<open>State changes\<close>

lemma ix_upd_internal:
  assumes "ix_ok X sv" "i \<in> X \<or> ss_principal (in_session (f (sv_internals sv i))) = ss_principal (session_at sv i)"
  shows "ix_ok X (upd_internal i f sv)"
  using assms
  by (auto simp: ix_ok_def in_index_def index_of_def isTopicMode_def effectivePrincipal_def upd_internal_def session_at_def)

lemma ix_put_session:
  "ix_ok X sv \<Longrightarrow> i \<in> X \<or> ss_principal ss = ss_principal (session_at sv i) \<Longrightarrow> ix_ok X (put_session i ss sv)"
  unfolding put_session_def by (rule ix_upd_internal) simp_all

lemma ix_fields [simp]:
  "ix_ok X (sv\<lparr>sv_principals := pm\<rparr>) = ix_ok X sv" "ix_ok X (sv\<lparr>sv_framesIn := k\<rparr>) = ix_ok X sv"
  "ix_ok X (sv\<lparr>sv_framesOut := k\<rparr>) = ix_ok X sv" "ix_ok X (upd_conn w g sv) = ix_ok X sv"
  "ix_ok X (sv\<lparr>sv_tmpSessions := t\<rparr>) = ix_ok X sv" "ix_ok X (sv\<lparr>sv_next := n\<rparr>) = ix_ok X sv"
  "ix_ok X (sv\<lparr>sv_maxFramesPerSec := k\<rparr>) = ix_ok X sv" "ix_ok X (sv\<lparr>sv_maxConnections := k\<rparr>) = ix_ok X sv"
  by (simp_all add: ix_ok_def in_index_def index_of_def isTopicMode_def effectivePrincipal_def upd_conn_def session_at_def)

lemma ix_mono: "ix_ok X sv \<Longrightarrow> X \<subseteq> Y \<Longrightarrow> ix_ok Y sv"
  by (auto simp: ix_ok_def)

lemma ix_tables [simp]:
  "index_of (sv\<lparr>sv_sessions := t\<rparr>) p = index_of sv p" "isTopicMode (sv\<lparr>sv_sessions := t\<rparr>) = isTopicMode sv"
  "effectivePrincipal (sv\<lparr>sv_sessions := t\<rparr>) = effectivePrincipal sv" "session_at (sv\<lparr>sv_sessions := t\<rparr>) j = session_at sv j"
  "in_index (sv\<lparr>sv_sessions := t\<rparr>) j = in_index sv j" "ix_ok X (sv\<lparr>sv_principals := pm, sv_sessions := t\<rparr>) = ix_ok X (sv\<lparr>sv_sessions := t\<rparr>)"
  by (simp_all add: index_of_def isTopicMode_def effectivePrincipal_def session_at_def ix_ok_def in_index_def fun_eq_iff)

lemma ix_drop_session: "ix_ok X sv \<Longrightarrow> ix_ok X (sv\<lparr>sv_sessions := AList.delete u (sv_sessions sv)\<rparr>)"
  by (auto simp: ix_ok_def in_index_def index_of_def isTopicMode_def effectivePrincipal_def session_at_def)

lemma ix_add_session: "ix_ok X sv \<Longrightarrow> ix_ok (insert i X) (sv\<lparr>sv_sessions := AList.update u i (sv_sessions sv)\<rparr>)"
  by (auto simp: ix_ok_def in_index_def index_of_def isTopicMode_def effectivePrincipal_def session_at_def split: if_splits)

lemma ix_demote:
  "ix_ok X sv \<Longrightarrow> ix_ok X (sv\<lparr>sv_tmpSessions := t, sv_sessions := AList.delete u (sv_sessions sv)\<rparr>)"
  by (auto simp: ix_ok_def in_index_def index_of_def isTopicMode_def effectivePrincipal_def session_at_def)

lemma ix_absent: "ix_ok (insert i X) sv \<Longrightarrow> \<forall>u. map_of (sv_sessions sv) u \<noteq> Some i \<Longrightarrow> ix_ok X sv"
  by (auto simp: ix_ok_def)

lemma index_add: "index_of (indexAddSession p i sv) q = (if q = p then List.insert i (index_of sv p) else index_of sv q)"
  by (simp add: index_of_def indexAddSession_def)

lemma index_remove: "index_of (indexRemoveSession p i sv) q = (if q = p then removeAll i (index_of sv p) else index_of sv q)"
  by (auto simp: index_of_def indexRemoveSession_def Let_def split: option.split)

lemma index_proj [simp]:
  "sv_sessions (indexAddSession p i sv) = sv_sessions sv" "sv_sessions (indexRemoveSession p i sv) = sv_sessions sv"
  "isTopicMode (indexAddSession p i sv) = isTopicMode sv" "isTopicMode (indexRemoveSession p i sv) = isTopicMode sv"
  "effectivePrincipal (indexAddSession p i sv) = effectivePrincipal sv"
  "effectivePrincipal (indexRemoveSession p i sv) = effectivePrincipal sv"
  "session_at (indexAddSession p i sv) j = session_at sv j" "session_at (indexRemoveSession p i sv) j = session_at sv j"
  by (simp_all add: indexAddSession_def indexRemoveSession_def isTopicMode_def effectivePrincipal_def session_at_def
      fun_eq_iff Let_def split: option.split)

lemma in_index_add:
  "in_index (indexAddSession p i sv) j
    \<longleftrightarrow> in_index sv j \<or> j = i \<and> effectivePrincipal sv (ss_principal (session_at sv i)) = p"
  by (auto simp: in_index_def index_add)

lemma in_index_remove:
  "in_index (indexRemoveSession p i sv) j
    \<longleftrightarrow> in_index sv j \<and> \<not> (j = i \<and> effectivePrincipal sv (ss_principal (session_at sv i)) = p)"
  by (auto simp: in_index_def index_remove)

lemma ix_enter:
  assumes "ix_ok (insert i X) sv" "effectivePrincipal sv (ss_principal (session_at sv i)) = p"
  shows "ix_ok X (indexAddSession p i sv)"
  using assms by (auto simp: ix_ok_def in_index_add)

section \<open>The contract\<close>

interpretation index: handler_rules "ok_ix m T X" "\<lambda>_. True" for m T X
proof (unfold_locales, goal_cases)
  case (1 sv i ss' out)
  then show ?case using same_principal(1) by (auto simp: ok_ix_def intro: ok_put_session who_move ix_put_session)
next
  case (8 sv f i)
  then show ?case
    by (auto simp: ok_ix_def intro!: ok_upd_internal ix_upd_internal) (simp_all add: session_at_def who_refl)
qed (auto simp: ok_ix_def list_all_iff intro: ok_fields)

lemma ok_ix_held: "ok_ix m ((i, u) # T) X sv \<longleftrightarrow> ok_ix m T X sv \<and> i < sv_next sv \<and> ss_id (session_at sv i) = u"
  by (auto simp: ok_ix_def sv_ok_def held_def)

lemma index_forget: "index.kept m ((i, u) # T) X r \<Longrightarrow> index.kept m T X r"
  by (simp add: keeps_def ok_ix_held)

text \<open>Leaving the index: every other session belongs to another client.\<close>

lemma ix_leave:
  assumes "ok_ix m ((i, u) # T) X sv"
  shows "ok_ix m T X ((indexRemoveSession p i sv)\<lparr>sv_principals := pm,
      sv_sessions := AList.delete u (sv_sessions (indexRemoveSession p i sv))\<rparr>)" (is "ok_ix m T X ?sv")
proof -
  have "ss_id (session_at sv i) = u" "tables_ok sv" using assms unfolding ok_ix_held by (simp_all add: ok_ix_def sv_ok_def)
  then have other: "j \<noteq> i" if "map_of (sv_sessions sv) v = Some j" "v \<noteq> u" for v j
    using that by (auto simp: tables_ok_def)
  have "ix_ok X sv" using assms by (simp add: ok_ix_def)
  then have "ix_ok X ((indexRemoveSession p i sv)\<lparr>sv_sessions := AList.delete u (sv_sessions sv)\<rparr>)"
    using other by (auto simp: ix_ok_def in_index_remove)
  moreover have "sv_ok m T ((indexRemoveSession p i sv)\<lparr>sv_principals := pm\<rparr>)"
    using assms unfolding ok_ix_held by (auto simp: ok_ix_def intro!: ok_fields)
  from ok_drop_session [OF this, of u] have "sv_ok m T ?sv" by simp
  ultimately show ?thesis by (simp add: ok_ix_def)
qed

lemma index_disconnect [keeps_intros]:
  assumes "ok_ix m T X sv"
  shows "index.kept m T X (handleSessionDisconnect thr u sv)"
proof (cases "map_of (sv_sessions sv) u")
  case None
  then show ?thesis
    using assms unfolding handleSessionDisconnect_def
    by (auto split: option.split intro!: keeps_intros index.kept_stop_hb simp: ok_ix_def intro: ok_intros)
next
  case (Some i)
  then have h: "ok_ix m ((i, u) # T) X sv" using assms by (simp add: ok_ix_held) (simp add: ok_ix_def sv_ok_def tables_ok_def)
  let ?off = "\<lambda>sv. upd_internal i (\<lambda>n. n\<lparr>in_ws := None\<rparr>) sv"
  have off: "ok_ix m ((i, u) # T) X (?off sv)" if "ok_ix m ((i, u) # T) X sv" for sv
    using that by (rule index.good_internal) simp
  have drop: "ok_ix m T X (sv\<lparr>sv_sessions := AList.delete u (sv_sessions sv)\<rparr>)" if "ok_ix m ((i, u) # T) X sv" for sv
    using that unfolding ok_ix_held by (auto simp: ok_ix_def intro: ok_drop_session ix_drop_session)
  have "index.kept m T X (and_then (shut_session thr i sv) (\<lambda>sv.
      let sv = ?off sv; p = ss_principal (session_at sv i);
          sv = (if p \<noteq> [] \<and> \<not> isTopicMode sv
                then let sv = indexRemoveSession (effectivePrincipal sv p) i sv
                     in sv\<lparr>sv_principals := fst (pm_removeSession (sv_principals sv) (effectivePrincipal sv p))\<rparr>
                else sv)
      in fine (sv\<lparr>sv_sessions := AList.delete u (sv_sessions sv)\<rparr>) []))" (is "index.kept m T X (and_then _ ?k)")
  proof -
    have "index.kept m T X (?k sv)" if "ok_ix m ((i, u) # T) X sv" for sv
      using drop [OF off [OF that]] ix_leave [OF off [OF that]] by (auto simp: Let_def intro!: keeps_fine)
    then show ?thesis
      by (rule keeps_and_then_stronger [OF index.kept_shut [OF h]]) (simp_all add: ok_ix_held)
  qed
  then show ?thesis using Some assms by (auto simp: handleSessionDisconnect_def intro: keeps_intros)
qed

interpretation index: closing_rules "ok_ix m T X" "\<lambda>_. True" for m T X
  by unfold_locales (rule index_disconnect)

section \<open>Handlers that change the tables\<close>

lemma ok_ix_put:
  assumes "ok_ix m T X sv" "same_who (session_at sv i) ss" "ss_principal ss = ss_principal (session_at sv i)"
  shows "ok_ix m T X (put_session i ss sv)" "ok_ix m T X (put_session i ss (sv\<lparr>sv_principals := pm\<rparr>))"
  using assms by (auto simp: ok_ix_def intro!: ok_intros ix_put_session simp: session_at_def)

lemma index_start_sync [keeps_intros]: "ok_ix m T X sv \<Longrightarrow> index.kept m T X (start_sync i sv)"
  unfolding start_sync_def Let_def
  by (auto split: prod.split intro!: index.kept_sess_out ok_ix_put intro: who_rules same_principal)

lemma index_route: "ok_ix m T X sv \<Longrightarrow> index.kept m T X (route_frame i f sv)"
  unfolding route_frame_def Let_def
  by (auto split: prod.splits if_splits intro!: index.kept_sess_out ok_ix_put intro: who_rules same_principal)

lemma index_activate:
  assumes "ok_ix m T (insert i X) sv" "ss_principal (session_at sv i) = p"
  shows "index.kept m T X (activateSession env i p sv)"
proof -
  let ?p = "effectivePrincipal sv p"
  obtain pm pt where pm: "pm_principal (sv_principals sv) ?p = (pm, pt)" by fastforce
  let ?sv1 = "indexAddSession ?p i (sv\<lparr>sv_principals := pm_addSession pm ?p\<rparr>)"
  let ?sv2 = "upd_internal i (\<lambda>n. n\<lparr>in_provider := ?p, in_session := ss_setTxProviders (in_session n)\<rparr>) ?sv1"
  have "ix_ok X ?sv1"
    using assms by (intro ix_enter) (auto simp: ok_ix_def effectivePrincipal_def session_at_def)
  then have "ok_ix m T X ?sv2"
    using assms(1)
    by (auto simp: ok_ix_def session_at_def same_principal who_rules intro!: ok_intros ix_upd_internal)
  then have "index.kept m T X (and_then (announce_session env i ?sv2) (start_sync i))"
    by (intro keeps_intros index.kept_announce)
  then show ?thesis
    using ok_ixD(3) [OF assms(1)] by (simp add: activateSession_def pm Let_def)
qed

lemma index_create:
  assumes "ok_ix m T {} sv" "map_of (sv_sessions sv) u = None"
    and room: "0 < m \<Longrightarrow> int (length (sv_sessions sv)) + int (length (sv_tmpSessions sv)) < m"
  shows "index.kept m T {} (create_session env w u now sv)"
proof -
  let ?i = "sv_next sv"
  let ?sv = "upd_internal ?i (\<lambda>_. new_internal (ss_setEnqueue (new_session u)) w now) (sv\<lparr>sv_next := ?i + 1\<rparr>)"
  have fresh: "\<forall>v. map_of (sv_sessions sv) v \<noteq> Some ?i"
    using ok_ixD(1) [OF assms(1)] by (auto simp: sv_ok_def tables_ok_def)
  have "ix_ok {?i} ?sv"
    using assms(1) by (intro ix_upd_internal) (auto simp: ok_ix_def intro: ix_mono)
  then have "ix_ok {} ?sv" by (rule ix_absent) (simp add: fresh)
  then have ok: "ok_ix m T {} ?sv" using ok_alloc [OF ok_ixD(1) [OF assms(1)]] by (simp add: ok_ix_def)
  show ?thesis
  proof (cases rule: start_hb_cases [of now ?i ?sv])
    case (1 e)
    then show ?thesis using ok by (simp add: create_session_def Let_def keeps_throw)
  next
    case (2 hb)
    let ?sv2 = "upd_internal ?i (\<lambda>n. n\<lparr>in_heartbeat := hb\<rparr>) ?sv"
    have ok2: "ok_ix m T {} ?sv2" by (rule index.good_internal [OF ok]) simp
    have who: "ss_id (session_at ?sv2 ?i) = u"
      by (simp add: session_at_def upd_internal_def new_internal_def ss_setEnqueue_def new_session_def)
    show ?thesis
    proof (cases "sv_authEnabled sv")
      case True
      then have "create_session env w u now sv = fine (?sv2\<lparr>sv_tmpSessions := AList.update u ?i (sv_tmpSessions ?sv2)\<rparr>) []"
        using 2 by (simp add: create_session_def Let_def)
      moreover have "sv_ok m T (?sv2\<lparr>sv_tmpSessions := AList.update u ?i (sv_tmpSessions ?sv2)\<rparr>)"
        by (rule ok_add_tmp [OF ok_ixD(1) [OF ok2]]) (use True assms(2) room who in simp_all)
      ultimately show ?thesis using ok2 by (simp add: keeps_fine ok_ix_def)
    next
      case False
      have tmp: "sv_tmpSessions sv = []" using ok_ixD(1) [OF assms(1)] False by (simp add: sv_ok_def tables_ok_def)
      let ?p = "default_principal ?sv2"
      let ?sv3 = "put_session ?i (ss_authorize (session_at ?sv2 ?i) ?p) ?sv2"
      let ?sv4 = "?sv3\<lparr>sv_sessions := AList.update u ?i (sv_sessions ?sv3)\<rparr>"
      have "sv_ok m T ?sv3" by (rule ok_put_session [OF ok_ixD(1) [OF ok2]]) (rule who_rules)
      then have "sv_ok m T ?sv4"
        by (rule ok_add_session) (use tmp False room who in \<open>simp_all add: ss_authorize_def\<close>)
      moreover have "ix_ok {?i} ?sv3"
        using ok_ixD(2) [OF ok2] by (intro ix_put_session) (auto intro: ix_mono)
      from ix_add_session [OF this, where u = u and i = ?i] have "ix_ok {?i} ?sv4" by simp
      ultimately have "index.kept m T {} (activateSession env ?i ?p ?sv4)"
        by (intro index_activate) (simp_all add: ok_ix_def ss_authorize_def)
      moreover have "create_session env w u now sv = activateSession env ?i ?p ?sv4"
        using 2 False by (simp add: create_session_def Let_def)
      ultimately show ?thesis by simp
    qed
  qed
qed

lemma index_resume:
  assumes "ok_ix m T {} sv" "map_of (sv_sessions sv) u = Some j" "i < sv_next sv" "ss_id (session_at sv i) = u"
  shows "index.kept m T {} (resume_session env w u i sv)"
proof -
  let ?sv = "upd_internal i (\<lambda>n. n\<lparr>in_flushTo := w\<rparr>) sv"
  have ok: "ok_ix m T {} ?sv" by (rule index.good_internal [OF assms(1)]) simp
  have here: "map_of (sv_sessions ?sv) u = Some j" "i < sv_next ?sv" "ss_id (session_at ?sv i) = u"
    using assms(2-4) by (simp_all) (simp add: session_at_def)
  show ?thesis
  proof (cases "sv_authEnabled ?sv")
    case True
    from ok_demote [OF ok_ixD(1) [OF ok] True here] ix_demote [OF ok_ixD(2) [OF ok]] show ?thesis
      using True by (simp add: resume_session_def keeps_fine ok_ix_def)
  next
    case False
    let ?p = "if ss_principal (session_at ?sv i) = [] then default_principal ?sv else ss_principal (session_at ?sv i)"
    let ?sv2 = "put_session i (ss_authorize (session_at ?sv i) ?p) ?sv"
    have "ok_ix m T {i} ?sv2"
      using ok by (auto simp: ok_ix_def intro!: ok_put_session who_protocol(4) ix_put_session intro: ix_mono)
    then have "index.kept m T {} (activateSession env i ?p ?sv2)"
      by (intro index_activate) (simp_all add: ss_authorize_def)
    moreover have "resume_session env w u i sv = activateSession env i ?p ?sv2"
      using False by (simp only: resume_session_def Let_def if_False)
    ultimately show ?thesis by simp
  qed
qed

lemma index_reconnect:
  assumes "ok_ix m T {} sv" "i < sv_next sv" "ss_id (session_at sv i) = u"
  shows "index.kept m T {} (reconnect_session env w u now i sv)"
proof (rule index_forget [of _ i u])
  have "ok_ix m ((i, u) # T) {} sv" using assms by (simp add: ok_ix_held)
  then show "index.kept m ((i, u) # T) {} (reconnect_session env w u now i sv)"
    unfolding reconnect_session_def
  proof (intro keeps_and_then, goal_cases)
    case 1
    then show ?case by (auto split: option.split intro!: keeps_intros)
  next
    case (2 sv)
    let ?sv1 = "upd_internal i (\<lambda>n. n\<lparr>in_ws := Some w, in_session := ss_handleReconnect (in_session n)\<rparr>) sv"
    have ok1: "ok_ix m ((i, u) # T) {} ?sv1"
      using 2(2) by (auto simp: ok_ix_def session_at_def who_rules same_principal intro!: ok_upd_internal ix_upd_internal)
    show ?case
    proof (cases "map_of (sv_sessions sv) u")
      case None
      then show ?thesis using 2 by (simp add: keeps_throw)
    next
      case (Some j)
      show ?thesis
      proof (cases rule: start_hb_cases [of now i ?sv1])
        case (1 e)
        then show ?thesis using Some ok1 by (simp add: keeps_throw Let_def)
      next
        case (2 hb)
        let ?sv2 = "upd_internal i (\<lambda>n. n\<lparr>in_heartbeat := hb\<rparr>) ?sv1"
        have ok2: "ok_ix m ((i, u) # T) {} ?sv2" by (rule index.good_internal [OF ok1]) simp
        then have "i < sv_next ?sv2 \<and> ss_id (session_at ?sv2 i) = u" unfolding ok_ix_held by blast
        then have "index.kept m ((i, u) # T) {} (resume_session env w u i ?sv2)"
          using Some by (intro index_resume [OF ok2, of _ j]) simp_all
        then show ?thesis using Some 2 by (simp add: Let_def)
      qed
    qed
  qed
qed

lemma index_identified:
  assumes "ok_ix m T {} sv"
  shows "index.kept m T {} (handleIdentified env w u now sv)"
proof (cases "map_of (sv_sessions sv) u")
  case (Some i)
  then have "i < sv_next sv" "ss_id (session_at sv i) = u"
    using ok_ixD(1) [OF assms] by (simp_all add: sv_ok_def tables_ok_def)
  then show ?thesis
    using Some index_reconnect [OF assms] by (simp add: handleIdentified_def Let_def)
next
  case None
  have room: "int (length (sv_sessions sv)) + int (length (sv_tmpSessions sv)) < m"
    if "0 < m" "\<not> (0 < sv_maxConnections sv \<and> sv_maxConnections sv
        \<le> int (length (sv_sessions sv)) + int (length (sv_tmpSessions sv)))"
    using ok_ixD(1) [OF assms] that by (auto simp: sv_ok_def within_limit_def)
  show ?thesis
    using None index_create [OF assms None room] index.kept_ws_close [OF assms]
    by (auto simp: handleIdentified_def Let_def)
qed

lemma index_authorize:
  assumes "ok_ix m T {} sv"
  shows "index.kept m T {} (sv_authorize env u token p sv)"
proof (cases "p = [] \<or> map_of (sv_tmpSessions sv) u = None")
  case True
  then show ?thesis using assms by (auto simp: sv_authorize_def intro!: keeps_intros)
next
  case False
  then obtain i where i: "map_of (sv_tmpSessions sv) u = Some i" by auto
  let ?sv1 = "sv\<lparr>sv_tmpSessions := AList.delete u (sv_tmpSessions sv)\<rparr>"
  let ?sv2 = "put_session i (ss_authorize (session_at ?sv1 i) p) ?sv1"
  have t: "tables_ok sv" "sv_ok m T sv" using ok_ixD(1) [OF assms] by (simp_all add: sv_ok_def)
  have here: "i < sv_next sv" "ss_id (session_at sv i) = u" using t(1) i by (simp_all add: tables_ok_def)
  have absent: "map_of (sv_sessions sv) v \<noteq> Some i" for v
  proof
    assume "map_of (sv_sessions sv) v = Some i"
    then have "map_of (sv_tmpSessions sv) (ss_id (session_at sv i)) = None" using t(1) by (auto simp: tables_ok_def)
    then show False using here(2) i by simp
  qed
  have ok: "sv_ok m T ?sv2" by (rule ok_put_session [OF ok_drop_tmp [OF t(2)]]) (rule who_rules)
  have ix: "ix_ok {i} ?sv2" using assms by (intro ix_put_session) (auto simp: ok_ix_def intro: ix_mono)
  obtain out e k where s: "sv_sendFrame i (signal AuthOk 0) ?sv2 = (?sv2\<lparr>sv_framesOut := k\<rparr>, out, e)"
    by (rule sendFrame_cases)
  have outs: "list_all (server_out_ok (\<lambda>_. True)) out"
    using tables.kept_sendFrame [OF _ ok, where f = "signal AuthOk 0" and i = i] s by (simp add: keeps_def)
  let ?sv3 = "?sv2\<lparr>sv_framesOut := k\<rparr>"
  let ?sv4 = "?sv3\<lparr>sv_sessions := AList.update u i (sv_sessions ?sv3)\<rparr>"
  have ix3: "ix_ok {i} ?sv3" using ix by simp
  have "ix_ok {} ?sv3" by (rule ix_absent [OF ix3]) (simp add: absent)
  then have ok3: "ok_ix m T {} ?sv3" using ok by (simp add: ok_ix_def ok_fields)
  have "sv_ok m T ?sv4"
  proof (rule ok_add_session [OF ok_ixD(1) [OF ok3]])
    show "ss_id (session_at ?sv3 i) = u" "ss_authorized (session_at ?sv3 i)"
      using here by (simp_all add: session_at_def put_session_def upd_internal_def ss_authorize_def)
    show "int (length (sv_sessions ?sv3)) + int (length (sv_tmpSessions ?sv3)) < m" if "0 < m"
      using that t(2) length_delete_present [OF i] by (simp add: sv_ok_def within_limit_def)
  qed (use here in simp_all)
  moreover from ix_add_session [OF ix3, where u = u and i = i] have "ix_ok {i} ?sv4" by simp
  ultimately have "index.kept m T {} (activateSession env i p ?sv4)"
    by (intro index_activate) (simp_all add: ok_ix_def session_at_def put_session_def upd_internal_def ss_authorize_def)
  then have "index.kept m T {} (and_then (?sv3, out, e) (\<lambda>sv. activateSession env i p (sv\<lparr>sv_sessions := AList.update u i (sv_sessions sv)\<rparr>)))"
    using ok3 outs by (cases e) (simp_all add: keeps_throw keeps_emit_before and_then_None)
  then show ?thesis using False i s by (simp add: sv_authorize_def Let_def)
qed

lemma ix_clear_tables:
  "ix_ok X sv \<Longrightarrow> ix_ok X (sv\<lparr>sv_sessions := [], sv_tmpSessions := [], sv_principalIndex := []\<rparr>)"
  by (simp add: ix_ok_def isTopicMode_def)

lemma index_close: "ok_ix m T X sv \<Longrightarrow> index.kept m T X (sv_close sv)"
  unfolding sv_close_def close_internal_def Let_def
  by (auto split: option.split intro!: keeps_intros index.good_internal index.good_conn)
    (simp add: ok_ix_def ok_clear_tables ix_clear_tables)

interpretation index: server_rules "ok_ix m T {}" "\<lambda>_. True" settings_fixed for m T
proof (unfold_locales, goal_cases)
  case (6 sv u)
  then show ?case by (simp add: ok_ix_def ok_drop_tmp)
next
  case (9 sv n)
  then show ?case by (simp add: ok_ix_def sv_ok_def tables_ok_def within_limit_def held_def session_at_def)
qed (auto simp: settings_fixed_def intro: index_route index_identified index_authorize index_close)

section \<open>Deliveries\<close>

text \<open>What an operation on a principal enqueues, sent to every session of the principal.\<close>

lemma outputs_to_all:
  assumes "\<forall>f \<in> set fs. \<exists>bs. encode f = Inr bs"
  obtains out where "for_each (\<lambda>ev. case ev of Enqueue fr \<Rightarrow> ptx_onValue p fr | Resync \<Rightarrow> ptx_onResync p) (map Enqueue fs) sv
      = fine sv out"
    "\<forall>f \<in> set fs. \<forall>bs. encode f = Inr bs \<longrightarrow> set (deliveries sv (index_of sv p) bs) \<subseteq> set out"
  using assms
proof (induction fs arbitrary: thesis)
  case Nil
  show ?case by (rule Nil(1)) simp_all
next
  case (Cons f fs)
  obtain bs where bs: "encode f = Inr bs" using Cons.prems(2) by auto
  obtain out where "for_each (\<lambda>ev. case ev of Enqueue fr \<Rightarrow> ptx_onValue p fr | Resync \<Rightarrow> ptx_onResync p) (map Enqueue fs) sv
      = fine sv out" "\<forall>f \<in> set fs. \<forall>bs. encode f = Inr bs \<longrightarrow> set (deliveries sv (index_of sv p) bs) \<subseteq> set out"
    using Cons.IH Cons.prems(2) by auto
  then show ?case
    using onValue_delivers [OF bs, of p sv] bs by (intro Cons.prems(1) [of "deliveries sv (index_of sv p) bs @ out"]) auto
qed

lemma ok_ix_configured: "\<not> mode \<in> {SessionTopic, SessionPrincipalTopic} \<Longrightarrow> ok_ix maxc [] {} (configured mode auth maxc)"
  using ok_configured [of maxc mode auth] by (simp add: ok_ix_def ix_ok_def configured_def new_server_def isTopicMode_def)

lemma set_outputs:
  assumes "pt_set pt key v = (pt', fout)" "\<not> overflows v"
  shows "fout = map Enqueue (frames_of fout)" "\<forall>f \<in> set (frames_of fout). \<exists>bs. encode f = Inr bs"
    "\<exists>k. mk_frame ServerValue k (detectDataType v) v \<in> set (frames_of fout)" "pt_get pt' key = v"
proof -
  have plain: "\<exists>bs. encode (signal ServerSync 0) = Inr bs" "\<exists>bs. encode (signal ServerKeyDelete k) = Inr bs"
    "\<exists>bs. encode (mk_frame ServerKeyRegistration k dt (PString path)) = Inr bs"
    "\<exists>bs. encode (mk_frame ServerValue k (detectDataType v) v) = Inr bs" for k dt path
    using sendable_unless_large [of k v] assms(2)
    by (simp_all add: encode_def frame_payload_def isKeyRegistrationFrame_def Let_def)
  show "pt_get pt' key = v" using assms(1) by (cases rule: pt_set_flat [of pt key v]) (auto simp: pt_get_def fs_get_set)
  obtain fs nxt where "fs_set (pt_flatState pt) (pt_nextKeyId pt) key v = (fs, nxt, fout)"
    using assms(1) by (auto simp: pt_set_def split: prod.splits)
  then show "fout = map Enqueue (frames_of fout)" "\<forall>f \<in> set (frames_of fout). \<exists>bs. encode f = Inr bs"
    "\<exists>k. mk_frame ServerValue k (detectDataType v) v \<in> set (frames_of fout)"
    by (cases rule: fs_set_cases [of "pt_flatState pt" key v "pt_nextKeyId pt"]; auto simp: announce_def plain)+
qed

section \<open>Properties\<close>

text \<open>C6. No ready session is left out. After any run of a server outside the topic modes, in which
  clients came, left, came back and were authorized in any order, each session in the table that is
  ready and whose socket is open is sent every frame of a value that is set for its principal;
  the call succeeds, and the principal holds the value.\<close>

theorem set_reaches_every_ready_session:
  assumes "list_all (\<lambda>(now, inp). settings_fixed inp) ins" and "mode \<in> {Broadcast, Principal}"
    and run: "server_run env ins (configured mode auth maxc) = (sv, out, e)"
    and s: "map_of (sv_sessions sv) u = Some i" "receives sv i"
    and p: "effectivePrincipal sv (ss_principal (session_at sv i)) = p"
    and set: "pt_set (snd (pm_principal (sv_principals sv) p)) key v = (pt, fout)" and "\<not> overflows v"
  shows "\<exists>sv' out'. server_step env now (op_input (sv_mode sv) p (Set_Key key v)) sv = fine sv' out'
    \<and> map_of (pm_principals (sv_principals sv')) p = Some pt \<and> pt_get pt key = v
    \<and> (\<exists>k. mk_frame ServerValue k (detectDataType v) v \<in> set (frames_of fout))
    \<and> (\<forall>f \<in> set (frames_of fout). \<exists>bs. encode f = Inr bs \<and> Sv_Send (in_flushTo (sv_internals sv i)) bs \<in> set out')"
proof -
  have "index.kept maxc [] {} (server_run env ins (configured mode auth maxc))"
    by (rule index.kept_run [OF assms(1) ok_ix_configured]) (use assms(2) in auto)
  then have "ok_ix maxc [] {} sv" by (simp add: keeps_def run)
  then have topic: "\<not> isTopicMode sv" and "in_index sv i" using s(1) by (auto simp: ok_ix_def ix_ok_def)
  then have here: "i \<in> set (index_of sv p)" by (simp add: in_index_def p)
  have offers: "offers sv p"
    using topic p by (cases "sv_mode sv") (auto simp: offers_def isTopicMode_def effectivePrincipal_def)
  obtain pm pt0 where pm: "pm_principal (sv_principals sv) p = (pm, pt0)" by fastforce
  let ?sv = "sv\<lparr>sv_principals := pm_store pm p pt\<rparr>"
  note out = set_outputs [OF set assms(8)]
  obtain out' where o: "for_each (\<lambda>ev. case ev of Enqueue fr \<Rightarrow> ptx_onValue p fr | Resync \<Rightarrow> ptx_onResync p) (map Enqueue (frames_of fout)) ?sv
      = fine ?sv out'"
    "\<forall>f \<in> set (frames_of fout). \<forall>bs. encode f = Inr bs \<longrightarrow> set (deliveries ?sv (index_of ?sv p) bs) \<subseteq> set out'"
    by (rule outputs_to_all [OF out(2)])
  have "server_step env now (op_input (sv_mode sv) p (Set_Key key v)) sv = fine ?sv out'"
    using offered_input [OF offers] set pm topic o(1) out(1)
    by (simp add: principal_op_def pt_apply_def isTopicMode_def)
  moreover have "Sv_Send (in_flushTo (sv_internals sv i)) bs \<in> set (deliveries ?sv (index_of ?sv p) bs)" for bs
    using here s(2) by (auto simp: deliveries_def)
  ultimately show ?thesis using out(2-4) o(2) by (auto simp: pm_store_def) (metis subsetD)
qed

text \<open>Two clients of a principal, connected and ready.\<close>

definition ready_clients :: "(int \<times> server_input) list" where
  "ready_clients = two_clients @
     [(3, SI_Message 1 [0x10, 0x02, 0x05, 0, 0, 0, 0, 0, 0x10, 0x03]),
      (4, SI_Message 2 [0x10, 0x02, 0x05, 0, 0, 0, 0, 0, 0x10, 0x03])]"

theorem set_reaches_every_ready_session_witness:
  "let sv = fst (server_run plain_env ready_clients (configured Principal False 0))
   in \<exists>out k bs. snd (server_step plain_env 5 (SI_PrincipalSet ''default'' ''a'' (PBool True)) sv) = (out, None)
      \<and> encode (mk_frame ServerValue k DT_Bool (PBool True)) = Inr bs \<and> Sv_Send 2 bs \<in> set out"
proof -
  let ?r = "server_run plain_env ready_clients (configured Principal False 0)"
  let ?sv = "fst ?r"
  obtain out e where r: "?r = (?sv, out, e)" by (metis prod.collapse)
  obtain pt fout where s: "pt_set (snd (pm_principal (sv_principals ?sv) ''default'')) ''a'' (PBool True) = (pt, fout)"
    by fastforce
  have fixed: "list_all (\<lambda>(now, inp). settings_fixed inp) ready_clients" by code_simp
  have "case ?r of (sv, _, _) \<Rightarrow> map_of (sv_sessions sv) (bytesToUuid (replicate 16 2)) = Some 1 \<and> receives sv 1
      \<and> effectivePrincipal sv (ss_principal (session_at sv 1)) = ''default''
      \<and> in_flushTo (sv_internals sv 1) = 2 \<and> sv_mode sv = Principal"
    by code_simp
  then have facts: "map_of (sv_sessions ?sv) (bytesToUuid (replicate 16 2)) = Some 1" "receives ?sv 1"
    "effectivePrincipal ?sv (ss_principal (session_at ?sv 1)) = ''default''"
    "in_flushTo (sv_internals ?sv 1) = 2" "sv_mode ?sv = Principal"
    by (simp_all add: split_beta)
  from set_reaches_every_ready_session [OF fixed _ r facts(1,2,3) s, of 5] facts(4,5)
  show ?thesis by (auto simp: Let_def op_input_def fine_def) (metis prod.collapse)
qed

end
