(* ===== verification/Topic_Data.thy ===== *)
theory Topic_Data
  imports Joining
begin

text \<open>
  The data of topics, from the server's handles to the client's: what is set on the payloads of a
  session's topics, one after the other and mixed as it may be, is what the handles of a client that
  is ready read. The frames of all topics share one connection and one counter of key ids, so the
  relation between the client's mirror and the session covers all topics at once.
\<close>

section \<open>The relation\<close>

text \<open>A mirror shows a payload: every entry under the topic's path, and nothing else under such paths.\<close>

definition shows_payload :: "mirror \<Rightarrow> u32 \<Rightarrow> topic_payload \<Rightarrow> bool" where
  "shows_payload m nxt tp \<longleftrightarrow> tp_bound tp \<and> 0 \<le> tp_index tp
     \<and> fs_wirePrefix (tp_flatState tp) = topic_prefix (tp_index tp) \<and> fs_wf (tp_flatState tp) nxt
     \<and> (\<forall>key e. map_of (fs_entries (tp_flatState tp)) key = Some e \<longrightarrow>
          mi_keys m (fe_keyId e) = Some (topic_prefix (tp_index tp) @ key, fe_type e)
          \<and> mi_vals m (fe_keyId e) = Some (fe_value e))
     \<and> (\<forall>k key t. mi_keys m k = Some (topic_prefix (tp_index tp) @ key, t) \<longrightarrow>
          (\<exists>e. map_of (fs_entries (tp_flatState tp)) key = Some e \<and> fe_keyId e = k))"

definition shows_topics :: "mirror \<Rightarrow> session \<Rightarrow> bool" where
  "shows_topics m ss \<longleftrightarrow> om_wf (ss_topicHandles ss) \<and> ss_sessionEnqueue ss
     \<and> (\<forall>k. ss_nextKeyId ss \<le> k \<longrightarrow> mi_keys m k = None)
     \<and> (\<forall>name th. map_of (ss_topicHandles ss) name = Some th \<longrightarrow> shows_payload m (ss_nextKeyId ss) (th_payload th))
     \<and> (\<forall>name th name' th'. map_of (ss_topicHandles ss) name = Some th \<and> map_of (ss_topicHandles ss) name' = Some th'
          \<and> tp_index (th_payload th) = tp_index (th_payload th') \<longrightarrow> name = name')"

lemma shows_topicsI:
  assumes "om_wf (ss_topicHandles ss)" "ss_sessionEnqueue ss" "\<forall>k. ss_nextKeyId ss \<le> k \<longrightarrow> mi_keys m k = None"
    and "\<And>name th. map_of (ss_topicHandles ss) name = Some th \<Longrightarrow> shows_payload m (ss_nextKeyId ss) (th_payload th)"
    and "\<And>name th name' th'. map_of (ss_topicHandles ss) name = Some th \<Longrightarrow> map_of (ss_topicHandles ss) name' = Some th'
          \<Longrightarrow> tp_index (th_payload th) = tp_index (th_payload th') \<Longrightarrow> name = name'"
  shows "shows_topics m ss"
  using assms unfolding shows_topics_def by blast

text \<open>One payload changes, with the mirror.\<close>

lemma shows_put:
  assumes m: "shows_topics m ss" and th: "map_of (ss_topicHandles ss) name = Some th"
    and fresh: "\<forall>k. nxt' \<le> k \<longrightarrow> mi_keys m' k = None"
    and tp: "shows_payload m' nxt' tp" "tp_index tp = tp_index (th_payload th)"
    and rest: "\<forall>tp'. shows_payload m (ss_nextKeyId ss) tp' \<and> tp_index tp' \<noteq> tp_index (th_payload th) \<longrightarrow> shows_payload m' nxt' tp'"
  shows "shows_topics m' (ss\<lparr>ss_topicHandles := om_put name (th\<lparr>th_payload := tp\<rparr>) (ss_topicHandles ss), ss_nextKeyId := nxt'\<rparr>)"
proof (rule shows_topicsI)
  let ?ss = "ss\<lparr>ss_topicHandles := om_put name (th\<lparr>th_payload := tp\<rparr>) (ss_topicHandles ss), ss_nextKeyId := nxt'\<rparr>"
  note t = m [unfolded shows_topics_def]
  have inj: "n = n'" if "map_of (ss_topicHandles ss) n = Some th1" "map_of (ss_topicHandles ss) n' = Some th2"
    "tp_index (th_payload th1) = tp_index (th_payload th2)" for n n' th1 th2
    using t that by blast
  have look: "map_of (ss_topicHandles ?ss) n = (if n = name then Some (th\<lparr>th_payload := tp\<rparr>) else map_of (ss_topicHandles ss) n)" for n
    using t by simp
  show "om_wf (ss_topicHandles ?ss)" "ss_sessionEnqueue ?ss" "\<forall>k. ss_nextKeyId ?ss \<le> k \<longrightarrow> mi_keys m' k = None"
    using t fresh by simp_all
  show "shows_payload m' (ss_nextKeyId ?ss) (th_payload th')" if n: "map_of (ss_topicHandles ?ss) n = Some th'" for n th'
  proof (cases "n = name")
    case True
    then show ?thesis using n [unfolded look] tp(1) by auto
  next
    case False
    then have o: "map_of (ss_topicHandles ss) n = Some th'" using n [unfolded look] by simp
    then have "tp_index (th_payload th') \<noteq> tp_index (th_payload th)" using inj th False by blast
    moreover have "shows_payload m (ss_nextKeyId ss) (th_payload th')" using t o by blast
    ultimately show ?thesis using rest by simp
  qed
  show "n = n'" if "map_of (ss_topicHandles ?ss) n = Some th1" "map_of (ss_topicHandles ?ss) n' = Some th2"
    "tp_index (th_payload th1) = tp_index (th_payload th2)" for n th1 n' th2
  proof -
    have "\<exists>th0. map_of (ss_topicHandles ss) n = Some th0 \<and> tp_index (th_payload th0) = tp_index (th_payload th1)"
      if "map_of (ss_topicHandles ?ss) n = Some th1" for n th1
      using that [unfolded look] th tp(2) by (cases "n = name") auto
    then show ?thesis using inj that by metis
  qed
qed

lemma topic_prefix_inj:
  assumes "0 \<le> i" "0 \<le> j"
  shows "topic_prefix i @ k = topic_prefix j @ k' \<longleftrightarrow> i = j \<and> k = k'"
proof -
  have p: "topic_prefix i = ''t.'' @ show_nat (nat i) @ ''.''" if "0 \<le> i" for i
    using that by (simp add: topic_prefix_def show_int_def)
  show ?thesis using assms by (auto simp: p digits_dot eq_nat_nat_iff)
qed

section \<open>One payload\<close>

text \<open>The two ways in which a set that keeps the key's type can go.\<close>

lemma typed_set_cases:
  assumes "\<forall>e. map_of (fs_entries fs) key = Some e \<longrightarrow> fe_type e = detectDataType v" "fs_set fs nxt key v = (fs', nxt', out)"
  obtains (value_only) e where "map_of (fs_entries fs) key = Some e" "fe_type e = detectDataType v" "nxt' = nxt"
      "fs' = fs\<lparr>fs_entries := AList.update key (e\<lparr>fe_value := v\<rparr>) (fs_entries fs)\<rparr>"
      "frames_of out = [mk_frame ServerValue (fe_keyId e) (detectDataType v) v]"
  | (new_key) "map_of (fs_entries fs) key = None" "fs' = add_entry fs nxt key v" "nxt' = nxt + 1"
      "frames_of out = [mk_frame ServerKeyRegistration nxt (detectDataType v) (PString (fs_wirePath fs key)),
         signal ServerSync 0, mk_frame ServerValue nxt (detectDataType v) v]"
  using assms by (cases rule: fs_set_cases [of fs key v nxt]) (auto simp: announce_def)

lemma shown_entry:
  assumes "shows_payload m nxt tp" "map_of (fs_entries (tp_flatState tp)) key = Some e"
  shows "mi_keys m (fe_keyId e) = Some (topic_prefix (tp_index tp) @ key, fe_type e)" "mi_vals m (fe_keyId e) = Some (fe_value e)"
  using assms by (simp_all add: shows_payload_def)

lemma shown_path:
  assumes "shows_payload m nxt tp" "mi_keys m k = Some (topic_prefix (tp_index tp) @ key, t)"
  shows "\<exists>e. map_of (fs_entries (tp_flatState tp)) key = Some e \<and> fe_keyId e = k"
  using assms unfolding shows_payload_def by blast

lemma shown_store:
  assumes "shows_payload m nxt tp"
  shows "tp_bound tp" "0 \<le> tp_index tp" "fs_wirePrefix (tp_flatState tp) = topic_prefix (tp_index tp)" "fs_wf (tp_flatState tp) nxt"
  using assms by (simp_all add: shows_payload_def)

lemma shown_apart:
  assumes "shows_payload m nxt tp" "shows_payload m nxt tp'" "tp_index tp' \<noteq> tp_index tp"
  shows "topic_prefix (tp_index tp') @ key' \<noteq> topic_prefix (tp_index tp) @ key"
  using assms shown_store(2) topic_prefix_inj by metis

lemma payload_sends:
  assumes tp: "shows_payload m nxt tp" and nxt: "nxt \<noteq> - 1" "\<forall>k. nxt \<le> k \<longrightarrow> mi_keys m k = None"
    and path: "check_key_path (topic_prefix (tp_index tp) @ key) = Inr ()"
    and ty: "\<forall>e. map_of (fs_entries (tp_flatState tp)) key = Some e \<longrightarrow> fe_type e = detectDataType v"
    and set: "fs_set (tp_flatState tp) nxt key v = (fs', nxt', out)"
  shows "acceptable_all m (frames_of out) \<and> settled_all m (frames_of out) \<and> registrations (frames_of out) \<le> 1"
    and "\<forall>k. nxt' \<le> k \<longrightarrow> mi_keys (foldl mirror_frame m (frames_of out)) k = None"
    and "nxt \<le> nxt'"
    and "mi_keys (foldl mirror_frame m (frames_of out)) k = Some (p, t) \<Longrightarrow>
      mi_keys m k = Some (p, t) \<or> p = topic_prefix (tp_index tp) @ key"
proof -
  note grow = word_less_Suc [OF nxt(1)]
  have "acceptable_all m (frames_of out) \<and> settled_all m (frames_of out) \<and> registrations (frames_of out) \<le> 1
    \<and> (\<forall>k. nxt' \<le> k \<longrightarrow> mi_keys (foldl mirror_frame m (frames_of out)) k = None) \<and> nxt \<le> nxt'
    \<and> (\<forall>k p t. mi_keys (foldl mirror_frame m (frames_of out)) k = Some (p, t) \<longrightarrow>
          mi_keys m k = Some (p, t) \<or> p = topic_prefix (tp_index tp) @ key)"
    using ty set
  proof (cases rule: typed_set_cases)
    case (value_only e)
    then show ?thesis using shown_entry [OF tp value_only(1)] nxt(2)
      by (simp add: settled_def acceptable_def mirror_frame_def mk_frame_def)
  next
    case new_key
    let ?reg = "mk_frame ServerKeyRegistration nxt (detectDataType v) (PString (topic_prefix (tp_index tp) @ key))"
    have fr: "frames_of out = [?reg, signal ServerSync 0, mk_frame ServerValue nxt (detectDataType v) v]"
      using new_key(4) shown_store(3) [OF tp] by (simp add: fs_wirePath_def)
    have none: "mi_keys m k \<noteq> Some (topic_prefix (tp_index tp) @ key, t')" for k t'
      using shown_path [OF tp] new_key(1) by (metis option.distinct(1))
    have "mi_keys m nxt = None" using nxt(2) by simp
    then have "acceptable m ?reg" using none path by (simp add: acceptable_def mk_frame_def)
    moreover have "settled m' f" if "f \<in> {?reg, mk_frame ServerValue nxt (detectDataType v) v}" for m' f
      using that by (auto simp: settled_def mk_frame_def)
    moreover have "settled (m\<lparr>mi_keys := (mi_keys m)(nxt \<mapsto> x)\<rparr>) (signal ServerSync 0)" for x
      by (simp add: settled_def mk_frame_def)
    moreover have "registrations (frames_of out) \<le> 1" by (simp add: fr mk_frame_def)
    moreover have "\<forall>k. nxt' \<le> k \<longrightarrow> mi_keys (foldl mirror_frame m (frames_of out)) k = None"
      using nxt(2) grow by (auto simp: fr new_key(3))
    ultimately show ?thesis using grow by (simp add: fr new_key(3))
  qed
  then show "acceptable_all m (frames_of out) \<and> settled_all m (frames_of out) \<and> registrations (frames_of out) \<le> 1"
    "\<forall>k. nxt' \<le> k \<longrightarrow> mi_keys (foldl mirror_frame m (frames_of out)) k = None" "nxt \<le> nxt'"
    "mi_keys (foldl mirror_frame m (frames_of out)) k = Some (p, t) \<Longrightarrow>
      mi_keys m k = Some (p, t) \<or> p = topic_prefix (tp_index tp) @ key"
    by blast+
qed

text \<open>The mirror then shows the changed payload, and shows any other one as before.\<close>

lemma shown_value:
  assumes tp: "shows_payload m nxt tp" and e: "map_of (fs_entries (tp_flatState tp)) key = Some e" "fe_type e = detectDataType v"
  shows "shows_payload (m\<lparr>mi_vals := (mi_vals m)(fe_keyId e \<mapsto> v)\<rparr>) nxt
      (tp\<lparr>tp_flatState := (tp_flatState tp)\<lparr>fs_entries := AList.update key (e\<lparr>fe_value := v\<rparr>) (fs_entries (tp_flatState tp))\<rparr>\<rparr>)"
    and "shows_payload m nxt tp' \<Longrightarrow> tp_index tp' \<noteq> tp_index tp \<Longrightarrow> shows_payload (m\<lparr>mi_vals := (mi_vals m)(fe_keyId e \<mapsto> v)\<rparr>) nxt tp'"
proof -
  let ?fs = "tp_flatState tp" and ?m = "m\<lparr>mi_vals := (mi_vals m)(fe_keyId e \<mapsto> v)\<rparr>"
  let ?tp = "tp\<lparr>tp_flatState := ?fs\<lparr>fs_entries := AList.update key (e\<lparr>fe_value := v\<rparr>) (fs_entries ?fs)\<rparr>\<rparr>"
  have same: "key' = key" if "map_of (fs_entries ?fs) key' = Some e'" "fe_keyId e' = fe_keyId e" for key' e'
    using fs_wf_inj [OF shown_store(4) [OF tp] that(1) e(1) that(2)] .
  have "mi_keys ?m (fe_keyId e') = Some (topic_prefix (tp_index tp) @ key', fe_type e') \<and> mi_vals ?m (fe_keyId e') = Some (fe_value e')"
    if "map_of (fs_entries (tp_flatState ?tp)) key' = Some e'" for key' e'
    using that shown_entry [OF tp, of key'] shown_entry [OF tp e(1)] same [of key'] by (cases "key' = key") auto
  moreover have "\<exists>e. map_of (fs_entries (tp_flatState ?tp)) key' = Some e \<and> fe_keyId e = k"
    if "mi_keys ?m k = Some (topic_prefix (tp_index tp) @ key', t)" for k key' t
    using shown_path [OF tp, of k key'] that e(1) by (cases "key' = key") fastforce+
  ultimately show "shows_payload ?m nxt ?tp"
    using fs_wf_value [OF shown_store(4) [OF tp] e] shown_store(1-3) [OF tp] by (simp add: shows_payload_def)
  assume p: "shows_payload m nxt tp'" and i: "tp_index tp' \<noteq> tp_index tp"
  have "fe_keyId e' \<noteq> fe_keyId e" if "map_of (fs_entries (tp_flatState tp')) key' = Some e'" for key' e'
    using shown_entry(1) [OF p that] shown_entry(1) [OF tp e(1)] shown_apart [OF tp p i, of key' key] by auto
  then show "shows_payload ?m nxt tp'" using p by (simp add: shows_payload_def)
qed

lemma shown_new:
  assumes tp: "shows_payload m nxt tp" and nxt: "nxt \<noteq> - 1" "\<forall>k. nxt \<le> k \<longrightarrow> mi_keys m k = None"
    and key: "map_of (fs_entries (tp_flatState tp)) key = None"
    and m': "m' = m\<lparr>mi_keys := (mi_keys m)(nxt \<mapsto> (topic_prefix (tp_index tp) @ key, detectDataType v)), mi_vals := (mi_vals m)(nxt \<mapsto> v)\<rparr>"
  shows "shows_payload m' (nxt + 1) (tp\<lparr>tp_flatState := add_entry (tp_flatState tp) nxt key v\<rparr>)"
    and "shows_payload m nxt tp' \<Longrightarrow> tp_index tp' \<noteq> tp_index tp \<Longrightarrow> shows_payload m' (nxt + 1) tp'"
proof -
  let ?tp = "tp\<lparr>tp_flatState := add_entry (tp_flatState tp) nxt key v\<rparr>"
  have ids: "fe_keyId e \<noteq> nxt" if "shows_payload m nxt tp'" "map_of (fs_entries (tp_flatState tp')) key' = Some e" for tp' key' e
    using shown_entry(1) [OF that] nxt(2) by auto
  have "mi_keys m' (fe_keyId e') = Some (topic_prefix (tp_index tp) @ key', fe_type e') \<and> mi_vals m' (fe_keyId e') = Some (fe_value e')"
    if "map_of (fs_entries (tp_flatState ?tp)) key' = Some e'" for key' e'
    using that shown_entry [OF tp, of key'] ids [OF tp, of key'] by (cases "key' = key") (auto simp: m')
  moreover have "\<exists>e. map_of (fs_entries (tp_flatState ?tp)) key' = Some e \<and> fe_keyId e = k"
    if "mi_keys m' k = Some (topic_prefix (tp_index tp) @ key', t)" for k key' t
  proof (cases "k = nxt")
    case False
    then have "mi_keys m k = Some (topic_prefix (tp_index tp) @ key', t)" using that by (simp add: m')
    then obtain e where e: "map_of (fs_entries (tp_flatState tp)) key' = Some e" "fe_keyId e = k"
      using shown_path [OF tp] by blast
    then have "key' \<noteq> key" using key by auto
    then show ?thesis using e by simp
  qed (use that in \<open>auto simp: m'\<close>)
  moreover have "fs_wf (tp_flatState ?tp) (nxt + 1)"
    using fs_wf_set [OF shown_store(4) [OF tp] nxt(1), of key v] key by (simp add: fs_set_def setLeaf_def)
  ultimately show "shows_payload m' (nxt + 1) ?tp" using shown_store(1-3) [OF tp] by (simp add: shows_payload_def)
  assume p: "shows_payload m nxt tp'" and i: "tp_index tp' \<noteq> tp_index tp"
  have "mi_keys m' k = Some (topic_prefix (tp_index tp') @ key', t) \<longleftrightarrow> mi_keys m k = Some (topic_prefix (tp_index tp') @ key', t)" for k key' t
    using shown_apart [OF tp p i, of key' key] nxt(2) by (auto simp: m')
  then show "shows_payload m' (nxt + 1) tp'"
    using p ids [OF p] fs_wf_mono [OF shown_store(4) [OF p] less_imp_le [OF word_less_Suc [OF nxt(1)]]]
    by (auto simp: shows_payload_def m')
qed

lemma payload_shown:
  assumes tp: "shows_payload m nxt tp" and nxt: "nxt \<noteq> - 1" "\<forall>k. nxt \<le> k \<longrightarrow> mi_keys m k = None"
    and ty: "\<forall>e. map_of (fs_entries (tp_flatState tp)) key = Some e \<longrightarrow> fe_type e = detectDataType v"
    and set: "fs_set (tp_flatState tp) nxt key v = (fs', nxt', out)"
  shows "shows_payload (foldl mirror_frame m (frames_of out)) nxt' (tp\<lparr>tp_flatState := fs'\<rparr>)
    \<and> (\<forall>tp'. shows_payload m nxt tp' \<and> tp_index tp' \<noteq> tp_index tp \<longrightarrow> shows_payload (foldl mirror_frame m (frames_of out)) nxt' tp')"
  using ty set
proof (cases rule: typed_set_cases)
  case (value_only e)
  have "foldl mirror_frame m (frames_of out) = m\<lparr>mi_vals := (mi_vals m)(fe_keyId e \<mapsto> v)\<rparr>"
    using value_only(5) shown_entry(1) [OF tp value_only(1)] by simp
  then show ?thesis using shown_value [OF tp value_only(1,2)] value_only(3,4) by simp
next
  case new_key
  have "foldl mirror_frame m (frames_of out)
      = m\<lparr>mi_keys := (mi_keys m)(nxt \<mapsto> (topic_prefix (tp_index tp) @ key, detectDataType v)), mi_vals := (mi_vals m)(nxt \<mapsto> v)\<rparr>"
    using new_key(4) shown_store(3) [OF tp] by (simp add: fs_wirePath_def)
  from shown_new [OF tp nxt new_key(1) this] show ?thesis using new_key(2,3) by simp
qed

section \<open>One call\<close>

definition topic_index_of :: "session \<Rightarrow> string \<Rightarrow> int option" where
  "topic_index_of ss name = map_option (\<lambda>th. tp_index (th_payload th)) (map_of (ss_topicHandles ss) name)"

definition topic_get :: "session \<Rightarrow> string \<Rightarrow> string \<Rightarrow> payload" where
  "topic_get ss name key = (case map_of (ss_topicHandles ss) name of None \<Rightarrow> PNull | Some th \<Rightarrow> tp_get (th_payload th) key)"

definition topic_keys :: "session \<Rightarrow> string \<Rightarrow> string set" where
  "topic_keys ss name = (case map_of (ss_topicHandles ss) name of None \<Rightarrow> {} | Some th \<Rightarrow> set (tp_keys (th_payload th)))"

text \<open>Every key has one type, whatever is stored under it.\<close>

definition keeps_types :: "(string \<Rightarrow> string \<Rightarrow> data_type) \<Rightarrow> session \<Rightarrow> bool" where
  "keeps_types ty ss \<longleftrightarrow> (\<forall>name th key e. map_of (ss_topicHandles ss) name = Some th
     \<and> map_of (fs_entries (tp_flatState (th_payload th))) key = Some e \<longrightarrow> fe_type e = ty name key)"

definition topic_op_ok :: "(string \<Rightarrow> string \<Rightarrow> data_type) \<Rightarrow> session \<Rightarrow> string \<times> string \<times> payload \<Rightarrow> bool" where
  "topic_op_ok ty ss op = (case op of (name, key, v) \<Rightarrow>
     (case topic_index_of ss name of None \<Rightarrow> False | Some idx \<Rightarrow> check_key_path (topic_prefix idx @ key) = Inr ())
     \<and> ty name key = detectDataType v \<and> faithful_value (detectDataType v) v
     \<and> body_length (mk_frame ServerValue 0 (detectDataType v) v) \<le> 1048576)"

text \<open>What a client is told of lies under the session's topics.\<close>

definition under_topics :: "session \<Rightarrow> string \<Rightarrow> bool" where
  "under_topics ss p \<longleftrightarrow> (\<exists>name idx key. topic_index_of ss name = Some idx \<and> p = topic_prefix idx @ key)"

text \<open>The parts of a session that decide how it answers the client.\<close>

definition same_protocol :: "session \<Rightarrow> session \<Rightarrow> bool" where
  "same_protocol ss ss' \<longleftrightarrow> ss_state ss' = ss_state ss \<and> ss_txProvider ss' = ss_txProvider ss
     \<and> ss_serverSyncSent ss' = ss_serverSyncSent ss"

text \<open>What one call leaves: the frames, and the session that the mirror then shows.\<close>

definition topic_told :: "(string \<Rightarrow> string \<Rightarrow> data_type) \<Rightarrow> mirror \<Rightarrow> session \<Rightarrow> frame list \<Rightarrow> session \<Rightarrow> bool" where
  "topic_told ty m ss fs ss' \<longleftrightarrow> acceptable_all m fs \<and> settled_all m fs
     \<and> list_all (\<lambda>f. transportable f \<and> body_length f \<le> 1048576) fs
     \<and> shows_topics (foldl mirror_frame m fs) ss' \<and> keeps_types ty ss' \<and> topic_index_of ss' = topic_index_of ss
     \<and> same_protocol ss ss'
     \<and> (\<forall>k p t. mi_keys (foldl mirror_frame m fs) k = Some (p, t) \<longrightarrow> mi_keys m k = Some (p, t) \<or> under_topics ss p)"

lemma topic_frames_travel:
  assumes "topic_op_ok ty ss (name, key, v)" "map_of (ss_topicHandles ss) name = Some th" "shows_payload m nxt (th_payload th)"
    "\<forall>e. map_of (fs_entries (tp_flatState (th_payload th))) key = Some e \<longrightarrow> fe_type e = detectDataType v"
    "fs_set (tp_flatState (th_payload th)) nxt key v = (fs', nxt', out)"
  shows "list_all (\<lambda>f. transportable f \<and> body_length f \<le> 1048576) (frames_of out)"
proof -
  let ?path = "topic_prefix (tp_index (th_payload th)) @ key"
  have path: "length ?path \<le> 200" and val: "faithful_value (detectDataType v) v"
    "body_length (mk_frame ServerValue 0 (detectDataType v) v) \<le> 1048576"
    using assms(1,2)
    by (auto simp: topic_op_ok_def topic_index_of_def check_key_path_def MAX_KEY_PATH_BYTES_def split: if_splits)
  have v: "transportable (mk_frame ServerValue k (detectDataType v) v) \<and> body_length (mk_frame ServerValue k (detectDataType v) v) \<le> 1048576" for k
    using transportable_value [OF val(1)] val(2)
    by (simp add: body_length_def frame_payload_def isKeyRegistrationFrame_def)
  have r: "transportable (mk_frame ServerKeyRegistration k (detectDataType v) (PString ?path))
      \<and> body_length (mk_frame ServerKeyRegistration k (detectDataType v) (PString ?path)) \<le> 1048576" for k
    using transportable_registration [of ServerKeyRegistration "detectDataType v" k ?path] path
    by (simp add: body_length_def frame_payload_def isKeyRegistrationFrame_def)
  have s: "transportable (signal ServerSync 0) \<and> body_length (signal ServerSync 0) \<le> 1048576"
    by (simp add: body_length_def frame_payload_def isKeyRegistrationFrame_def)
  show ?thesis using assms(4,5)
  proof (cases rule: typed_set_cases)
    case new_key
    moreover have "fs_wirePath (tp_flatState (th_payload th)) key = ?path"
      using shown_store(3) [OF assms(3)] by (simp add: fs_wirePath_def)
    ultimately show ?thesis using v r s by simp
  qed (use v in simp)
qed

lemma topic_set_told:
  assumes m: "shows_topics m ss" and ty: "keeps_types ty ss" and op: "topic_op_ok ty ss (name, key, v)" and nxt: "ss_nextKeyId ss \<noteq> - 1"
  shows "\<exists>fs ss'. ss_topic_set ss name key v = (ss', map S_Frame fs) \<and> topic_told ty m ss fs ss' \<and> registrations fs \<le> 1
    \<and> unat (ss_nextKeyId ss') \<le> Suc (unat (ss_nextKeyId ss))
    \<and> (\<forall>n k. topic_get ss' n k = (if n = name \<and> k = key then v else topic_get ss n k))
    \<and> (\<forall>n. topic_keys ss' n = (if n = name then insert key (topic_keys ss n) else topic_keys ss n))"
proof -
  note t = m [unfolded shows_topics_def]
  obtain th where th: "map_of (ss_topicHandles ss) name = Some th" "ty name key = detectDataType v"
    "check_key_path (topic_prefix (tp_index (th_payload th)) @ key) = Inr ()"
    using op by (auto simp: topic_op_ok_def topic_index_of_def split: option.splits)
  let ?tp = "th_payload th" and ?nxt = "ss_nextKeyId ss"
  obtain fs' nxt' out where set: "fs_set (tp_flatState ?tp) ?nxt key v = (fs', nxt', out)"
    by (cases "fs_set (tp_flatState ?tp) ?nxt key v")
  have tp: "shows_payload m ?nxt ?tp" and fresh: "\<forall>k. ?nxt \<le> k \<longrightarrow> mi_keys m k = None" and om: "om_wf (ss_topicHandles ss)"
    using t th(1) by blast+
  have e: "\<forall>e. map_of (fs_entries (tp_flatState ?tp)) key = Some e \<longrightarrow> fe_type e = detectDataType v"
    using ty th(1,2) by (auto simp: keeps_types_def)
  let ?fs = "frames_of out" and ?tp' = "?tp\<lparr>tp_flatState := fs'\<rparr>"
  let ?ss = "ss\<lparr>ss_topicHandles := om_put name (th\<lparr>th_payload := ?tp'\<rparr>) (ss_topicHandles ss), ss_nextKeyId := nxt'\<rparr>"
  have out: "out = map Enqueue ?fs" by (rule step_enqueues [of "tp_flatState ?tp" ?nxt "Set_Key key v" fs' nxt']) (simp add: fs_step_def set)
  have run: "ss_run_out s (map Enqueue fs) = map S_Frame fs" if "ss_sessionEnqueue s" for s fs
    by (induction fs) (simp_all add: ss_run_out_def that)
  have "ss_topic_set ss name key v = (?ss, ss_run_out ?ss out)"
    using th(1) set shown_store(1) [OF tp] by (simp add: ss_topic_set_def tp_set_def tp_emit_def Let_def)
  then have step: "ss_topic_set ss name key v = (?ss, map S_Frame ?fs)" using run [of ?ss ?fs] out t by simp
  note look = map_of_om_put [OF om]
  note shown = payload_shown [OF tp nxt fresh e set]
  have shown_all: "shows_topics (foldl mirror_frame m ?fs) ?ss"
    using shows_put [OF m th(1), of nxt' _ ?tp'] payload_sends(2) [OF tp nxt fresh th(3) e set] shown by simp
  have "fe_type e' = ty n k" if "map_of (ss_topicHandles ?ss) n = Some th'" "map_of (fs_entries (tp_flatState (th_payload th'))) k = Some e'" for n k th' e'
    using e set
    by (cases rule: typed_set_cases)
      (use that ty th in \<open>auto simp: look keeps_types_def split: if_splits\<close>)
  then have types: "keeps_types ty ?ss" unfolding keeps_types_def by blast
  have index: "topic_index_of ?ss = topic_index_of ss" using th(1) by (auto simp: topic_index_of_def look fun_eq_iff)
  have "under_topics ss (topic_prefix (tp_index ?tp) @ key)"
    using th(1) unfolding under_topics_def topic_index_of_def by force
  moreover have "same_protocol ss ?ss" by (simp add: same_protocol_def)
  ultimately have "topic_told ty m ss ?fs ?ss"
    using payload_sends(1,4) [OF tp nxt fresh th(3) e set] topic_frames_travel [OF op th(1) tp e set] shown_all types index
    unfolding topic_told_def by blast
  moreover have "topic_get ?ss n k = (if n = name \<and> k = key then v else topic_get ss n k)" for n k
    using fs_get_set [OF set, of k] th(1) by (auto simp: topic_get_def look tp_get_def)
  moreover have "topic_keys ?ss n = (if n = name then insert key (topic_keys ss n) else topic_keys ss n)" for n
    using fs_keys_set [OF set] th(1) by (simp add: topic_keys_def look tp_keys_def)
  ultimately show ?thesis
    using step payload_sends(1) [OF tp nxt fresh th(3) e set] nxt_grows [OF set nxt]
    by (intro exI [of _ ?fs] exI [of _ ?ss]) simp
qed

section \<open>Any number of calls\<close>

text \<open>The session under an id, with a connection that is open.\<close>

definition talks :: "server \<Rightarrow> string \<Rightarrow> nat \<Rightarrow> nat \<Rightarrow> bool" where
  "talks sv uuid i w \<longleftrightarrow> map_of (sv_sessions sv) uuid = Some i \<and> in_flushTo (sv_internals sv i) = w \<and> conn_open sv w"

definition topic_input :: "string \<Rightarrow> string \<times> string \<times> payload \<Rightarrow> server_input" where
  "topic_input uuid op = (case op of (name, key, v) \<Rightarrow> SI_SessionCall uuid (HC_TopicSet name key v))"

text \<open>What is last set for a key of a topic.\<close>

definition last_set :: "string \<Rightarrow> string \<Rightarrow> payload \<Rightarrow> (string \<times> string \<times> payload) list \<Rightarrow> payload" where
  "last_set name key v0 ops = foldl (\<lambda>x (n, k, v). if n = name \<and> k = key then v else x) v0 ops"

text \<open>The calls as a callback of the server's user makes them, and as the user makes them himself.\<close>

definition topic_call :: "string \<times> string \<times> payload \<Rightarrow> hook_call" where
  "topic_call op = (case op of (name, key, v) \<Rightarrow> HC_TopicSet name key v)"

lemma put_session_simps [simp]:
  "session_at (put_session i ss sv) i = ss"
  "put_session i ss' (put_session i ss sv) = put_session i ss' sv"
  "put_session i (session_at sv i) sv = sv"
  "talks (put_session i ss sv) uuid i w = talks sv uuid i w"
  by (simp_all add: put_session_def session_at_def upd_internal_def talks_def conn_open_def)

lemma topic_call_told:
  assumes w: "talks sv uuid i w" and m: "shows_topics m (session_at sv i)" and ty: "keeps_types ty (session_at sv i)"
    and op: "topic_op_ok ty (session_at sv i) (name, key, v)" and nxt: "ss_nextKeyId (session_at sv i) \<noteq> - 1"
  shows "\<exists>ss' out fs. run_call i (HC_TopicSet name key v) sv = fine (put_session i ss' sv) out
    \<and> encodeBatch fs = Inr (bytes_to w out)
    \<and> topic_told ty m (session_at sv i) fs ss' \<and> registrations fs \<le> 1
    \<and> unat (ss_nextKeyId ss') \<le> Suc (unat (ss_nextKeyId (session_at sv i)))
    \<and> (\<forall>n k. topic_get ss' n k = (if n = name \<and> k = key then v else topic_get (session_at sv i) n k))
    \<and> (\<forall>n. topic_keys ss' n = (if n = name then insert key (topic_keys (session_at sv i) n) else topic_keys (session_at sv i) n))"
proof -
  obtain fs ss' where ss: "ss_topic_set (session_at sv i) name key v = (ss', map S_Frame fs)"
    "topic_told ty m (session_at sv i) fs ss'" "registrations fs \<le> 1"
    "unat (ss_nextKeyId ss') \<le> Suc (unat (ss_nextKeyId (session_at sv i)))"
    "\<forall>n k. topic_get ss' n k = (if n = name \<and> k = key then v else topic_get (session_at sv i) n k)"
    "\<forall>n. topic_keys ss' n = (if n = name then insert key (topic_keys (session_at sv i) n) else topic_keys (session_at sv i) n)"
    using topic_set_told [OF m ty op nxt] by blast
  let ?sv = "put_session i ss' sv"
  have sv: "conn_open ?sv w" "in_flushTo (sv_internals ?sv i) = w"
    using w by (simp_all add: talks_def put_session_def upd_internal_def conn_open_def)
  obtain bs where bs: "encodeBatch fs = Inr bs"
    using ss(2) encodeBatch_defined [of fs] by (auto simp: topic_told_def list_all_iff)
  obtain out where out: "run_sess_out i (map S_Frame fs) ?sv = fine ?sv out" "bytes_to w out = bs"
    using session_frames_sent [OF sv bs] by blast
  have "run_call i (HC_TopicSet name key v) sv = fine ?sv out"
    using ss(1) out(1) by (simp add: run_call_def Let_def)
  then show ?thesis using ss(2-6) bs out(2) by (intro exI [of _ ss'] exI [of _ out] exI [of _ fs]) simp
qed

lemma settled_append: "settled_all m (fs @ gs) \<longleftrightarrow> settled_all m fs \<and> settled_all (foldl mirror_frame m fs) gs"
  by (induction fs arbitrary: m) auto

lemma topic_told_trans:
  assumes "topic_told ty m ss fs ss'" "topic_told ty (foldl mirror_frame m fs) ss' fs' ss''"
  shows "topic_told ty m ss (fs @ fs') ss''"
proof -
  have "under_topics ss' = under_topics ss" using assms(1) by (simp add: topic_told_def under_topics_def [abs_def])
  then show ?thesis using assms unfolding topic_told_def by (simp add: acceptable_append settled_append same_protocol_def) blast
qed

lemma topic_told_Nil: "shows_topics m ss \<Longrightarrow> keeps_types ty ss \<Longrightarrow> topic_told ty m ss [] ss"
  by (simp add: topic_told_def same_protocol_def)

lemma topic_calls_told:
  assumes "talks sv uuid i w" "shows_topics m (session_at sv i)" "keeps_types ty (session_at sv i)"
    "list_all (topic_op_ok ty (session_at sv i)) ops" "unat (ss_nextKeyId (session_at sv i)) + length ops < 2 ^ 32"
  shows "\<exists>ss' out fs. for_each (run_call i) (map topic_call ops) sv = fine (put_session i ss' sv) out
    \<and> server_run env (map (\<lambda>op. (now, topic_input uuid op)) ops) sv = fine (put_session i ss' sv) out
    \<and> encodeBatch fs = Inr (bytes_to w out)
    \<and> topic_told ty m (session_at sv i) fs ss' \<and> registrations fs \<le> length ops
    \<and> unat (ss_nextKeyId ss') \<le> unat (ss_nextKeyId (session_at sv i)) + length ops
    \<and> (\<forall>n k. topic_get ss' n k = last_set n k (topic_get (session_at sv i) n k) ops)
    \<and> (\<forall>n. topic_keys ss' n = topic_keys (session_at sv i) n \<union> {k. \<exists>v. (n, k, v) \<in> set ops})"
  using assms
proof (induction ops arbitrary: sv m)
  case Nil
  then show ?case
    by (intro exI [of _ "session_at sv i"] exI [of _ "[]"] exI [of _ "[]"]) (simp add: topic_told_Nil last_set_def)
next
  case (Cons op ops)
  obtain name key v where o: "op = (name, key, v)" by (cases op)
  have nxt: "ss_nextKeyId (session_at sv i) \<noteq> - 1"
  proof
    assume "ss_nextKeyId (session_at sv i) = - 1"
    then have "unat (ss_nextKeyId (session_at sv i)) = 2 ^ 32 - 1" by (simp add: unsigned_minus_1_eq_mask mask_eq_exp_minus_1)
    with Cons.prems(5) show False by simp
  qed
  have ok: "topic_op_ok ty (session_at sv i) (name, key, v)" using Cons.prems(4) o by simp
  obtain ss1 out1 fs1 where 1: "run_call i (HC_TopicSet name key v) sv = fine (put_session i ss1 sv) out1"
    "encodeBatch fs1 = Inr (bytes_to w out1)" "topic_told ty m (session_at sv i) fs1 ss1"
    "registrations fs1 \<le> 1" "unat (ss_nextKeyId ss1) \<le> Suc (unat (ss_nextKeyId (session_at sv i)))"
    "\<forall>n k. topic_get ss1 n k = (if n = name \<and> k = key then v else topic_get (session_at sv i) n k)"
    "\<forall>n. topic_keys ss1 n = (if n = name then insert key (topic_keys (session_at sv i) n) else topic_keys (session_at sv i) n)"
    using topic_call_told [OF Cons.prems(1-3) ok nxt] by blast
  note told = 1(3) [unfolded topic_told_def]
  let ?sv = "put_session i ss1 sv"
  have "topic_op_ok ty ss1 = topic_op_ok ty (session_at sv i)" using told by (simp add: topic_op_ok_def [abs_def])
  then obtain ss2 out2 fs2 where 2: "for_each (run_call i) (map topic_call ops) ?sv = fine (put_session i ss2 ?sv) out2"
    "server_run env (map (\<lambda>op. (now, topic_input uuid op)) ops) ?sv = fine (put_session i ss2 ?sv) out2"
    "encodeBatch fs2 = Inr (bytes_to w out2)"
    "topic_told ty (foldl mirror_frame m fs1) ss1 fs2 ss2" "registrations fs2 \<le> length ops"
    "unat (ss_nextKeyId ss2) \<le> unat (ss_nextKeyId ss1) + length ops"
    "\<forall>n k. topic_get ss2 n k = last_set n k (topic_get ss1 n k) ops"
    "\<forall>n. topic_keys ss2 n = topic_keys ss1 n \<union> {k. \<exists>v. (n, k, v) \<in> set ops}"
    using Cons.IH [of ?sv "foldl mirror_frame m fs1"] Cons.prems(1,4,5) 1(5) told by auto
  have "server_step env now (topic_input uuid op) sv = run_call i (HC_TopicSet name key v) sv"
    using Cons.prems(1) by (simp add: server_step_def topic_input_def talks_def o)
  then have "for_each (run_call i) (map topic_call (op # ops)) sv = fine (put_session i ss2 sv) (out1 @ out2)"
    "server_run env (map (\<lambda>op. (now, topic_input uuid op)) (op # ops)) sv = fine (put_session i ss2 sv) (out1 @ out2)"
    using 1(1) 2(1,2) by (simp_all add: topic_call_def o)
  moreover have "encodeBatch (fs1 @ fs2) = Inr (bytes_to w (out1 @ out2))" using 1(2) 2(3) by (simp add: encodeBatch_append)
  moreover have "topic_get ss2 n k = last_set n k (topic_get (session_at sv i) n k) (op # ops)" for n k
    using 1(6) 2(7) by (auto simp: last_set_def o)
  moreover have "topic_keys ss2 n = topic_keys (session_at sv i) n \<union> {k. \<exists>v. (n, k, v) \<in> set (op # ops)}" for n
    using 1(7) 2(8) by (auto simp: o)
  ultimately show ?case
    using topic_told_trans [OF 1(3) 2(4)] 1(4,5) 2(5,6)
    by (intro exI [of _ ss2] exI [of _ "out1 @ out2"] exI [of _ "fs1 @ fs2"]) simp
qed

section \<open>Reading\<close>

lemma handle_reads:
  assumes c: "kr_consistent (cl_registry c)" and tp: "shows_payload (cl_mirror c) nxt tp" and h: "tc_index h = tp_index tp"
  shows "tc_get c h key = tp_get tp key" "set (tc_keys c h) = set (tp_keys tp)"
proof -
  let ?fs = "tp_flatState tp" and ?path = "\<lambda>key. topic_prefix (tp_index tp) @ key"
  have there: "(\<exists>k t. mi_keys (cl_mirror c) k = Some (?path key, t)) \<longleftrightarrow> map_of (fs_entries ?fs) key \<noteq> None" for key
    using shown_path [OF tp] shown_entry(1) [OF tp] by (metis not_Some_eq)
  show "tc_get c h key = tp_get tp key"
  proof (cases "map_of (fs_entries ?fs) key")
    case None
    then have "getByPath (cl_registry c) (?path key) = None"
      using there [of key] client_entry [OF c, of "?path key"] by (metis not_Some_eq)
    then show ?thesis using None by (simp add: tc_get_def h cl_lookup_def tp_get_def fs_get_def)
  next
    case (Some e)
    then obtain e' where "getByPath (cl_registry c) (?path key) = Some e'" "ke_keyId e' = fe_keyId e"
      using shown_entry(1) [OF tp Some] client_entry [OF c, of "?path key" "fe_keyId e"] by blast
    moreover have "map_of (cl_store c) (fe_keyId e) = Some (fe_value e)"
      using shown_entry(2) [OF tp Some] by (simp add: cl_mirror_def)
    ultimately show ?thesis using Some by (simp add: tc_get_def h cl_lookup_def tp_get_def fs_get_def)
  qed
  have "set (tc_keys c h) = {key. \<exists>k t. mi_keys (cl_mirror c) k = Some (?path key, t)}"
    by (auto simp: tc_keys_def h client_paths [OF c] is_prefix_of_iff Let_def image_iff) (blast, metis append_eq_conv_conj)
  then show "set (tc_keys c h) = set (tp_keys tp)"
    unfolding there by (auto simp: tp_keys_def fs_keys_def um_dom [symmetric] dom_def)
qed

lemma client_reads_topics:
  assumes "following c" "shows_topics (cl_mirror c) ss" "topic_index_of ss name = Some (tc_index h)"
  shows "tc_get c h key = topic_get ss name key" "set (tc_keys c h) = topic_keys ss name"
proof -
  obtain th where th: "map_of (ss_topicHandles ss) name = Some th" "tc_index h = tp_index (th_payload th)"
    using assms(3) by (auto simp: topic_index_of_def)
  have cons: "kr_consistent (cl_registry c)" using assms(1) by (simp add: following_def)
  have "shows_payload (cl_mirror c) (ss_nextKeyId ss) (th_payload th)" using assms(2) th(1) unfolding shows_topics_def by blast
  from handle_reads [OF cons this th(2)] show "tc_get c h key = topic_get ss name key" "set (tc_keys c h) = topic_keys ss name"
    by (simp_all add: topic_get_def topic_keys_def th(1))
qed

section \<open>Properties\<close>

text \<open>C9. The data of topics reaches the client: while a session has its connection open and its client is
  ready and shows the session's topics, any sequence of sets through the handles of the session's
  topics, mixed as it may be, that keeps every key's type, is carried out without an exception;
  when the bytes that the connection was sent arrive, cut into any messages, the client handles every one of them
  without an exception, and its handle of each topic then reads for every key the value that was last
  set (what was there before, if none was), lists exactly the old keys and the set ones, and
  shows the session's topics again.\<close>

theorem topic_data_reaches_client:
  assumes "talks sv uuid i w" and "shows_topics (cl_mirror c) (session_at sv i)" and "following c"
    and "keeps_types ty (session_at sv i)" and "list_all (topic_op_ok ty (session_at sv i)) ops"
    and "unat (ss_nextKeyId (session_at sv i)) + length ops < 2 ^ 32" and "kr_size (cl_registry c) + length ops \<le> 10000"
    and "\<forall>bs. concat (chop bs) = bs"
  shows "\<exists>sv' out c' out'.
      server_run env (map (\<lambda>op. (now, topic_input uuid op)) ops) sv = fine sv' out
    \<and> for_each (on_message who now') (chop (bytes_to w out)) (default_parser, c) = fine (default_parser, c') out'
    \<and> (\<forall>name h. topic_index_of (session_at sv i) name = Some (tc_index h) \<longrightarrow>
          (\<forall>key. tc_get c' h key = last_set name key (topic_get (session_at sv i) name key) ops)
          \<and> set (tc_keys c' h) = topic_keys (session_at sv i) name \<union> {key. \<exists>v. (name, key, v) \<in> set ops})
    \<and> talks sv' uuid i w \<and> shows_topics (cl_mirror c') (session_at sv' i) \<and> following c' \<and> keeps_types ty (session_at sv' i)"
proof -
  obtain sv' out fs where s: "server_run env (map (\<lambda>op. (now, topic_input uuid op)) ops) sv = fine sv' out"
    "encodeBatch fs = Inr (bytes_to w out)" "talks sv' uuid i w"
    "topic_told ty (cl_mirror c) (session_at sv i) fs (session_at sv' i)" "registrations fs \<le> length ops"
    "\<forall>n k. topic_get (session_at sv' i) n k = last_set n k (topic_get (session_at sv i) n k) ops"
    "\<forall>n. topic_keys (session_at sv' i) n = topic_keys (session_at sv i) n \<union> {k. \<exists>v. (n, k, v) \<in> set ops}"
    using topic_calls_told [OF assms(1,2,4-6), of env now] assms(1) by (metis put_session_simps(1,4))
  note told = s(4) [unfolded topic_told_def]
  obtain c' out' where c': "for_each (on_message who now') (chop (bytes_to w out)) (default_parser, c) = fine (default_parser, c') out'"
    "following c'" "cl_mirror c' = foldl mirror_frame (cl_mirror c) fs"
    using frames_kept_up [of c fs "bytes_to w out" "chop (bytes_to w out)" who now'] assms(3,7,8) s(2,5) told by auto
  have shown: "shows_topics (cl_mirror c') (session_at sv' i)" using told c'(3) by simp
  have reads: "(\<forall>key. tc_get c' h key = topic_get (session_at sv' i) name key) \<and> set (tc_keys c' h) = topic_keys (session_at sv' i) name"
    if "topic_index_of (session_at sv i) name = Some (tc_index h)" for name h
  proof -
    have "topic_index_of (session_at sv' i) name = Some (tc_index h)" using that told by simp
    then show ?thesis using client_reads_topics [OF c'(2) shown] by blast
  qed
  show ?thesis
    using s(1,3,6,7) c'(1,2) shown reads told
    by (intro exI [of _ sv'] exI [of _ out] exI [of _ c'] exI [of _ out']) simp
qed

text \<open>A server that has understood its client's two subscriptions, and the client, ready.\<close>

definition chat_subs :: subscriptions where
  "chat_subs = [(''chat'', []), (''news'', [])]"

definition chat_server :: server where
  "chat_server = fst (topic_syncs [chat_subs])"

definition chat_client :: client where
  "chat_client = assign_indices 0 chat_subs ((new_client ''u'' ''w'' default_reconnect)
     \<lparr>cl_subscriptions := chat_subs, cl_state := CS_Ready\<rparr>)"

lemma chat_facts:
  "let ss = session_at chat_server 0 in ss_topicHandles ss =
      [(''chat'', new_topic_handle ''chat'' [] (tp_bind (new_topic_payload 0))),
       (''news'', new_topic_handle ''news'' [] (tp_bind (new_topic_payload 1)))]
    \<and> ss_sessionEnqueue ss \<and> ss_nextKeyId ss = 1 \<and> sv_sessions chat_server = [(bytesToUuid (replicate 16 1), 0)]
    \<and> in_flushTo (sv_internals chat_server 0) = 1 \<and> conn_open chat_server 1"
  by code_simp

lemma fresh_payload_shown:
  assumes "0 \<le> idx" "mi_keys m = Map.empty"
  shows "shows_payload m nxt (tp_bind (new_topic_payload idx))"
  using assms by (simp add: shows_payload_def tp_bind_def new_topic_payload_def new_flat_state_def)
    (use fs_wf_new [of "topic_prefix idx" nxt] in \<open>simp add: new_flat_state_def\<close>)

lemma chat_joined:
  "talks chat_server (bytesToUuid (replicate 16 1)) 0 1" "following chat_client" "kr_size (cl_registry chat_client) = 0"
  "shows_topics (cl_mirror chat_client) (session_at chat_server 0)" "keeps_types ty (session_at chat_server 0)"
proof -
  note f = chat_facts [unfolded Let_def]
  show "talks chat_server (bytesToUuid (replicate 16 1)) 0 1" using f by (simp add: talks_def)
  have c: "cl_registry chat_client = new_registry 10000" "cl_store chat_client = []" "cl_topicKeyCache chat_client = []"
    "cl_pendingValues chat_client = []" "cl_state chat_client = CS_Ready" "cl_reconnect chat_client = new_reconnect default_reconnect"
    by (simp_all add: chat_client_def chat_subs_def new_client_def)
  show "following chat_client"
    by (simp add: following_def cache_current_def c new_reconnect_def) (simp add: new_registry_def)
  show "kr_size (cl_registry chat_client) = 0" by (simp add: c new_registry_def kr_size_def)
  have m: "mi_keys (cl_mirror chat_client) = Map.empty"
    by (simp add: cl_mirror_def c getByKeyId_def new_registry_def)
  show "shows_topics (cl_mirror chat_client) (session_at chat_server 0)"
    using f m fresh_payload_shown [OF _ m]
    by (intro shows_topicsI) (auto simp: om_wf_def new_topic_handle_def tp_bind_def new_topic_payload_def split: if_splits)
  show "keeps_types ty (session_at chat_server 0)"
    using f by (auto simp: keeps_types_def new_topic_handle_def tp_bind_def new_topic_payload_def new_flat_state_def split: if_splits)
qed

theorem topic_data_reaches_client_witness:
  "\<exists>sv' out c' out'.
      server_run plain_env (map (\<lambda>op. (0, topic_input (bytesToUuid (replicate 16 1)) op))
        [(''chat'', ''a'', PBool True), (''news'', ''a'', PInt32 7), (''chat'', ''a'', PBool False)]) chat_server = fine sv' out
    \<and> for_each (on_message Io_Thread 0) [bytes_to 1 out] (default_parser, chat_client) = fine (default_parser, c') out'
    \<and> (\<forall>(name, h) \<in> set (cl_topicHandles chat_client). tc_get c' h ''a'' = (if name = ''chat'' then PBool False else PInt32 7))"
proof -
  let ?ops = "[(''chat'', ''a'', PBool True), (''news'', ''a'', PInt32 7), (''chat'', ''a'', PBool False)]"
  let ?ty = "\<lambda>name key :: string. if name = ''chat'' then DT_Bool else DT_VarInteger"
  note f = chat_facts [unfolded Let_def]
  have i: "topic_index_of (session_at chat_server 0) ''chat'' = Some 0" "topic_index_of (session_at chat_server 0) ''news'' = Some 1"
    using f by (simp_all add: topic_index_of_def new_topic_handle_def tp_bind_def new_topic_payload_def)
  have paths: "check_key_path (topic_prefix 0 @ ''a'') = Inr ()" "check_key_path (topic_prefix 1 @ ''a'') = Inr ()" by code_simp+
  have ok: "list_all (topic_op_ok ?ty (session_at chat_server 0)) ?ops"
    using i paths faithful_detected [of "PBool True"] faithful_detected [of "PBool False"] faithful_detected [of "PInt32 7"]
    by (simp add: topic_op_ok_def body_length_def frame_payload_def isKeyRegistrationFrame_def serializeVarInteger_def
        order_trans [OF encodeVarInt_length(2)])
  have cut: "\<forall>bs :: bytes. concat [bs] = bs" by simp
  have size: "unat (ss_nextKeyId (session_at chat_server 0)) + length ?ops < 2 ^ 32"
    "kr_size (cl_registry chat_client) + length ?ops \<le> 10000"
    using f by (simp_all add: chat_joined(3))
  have h: "cl_topicHandles chat_client = [(''chat'', \<lparr>tc_name = ''chat'', tc_index = 0, tc_onUpdate = 0, tc_dirty = False\<rparr>),
      (''news'', \<lparr>tc_name = ''news'', tc_index = 1, tc_onUpdate = 0, tc_dirty = False\<rparr>)]"
    by code_simp
  from topic_data_reaches_client [OF chat_joined(1,4,2,5) ok size cut, of plain_env 0 Io_Thread 0] show ?thesis
  proof (elim exE conjE, goal_cases)
    case (1 sv' out c' out')
    have "\<forall>(name, h) \<in> set (cl_topicHandles chat_client). tc_get c' h ''a'' = (if name = ''chat'' then PBool False else PInt32 7)"
      using 1(3) i by (simp add: h last_set_def)
    then show ?case using 1(1,2) by blast
  qed
qed

end
