(* ===== verification/Client_Topics.thy ===== *)
theory Client_Topics
  imports Joining
begin

text \<open>
  The client's side of topics: what a client says that has subscribed to topics before it connects, what
  it says when the server lets it in, and that its handles keep the numbers it gave them. The
  transport delivers each call of \<open>send\<close> as one message.
\<close>

section \<open>Messages\<close>

definition messages :: "client_out list \<Rightarrow> bytes list" where
  "messages out = concat (map (\<lambda>ev. case ev of Out_Send data \<Rightarrow> [data] | _ \<Rightarrow> []) out)"

lemma messages_simps [simp]:
  "messages [] = []" "messages (Out_Send data # out) = data # messages out" "messages (out @ out') = messages out @ messages out'"
  "messages (Out_Ready # out) = messages out" "messages (Out_WsConnect u # out) = messages out" "messages (Out_Connect # out) = messages out"
  "messages (Out_Receive p v # out) = messages out" "messages (Out_TopicReceive n p v # out) = messages out"
  "messages (Out_Update # out) = messages out" "messages (Out_TopicUpdate n # out) = messages out"
  "messages (map Out_Send datas) = datas"
  by (simp_all add: messages_def) (induction datas, simp_all)

text \<open>A message that arrives at the server.\<close>

definition message_input :: "int \<Rightarrow> nat \<Rightarrow> bytes \<Rightarrow> int \<times> server_input" where
  "message_input t w data = (t, SI_Message w data)"

text \<open>The frames that a list of messages holds, one in each.\<close>

definition holds_frames :: "bytes list \<Rightarrow> frame list \<Rightarrow> bool" where
  "holds_frames datas fs \<longleftrightarrow> list_all2 (\<lambda>data f. encode f = Inr data) datas fs"

lemma holds_simps [simp]:
  "holds_frames [] []" "holds_frames (d # ds) (f # fs) \<longleftrightarrow> encode f = Inr d \<and> holds_frames ds fs"
  "holds_frames ds [] \<longleftrightarrow> ds = []"
  by (simp_all add: holds_frames_def)

lemma send_frames:
  assumes "ws_open c" "list_all transportable fs"
  shows "\<exists>datas. for_each sendFrame fs c = fine c (map Out_Send datas) \<and> holds_frames datas fs"
  using assms(2)
proof (induction fs)
  case (Cons f fs)
  then obtain data datas where "encode f = Inr data" "for_each sendFrame fs c = fine c (map Out_Send datas)" "holds_frames datas fs"
    using transportable_encode by fastforce
  moreover have "sendFrame f c = fine c [Out_Send data]" using calculation(1) assms(1) by (simp add: sendFrame_def sendRaw_def)
  ultimately show ?case by (intro exI [of _ "data # datas"]) simp
qed simp

text \<open>Subscriptions whose description can be sent.\<close>

definition describable :: "(string \<times> payload) list \<Rightarrow> bool" where
  "describable es \<longleftrightarrow> length es \<le> 10000 \<and> list_all (\<lambda>(p, v). check_key_path p = Inr ()
     \<and> faithful_value (detectDataType v) v \<and> body_length (mk_frame ClientValue 0 (detectDataType v) v) \<le> 1048576) es"

lemma describable_travels:
  assumes "describable es" "f \<in> set (topic_sync_frames es)"
  shows "transportable f" "body_length f \<le> 1048576"
proof -
  have dt: "dt_canonical (detectDataType v)" for v by (cases v) simp_all
  have es: "check_key_path p = Inr ()" "faithful_value (detectDataType v) v" "body_length (mk_frame ClientValue 0 (detectDataType v) v) \<le> 1048576"
    if "(p, v) \<in> set es" for p v
    using assms(1) that by (auto simp: describable_def list_all_iff)
  have len: "length p \<le> 200" if "(p, v) \<in> set es" for p v
    using es(1) [OF that] by (auto simp: check_key_path_def MAX_KEY_PATH_BYTES_def split: if_splits)
  have mem: "(p, v) \<in> set es" if "(m, p, v) \<in> set (enumerate 1 es)" for m p v
    using that by (auto simp: in_set_conv_nth nth_enumerate_eq)
  consider (sig) ft where "f = signal ft 0" "ft = ClientReset \<or> ft = ClientSync"
    | (reg) k p v where "f = mk_frame ClientKeyRegistration k (detectDataType v) (PString p)" "(p, v) \<in> set es"
    | (val) k p v where "f = mk_frame ClientValue k (detectDataType v) v" "(p, v) \<in> set es"
    using assms(2) by (auto simp: topic_sync_frames_def dest!: mem simp del: One_nat_def)
  then have "transportable f \<and> body_length f \<le> 1048576"
  proof cases
    case sig
    then show ?thesis
      by (auto simp: body_length_def frame_payload_def isKeyRegistrationFrame_def)
  next
    case reg
    then show ?thesis
      using len [OF reg(2)] by (simp_all add: body_length_def frame_payload_def isKeyRegistrationFrame_def)
  next
    case val
    then show ?thesis
      using es [OF val(2)] transportable_value [of "detectDataType v" v ClientValue k, OF _ dt]
      by (simp_all add: body_length_def frame_payload_def isKeyRegistrationFrame_def)
  qed
  then show "transportable f" "body_length f \<le> 1048576" by blast+
qed


section \<open>Numbering the topics\<close>

lemma assign_fields:
  "\<exists>im it hs. assign_indices idx subs c = c\<lparr>cl_topicIndexMap := im, cl_indexToTopic := it, cl_topicHandles := hs\<rparr>"
proof (induction idx subs c rule: assign_indices.induct)
  case (1 idx c)
  then show ?case by (intro exI [of _ "cl_topicIndexMap c"] exI [of _ "cl_indexToTopic c"] exI [of _ "cl_topicHandles c"]) simp
next
  case (2 idx name params subs c)
  then show ?case by (fastforce simp: Let_def)
qed

definition topic_number :: "client \<Rightarrow> string \<Rightarrow> int option" where
  "topic_number c name = map_option tc_index (map_of (cl_topicHandles c) name)"

lemma assign_numbers:
  assumes "om_wf (cl_topicHandles c)" "distinct (map fst subs)"
  shows "om_wf (cl_topicHandles (assign_indices idx subs c))
    \<and> (\<forall>name. name \<notin> fst ` set subs \<longrightarrow> topic_number (assign_indices idx subs c) name = topic_number c name)
    \<and> (\<forall>j < length subs. topic_number (assign_indices idx subs c) (fst (subs ! j)) = Some (idx + int j))"
  using assms
proof (induction idx subs c rule: assign_indices.induct)
  case (2 idx name params subs c)
  define h where "h = (case map_of (cl_topicHandles c) name of Some h \<Rightarrow> tc_setIndex idx h | None \<Rightarrow> new_topic_client_handle name idx)"
  let ?c = "c\<lparr>cl_topicIndexMap := om_put name idx (cl_topicIndexMap c), cl_indexToTopic := om_put idx name (cl_indexToTopic c),
      cl_topicHandles := om_put name h (cl_topicHandles c)\<rparr>"
  have step: "assign_indices idx ((name, params) # subs) c = assign_indices (idx + 1) subs ?c" by (simp add: h_def Let_def)
  have h: "tc_index h = idx" by (simp add: h_def tc_setIndex_def split: option.split)
  have "topic_number ?c n = (if n = name then Some idx else topic_number c n)" for n
    using 2(2) h by (simp add: topic_number_def)
  moreover have "om_wf (cl_topicHandles ?c)" "distinct (map fst subs)" "name \<notin> fst ` set subs" using 2(2,3) by simp_all
  moreover note 2(1) [OF refl, folded h_def, OF this(1,2)]
  ultimately show ?case
    unfolding step by (auto simp: less_Suc_eq_0_disj)
qed simp

text \<open>Every topic that is subscribed to has a handle, whose number is the topic's position.\<close>

definition numbered :: "client \<Rightarrow> bool" where
  "numbered c \<longleftrightarrow> om_wf (cl_subscriptions c) \<and> om_wf (cl_topicHandles c)
     \<and> (\<forall>j < length (cl_subscriptions c). topic_number c (fst (cl_subscriptions c ! j)) = Some (int j))"

lemma assign_numbered:
  assumes "om_wf (cl_topicHandles c)" "om_wf (cl_subscriptions c)"
  shows "numbered (assign_indices 0 (cl_subscriptions c) c)"
proof -
  have "distinct (map fst (cl_subscriptions c))" using assms(2) by (simp add: om_wf_def strict_sorted_iff)
  from assign_numbers [OF assms(1) this, of 0] assign_fields [of 0 "cl_subscriptions c" c] show ?thesis
    using assms(2) by (auto simp: numbered_def)
qed


text \<open>Whatever the server sends, the numbers stay.\<close>

abbreviation keeps_numbers :: "cres \<Rightarrow> bool" where
  "keeps_numbers r \<equiv> keeps numbered (\<lambda>_. True) r"

named_theorems number_intros \<open>client operations keep the numbers of topics\<close>

lemma numbered_fields [simp]:
  "numbered (c\<lparr>cl_state := st\<rparr>) = numbered c"
  "numbered (c\<lparr>cl_intentionalDisconnect := b\<rparr>) = numbered c"
  "numbered (c\<lparr>cl_ws := w\<rparr>) = numbered c"
  "numbered (c\<lparr>cl_registry := kr\<rparr>) = numbered c"
  "numbered (c\<lparr>cl_store := vs\<rparr>) = numbered c"
  "numbered (c\<lparr>cl_pendingValues := ps\<rparr>) = numbered c"
  "numbered (c\<lparr>cl_topicDirty := b\<rparr>) = numbered c"
  "numbered (c\<lparr>cl_topicIndexMap := im\<rparr>) = numbered c"
  "numbered (c\<lparr>cl_indexToTopic := it\<rparr>) = numbered c"
  "numbered (c\<lparr>cl_reconnect := rc\<rparr>) = numbered c"
  "numbered (c\<lparr>cl_heartbeat := hb\<rparr>) = numbered c"
  "numbered (c\<lparr>cl_topicKeyCache := tk\<rparr>) = numbered c"
  by (simp_all add: numbered_def topic_number_def)

lemma numbered_handle [simp]:
  assumes "map_of (cl_topicHandles c) name = Some h" "tc_index h' = tc_index h"
  shows "numbered c \<Longrightarrow> numbered (c\<lparr>cl_topicHandles := om_put name h' (cl_topicHandles c)\<rparr>)"
  using assms by (auto simp: numbered_def topic_number_def)

lemma numbers_sendFrame [number_intros]: "numbered c \<Longrightarrow> keeps_numbers (sendFrame f c)"
  by (auto simp: sendFrame_def sendRaw_def intro!: keeps_intros split: sum.split)

lemma numbers_topic_sync [number_intros]:
  assumes "numbered c"
  shows "keeps_numbers (sendTopicSync c)"
proof -
  let ?c = "c\<lparr>cl_topicIndexMap := [], cl_indexToTopic := []\<rparr>"
  have "numbered (assign_indices 0 (cl_subscriptions c) ?c)"
    using assign_numbered [of ?c] assms by (simp add: numbered_def)
  then show ?thesis
    using assms unfolding sendTopicSync_def by (auto intro!: keeps_intros number_intros simp: Let_def)
qed

lemma numbers_getTopicInfo [simp]: "numbered (fst (getTopicInfo c k path)) = numbered c"
  by (auto simp: getTopicInfo_def Let_def split: option.split)

lemma numbers_put_value [simp]: "numbered (put_value k v c) = numbered c"
  by (simp add: put_value_def)

lemma numbers_shifts [simp]:
  "numbered (shift_left_loop prefix m n c) = numbered c" "numbered (shift_right_loop prefix m n c) = numbered c"
proof -
  have "numbered (copy_element prefix i j c) = numbered c" for i j c
    by (auto simp: copy_element_def split: option.split)
  then have "numbered (foldl (\<lambda>c i. copy_element prefix (f i) (g i) c) c is) = numbered c" for f g "is"
    by (induction "is" arbitrary: c) simp_all
  then show "numbered (shift_left_loop prefix m n c) = numbered c" "numbered (shift_right_loop prefix m n c) = numbered c"
    by (simp_all add: shift_left_loop_def shift_right_loop_def)
qed

lemma numbers_deliver [number_intros]: "numbered c \<Longrightarrow> keeps_numbers (deliver info path v c)"
  by (auto simp: deliver_def tc_notify_def intro!: keeps_intros split: option.split)

lemma numbers_flush [number_intros]: "numbered c \<Longrightarrow> keeps_numbers (flush_topic name c)"
  by (auto simp: flush_topic_def intro!: keeps_intros split: option.split)

lemma numbers_ready [number_intros]: "numbered c \<Longrightarrow> keeps_numbers (become_ready who c)"
  unfolding become_ready_def by (auto intro!: keeps_intros number_intros)

lemma numbers_cleanup [number_intros]: "numbered c \<Longrightarrow> keeps_numbers (cleanup who c)"
  unfolding cleanup_def stop_heartbeat_def drop_ws_def by (auto intro!: keeps_intros split: option.split)

lemma numbers_handleFrame [number_intros]: "numbered c \<Longrightarrow> keeps_numbers (handleFrame who f c)"
  by (cases "frameType f")
    (auto simp: handleFrame_def leave_identifying_def on_AuthFail_def on_ServerKeyRegistration_def on_ServerSync_def on_ServerValue_def
      on_ArrayShiftLeft_def on_ArrayShiftRight_def deliver_length_def on_ServerFlushEnd_def
      on_ServerKeyDelete_def on_ServerReset_def on_Error_def Let_def case_prod_unfold
      intro!: keeps_intros number_intros split: option.split payload.split)


section \<open>A client that is ready\<close>

text \<open>It answers nothing of what a well-behaved server tells it.\<close>

lemma deliver_quiet: "deliver info path v c = fine c' out \<Longrightarrow> messages out = [] \<and> cl_state c' = cl_state c"
  by (auto simp: deliver_def split: option.splits)

lemma flush_quiet: "for_each flush_topic names c = fine c' out \<Longrightarrow> messages out = [] \<and> cl_state c' = cl_state c"
proof (induction names arbitrary: c out)
  case (Cons name names)
  have "messages out1 = [] \<and> cl_state c1 = cl_state c" if "flush_topic name c = fine c1 out1" for c1 out1
    using that by (auto simp: flush_topic_def split: option.splits if_splits)
  then show ?case using Cons by (fastforce elim!: and_then_fine)
qed simp

lemma getTopicInfo_state: "getTopicInfo c k path = (c', info) \<Longrightarrow> cl_state c' = cl_state c"
  by (auto simp: getTopicInfo_def Let_def split: option.splits)

lemma ready_is_quiet:
  assumes "following c" "cl_state c = CS_Ready" "acceptable (cl_mirror c) f" "settled (cl_mirror c) f" "handleFrame who f c = fine c' out"
  shows "cl_state c' = CS_Ready \<and> messages out = []"
proof (cases "frameType f")
  case ServerKeyRegistration
  then show ?thesis
    using assms by (auto simp: handleFrame_def on_ServerKeyRegistration_def leave_identifying_def following_def run_res_def Let_def fine_def
        split: payload.splits sum.splits)
next
  case ServerValue
  then obtain e where e: "getByKeyId (cl_registry c) (keyId f) = Some e"
    using assms(3) by (auto simp: acceptable_def cl_mirror_def)
  obtain c1 info where c1: "getTopicInfo (put_value (keyId f) (payload f) c) (keyId f) (ke_path e) = (c1, info)" by fastforce
  have "cl_state c1 = CS_Ready" using getTopicInfo_state [OF c1] assms(2) by (simp add: put_value_def)
  moreover have "hasKeyId (cl_registry c) (keyId f)" using e by (simp add: hasKeyId_def getByKeyId_def)
  moreover have "cl_registry (put_value (keyId f) (payload f) c) = cl_registry c" by (simp add: put_value_def)
  ultimately show ?thesis
    using assms(5) ServerValue e c1
    by (auto simp: handleFrame_def on_ServerValue_def elim!: and_then_fine dest!: deliver_quiet split: if_splits)
next
  case ServerSync
  then have "kr_size (cl_registry c) \<noteq> 0"
    using assms(4) by (auto simp: settled_def cl_mirror_def getByKeyId_def kr_size_def)
  then show ?thesis using assms(2,5) ServerSync by (auto simp: handleFrame_def on_ServerSync_def leave_identifying_def)
next
  case ServerFlushEnd
  obtain c1 out1 where f: "for_each flush_topic (map fst (cl_topicHandles c)) c = fine c1 out1"
    using flush_topics_same by blast
  from flush_quiet [OF this] show ?thesis
    using assms(2,5) ServerFlushEnd by (auto simp: handleFrame_def on_ServerFlushEnd_def f)
next
  case ServerKeyDelete
  then show ?thesis
    using assms(2,5)
    by (auto simp: handleFrame_def on_ServerKeyDelete_def Let_def fine_def dest!: getTopicInfo_state split: option.splits prod.splits if_splits)
qed (use assms(3,4) in \<open>simp_all add: acceptable_def settled_def\<close>)

lemma ready_follows:
  assumes "following c" "cl_state c = CS_Ready" "numbered c" "acceptable_all (cl_mirror c) fs" "settled_all (cl_mirror c) fs"
    "kr_size (cl_registry c) + registrations fs \<le> 10000"
  shows "\<exists>c' out. for_each (handleFrame who) fs c = fine c' out \<and> messages out = [] \<and> following c' \<and> numbered c'
    \<and> cl_state c' = CS_Ready \<and> cl_mirror c' = foldl mirror_frame (cl_mirror c) fs \<and> cl_subscriptions c' = cl_subscriptions c
    \<and> kr_size (cl_registry c') \<le> kr_size (cl_registry c) + registrations fs"
  using assms
proof (induction fs arbitrary: c)
  case (Cons f fs)
  obtain c1 out1 where 1: "handleFrame who f c = fine c1 out1" "following c1"
    "cl_mirror c1 = mirror_frame (cl_mirror c) f" "cl_subscriptions c1 = cl_subscriptions c"
    "kr_size (cl_registry c1) \<le> kr_size (cl_registry c) + registrations [f]"
    using follow_frame [of c f who] Cons.prems by auto
  have 2: "cl_state c1 = CS_Ready" "messages out1 = []" using ready_is_quiet [OF _ _ _ _ 1(1)] Cons.prems by auto
  have "numbered c1" using keepsD(1) [OF numbers_handleFrame [OF Cons.prems(3)]] 1(1) by (metis fine_def fst_conv)
  then obtain c2 out2 where "for_each (handleFrame who) fs c1 = fine c2 out2" "messages out2 = []" "following c2" "numbered c2"
    "cl_state c2 = CS_Ready" "cl_mirror c2 = foldl mirror_frame (cl_mirror c1) fs" "cl_subscriptions c2 = cl_subscriptions c1"
    "kr_size (cl_registry c2) \<le> kr_size (cl_registry c1) + registrations fs"
    using Cons.IH [of c1] Cons.prems 1 2(1) by auto
  then show ?case using 1 2(2) by auto
qed simp


section \<open>Subscribing and connecting\<close>

definition subscribed :: "(string \<times> (string \<times> payload) list) list \<Rightarrow> subscriptions" where
  "subscribed calls = foldl (\<lambda>subs (name, params). om_put name params subs) [] calls"

lemma client_run_append: "client_run (ins @ ins') w = and_then (client_run ins w) (client_run ins')"
proof (induction ins arbitrary: w)
  case (Cons x ins)
  obtain now jitter inp where x: "x = (now, jitter, inp)" by (cases x)
  have "client_run (ins @ ins') = (\<lambda>w. and_then (client_run ins w) (client_run ins'))" by (rule ext) (rule Cons)
  then show ?case by (simp add: x and_then_assoc)
qed simp

lemma subscribes_offline:
  assumes "cl_ws c = None"
  shows "client_run (map (\<lambda>(name, params). (t, j, In_Subscribe name params)) calls) (p, c)
    = fine (p, c\<lparr>cl_subscriptions := foldl (\<lambda>subs (name, params). om_put name params subs) (cl_subscriptions c) calls,
                 cl_topicDirty := cl_topicDirty c \<or> calls \<noteq> []\<rparr>) []"
  using assms
proof (induction calls arbitrary: c)
  case (Cons x calls)
  obtain name params where x: "x = (name, params)" by (cases x)
  have "client_step t j (In_Subscribe name params) (p, c)
      = fine (p, c\<lparr>cl_subscriptions := om_put name params (cl_subscriptions c), cl_topicDirty := True\<rparr>) []"
    using Cons.prems by (simp add: client_step_def subscribe_def sendTopicSync_def ws_open_def)
  then show ?case using Cons by (simp add: x)
qed simp

lemma om_wf_subscribed: "om_wf (subscribed calls)"
proof -
  have "om_wf subs \<Longrightarrow> om_wf (foldl (\<lambda>subs (name, params). om_put name params subs) subs calls)" for subs
    by (induction calls arbitrary: subs) auto
  then show ?thesis by (simp add: subscribed_def)
qed

text \<open>The client before the server has said anything, and what it has sent.\<close>

definition unheard :: "subscriptions \<Rightarrow> client \<Rightarrow> bool" where
  "unheard subs c \<longleftrightarrow> ws_open c \<and> cl_state c = CS_Identifying \<and> cl_registry c = new_registry 10000 \<and> cl_store c = []
     \<and> cl_pendingValues c = [] \<and> cl_topicKeyCache c = [] \<and> \<not> rc_active (cl_reconnect c)
     \<and> cl_subscriptions c = subs \<and> numbered c"

lemma topic_sync_sent:
  assumes "ws_open c" "describable (sync_entries 0 (cl_subscriptions c))" "om_wf (cl_topicHandles c)" "om_wf (cl_subscriptions c)"
  shows "\<exists>c' datas im it hs. sendTopicSync c = fine c' (map Out_Send datas)
    \<and> holds_frames datas (topic_sync_frames (sync_entries 0 (cl_subscriptions c)))
    \<and> c' = c\<lparr>cl_topicIndexMap := im, cl_indexToTopic := it, cl_topicHandles := hs, cl_topicDirty := False\<rparr> \<and> numbered c'"
proof -
  let ?c = "c\<lparr>cl_topicIndexMap := [], cl_indexToTopic := []\<rparr>"
  obtain im it hs where a: "assign_indices 0 (cl_subscriptions c) ?c = c\<lparr>cl_topicIndexMap := im, cl_indexToTopic := it, cl_topicHandles := hs\<rparr>"
    using assign_fields [of 0 "cl_subscriptions c" ?c] by auto
  have "list_all transportable (topic_sync_frames (sync_entries 0 (cl_subscriptions c)))"
    using describable_travels(1) [OF assms(2)] by (simp add: list_all_iff)
  moreover have "ws_open (assign_indices 0 (cl_subscriptions c) ?c)" using assms(1) by (simp add: a ws_open_def)
  ultimately obtain datas where "for_each sendFrame (topic_sync_frames (sync_entries 0 (cl_subscriptions c))) (assign_indices 0 (cl_subscriptions c) ?c)
      = fine (assign_indices 0 (cl_subscriptions c) ?c) (map Out_Send datas)"
    "holds_frames datas (topic_sync_frames (sync_entries 0 (cl_subscriptions c)))"
    using send_frames by blast
  moreover have "cl_subscriptions (assign_indices 0 (cl_subscriptions c) ?c) = cl_subscriptions c" by (simp add: a)
  moreover have "numbered (assign_indices 0 (cl_subscriptions c) ?c)" using assign_numbered [of ?c] assms(3,4) by simp
  ultimately show ?thesis
    using assms(1)
    by (intro exI [of _ "assign_indices 0 (cl_subscriptions c) ?c\<lparr>cl_topicDirty := False\<rparr>"] exI [of _ datas] exI [of _ im] exI [of _ it] exI [of _ hs])
      (simp add: sendTopicSync_def Let_def, simp add: a)
qed

lemma client_subscribes_and_opens:
  assumes "length me = 16" "subscribed calls \<noteq> []" "describable (sync_entries 0 (subscribed calls))"
  shows "\<exists>c out. client_run (map (\<lambda>(name, params). (t, j, In_Subscribe name params)) calls
        @ [(t, j, In_Connect Connect_Returns), (t, j, In_Open)]) (new_whole_client (format_uuid me) url opt) = fine (default_parser, c) out
    \<and> holds_frames (messages out) (identification me # topic_sync_frames (sync_entries 0 (subscribed calls)))
    \<and> unheard (subscribed calls) c"
proof -
  let ?c = "(new_client (format_uuid me) url opt)\<lparr>cl_subscriptions := subscribed calls, cl_topicDirty := True\<rparr>"
  have "calls \<noteq> []" using assms(2) by (auto simp: subscribed_def)
  then have subs: "client_run (map (\<lambda>(name, params). (t, j, In_Subscribe name params)) calls) (new_whole_client (format_uuid me) url opt)
      = fine (default_parser, ?c) []"
    using subscribes_offline [of "new_client (format_uuid me) url opt" t j calls default_parser]
    by (simp add: new_whole_client_def subscribed_def new_client_def)
  obtain hello where hello: "encode (identification me) = Inr hello"
    using identification_facts(1) [OF assms(1)] transportable_encode by blast
  obtain hb where hb: "hb_start False t new_heartbeat = Inr hb"
    by (simp add: hb_start_def hb_stop_def new_heartbeat_def assign_thread_def joinable_def)
  let ?c1 = "?c\<lparr>cl_state := CS_Identifying, cl_ws := Some True, cl_heartbeat := hb\<rparr>"
  have "om_wf (cl_topicHandles ?c1)" "om_wf (cl_subscriptions ?c1)" "ws_open ?c1" "describable (sync_entries 0 (cl_subscriptions ?c1))"
    using assms(3) by (simp_all add: new_client_def om_wf_subscribed ws_open_def)
  then obtain c' datas im it hs where sync: "sendTopicSync ?c1 = fine c' (map Out_Send datas)"
    "holds_frames datas (topic_sync_frames (sync_entries 0 (subscribed calls)))"
    "c' = ?c1\<lparr>cl_topicIndexMap := im, cl_indexToTopic := it, cl_topicHandles := hs, cl_topicDirty := False\<rparr>" "numbered c'"
    using topic_sync_sent [of ?c1] by auto
  have "client_run [(t, j, In_Connect Connect_Returns), (t, j, In_Open)] (default_parser, ?c)
      = fine (default_parser, c') (Out_WsConnect url # Out_Send hello # Out_Connect # map Out_Send datas)"
    using hb hello identify_payload_uuid [OF assms(1)] sync(1) assms(2)
    by (simp add: client_step_def connect_def handleOpen_def run_res_def identification_def sendFrame_def sendRaw_def ws_open_def new_client_def)
  then have run: "client_run (map (\<lambda>(name, params). (t, j, In_Subscribe name params)) calls
        @ [(t, j, In_Connect Connect_Returns), (t, j, In_Open)]) (new_whole_client (format_uuid me) url opt)
      = fine (default_parser, c') (Out_WsConnect url # Out_Send hello # Out_Connect # map Out_Send datas)"
    by (simp only: client_run_append subs and_then_simps emit_before_simps append_Nil)
  have "unheard (subscribed calls) c'"
    using sync(4) by (simp add: unheard_def sync(3) ws_open_def new_client_def new_reconnect_def)
  then show ?thesis using run hello sync(2) by (intro exI [of _ c'] exI) (rule conjI, assumption, simp)
qed

text \<open>The server lets it in: it is ready, and describes its subscriptions once more.\<close>

lemma client_hears_sync:
  assumes "unheard subs c" "subs \<noteq> []" "describable (sync_entries 0 subs)" "encode (signal ClientReady 0) = Inr ready"
  shows "\<exists>c' out. handleFrame who (signal ServerSync 0) c = fine c' out
    \<and> holds_frames (messages out) (signal ClientReady 0 # topic_sync_frames (sync_entries 0 subs))
    \<and> following c' \<and> numbered c' \<and> cl_state c' = CS_Ready \<and> cl_mirror c' = empty_mirror \<and> cl_subscriptions c' = subs
    \<and> kr_size (cl_registry c') = 0"
proof -
  note c = assms(1) [unfolded unheard_def]
  let ?c = "c\<lparr>cl_state := CS_Ready\<rparr>"
  have "ws_open ?c" "describable (sync_entries 0 (cl_subscriptions ?c))" "om_wf (cl_topicHandles ?c)" "om_wf (cl_subscriptions ?c)"
    using c assms(3) by (auto simp: numbered_def ws_open_def)
  then obtain c' datas im it hs where sync: "sendTopicSync ?c = fine c' (map Out_Send datas)"
    "holds_frames datas (topic_sync_frames (sync_entries 0 subs))"
    "c' = ?c\<lparr>cl_topicIndexMap := im, cl_indexToTopic := it, cl_topicHandles := hs, cl_topicDirty := False\<rparr>" "numbered c'"
    using topic_sync_sent [of ?c] c by auto
  have size: "kr_size (new_registry 10000) = 0" by (simp add: kr_size_def new_registry_def)
  have h: "handleFrame who (signal ServerSync 0) c = fine c' (Out_Send ready # Out_Ready # map Out_Send datas)"
    using c assms(2,4) sync(1) size
    by (simp add: handleFrame_def on_ServerSync_def leave_identifying_def mk_frame_def sendFrame_def sendRaw_def ws_open_def become_ready_def)
  have "following c'" using c by (simp add: sync(3) following_def cache_current_def) (simp add: new_registry_def)
  moreover have "cl_mirror c' = empty_mirror" using c by (simp add: sync(3) cl_mirror_def empty_mirror_def getByKeyId_def new_registry_def)
  ultimately show ?thesis using h sync c assms(4) size by (intro exI [of _ c'] exI) (rule conjI, assumption, simp)
qed

end
