(* ===== verification/Topic_Joining.thy ===== *)
theory Topic_Joining
  imports Topic_Data Client_Topics Joining_Auth
begin

text \<open>
  A client joins a server in a topic mode: it subscribes to topics, connects, identifies itself and
  describes its subscriptions; the server makes a handle for each topic and lets its user fill it;
  the client becomes ready, describes its subscriptions once more, and reads the topics.
\<close>

section \<open>A session in a topic mode\<close>

text \<open>The client \<open>uuid\<close> on connection \<open>w\<close> has the active session \<open>i\<close>, which is \<open>ss\<close>.\<close>

definition hosts :: "server \<Rightarrow> nat \<Rightarrow> string \<Rightarrow> nat \<Rightarrow> session \<Rightarrow> bool" where
  "hosts sv w uuid i ss \<longleftrightarrow> isTopicMode sv \<and> sv_maxFramesPerSec sv = 0
     \<and> sv_conns sv w = \<lparr>cn_open = True, cn_attached = True, cn_parser = default_parser, cn_identified = True, cn_uuid = uuid\<rparr>
     \<and> map_of (sv_sessions sv) uuid = Some i \<and> in_flushTo (sv_internals sv i) = w \<and> session_at sv i = ss"

lemma hosts_talks: "hosts sv w uuid i ss \<Longrightarrow> talks sv uuid i w"
  by (simp add: hosts_def talks_def conn_open_def)

lemma hosts_simps [simp]:
  "hosts (sv\<lparr>sv_framesIn := n\<rparr>) w uuid i ss = hosts sv w uuid i ss"
  "hosts (upd_internal i (\<lambda>n. n\<lparr>in_clientRegistry := kr\<rparr>) sv) w uuid i ss = hosts sv w uuid i ss"
  "hosts (upd_internal i (\<lambda>n. n\<lparr>in_clientRegistry := kr, in_clientValues := ps\<rparr>) sv) w uuid i ss = hosts sv w uuid i ss"
  "hosts (upd_internal i (\<lambda>n. n\<lparr>in_clientValues := f n\<rparr>) sv) w uuid i ss = hosts sv w uuid i ss"
  "hosts (tell i es vs sv) w uuid i ss = hosts sv w uuid i ss"
  by (simp_all add: hosts_def upd_internal_def session_at_def isTopicMode_def tell_def)

lemma hosts_put: "hosts sv w uuid i ss \<Longrightarrow> hosts (put_session i ss' sv) w uuid i ss'"
  by (simp add: hosts_def put_session_def upd_internal_def session_at_def isTopicMode_def)

section \<open>The description of the subscriptions arrives\<close>

lemma topic_message:
  assumes "hosts sv w uuid i ss" "encode f = Inr data" "transportable f" "body_length f \<le> 1048576" "is_topic_frame (frameType f)"
  shows "server_step env t (SI_Message w data) sv = catching (handleClientTopicFrame env i f (sv\<lparr>sv_framesIn := sv_framesIn sv + 1\<rparr>))"
proof -
  note h = assms(1) [unfolded hosts_def]
  have "frameType f \<noteq> Auth" using assms(5) by (auto simp: is_topic_frame_def)
  then have "on_frame env w t f sv = handleClientTopicFrame env i f (sv\<lparr>sv_framesIn := sv_framesIn sv + 1\<rparr>)"
    using h assms(5) by (simp add: on_frame_def rate_limit_def isTopicMode_def)
  then show ?thesis using sv_message_frame [OF _ _ _ assms(3,2,4), of sv w env t] h by simp
qed

text \<open>All frames but the last are only stored.\<close>

lemma told_frame:
  assumes "frameType f \<noteq> ClientSync" "handleClientTopicFrame env i f sv = fine sv' out"
  shows "handleClientTopicFrame env i f (sv\<lparr>sv_framesIn := n\<rparr>) = fine (sv'\<lparr>sv_framesIn := n\<rparr>) out"
    and "hosts sv' w uuid i ss = hosts sv w uuid i ss"
proof -
  have "handleClientTopicFrame env i f (sv\<lparr>sv_framesIn := n\<rparr>) = fine (sv'\<lparr>sv_framesIn := n\<rparr>) out
      \<and> hosts sv' w uuid i ss = hosts sv w uuid i ss"
    using assms
    by (cases "frameType f"; cases "payload f")
      (auto simp: handleClientTopicFrame_def Let_def run_res_def fine_def upd_internal_def split: sum.splits,
       auto simp: hosts_def session_at_def isTopicMode_def)
  then show "handleClientTopicFrame env i f (sv\<lparr>sv_framesIn := n\<rparr>) = fine (sv'\<lparr>sv_framesIn := n\<rparr>) out"
    "hosts sv' w uuid i ss = hosts sv w uuid i ss" by blast+
qed

lemma told_frames:
  assumes "\<forall>f \<in> set fs. frameType f \<noteq> ClientSync" "for_each (handleClientTopicFrame env i) fs sv = fine sv' out"
  shows "for_each (handleClientTopicFrame env i) fs (sv\<lparr>sv_framesIn := n\<rparr>) = fine (sv'\<lparr>sv_framesIn := n\<rparr>) out"
  using assms
proof (induction fs arbitrary: sv out)
  case (Cons f fs)
  then obtain sv1 out1 out2 where "handleClientTopicFrame env i f sv = fine sv1 out1"
    "for_each (handleClientTopicFrame env i) fs sv1 = fine sv' out2" "out = out1 @ out2"
    by (auto elim: and_then_fine)
  then show ?case using Cons told_frame(1) [of f env i sv sv1 out1 n] by simp
qed simp

lemma frames_arrive:
  assumes "hosts sv w uuid i ss" "holds_frames datas fs"
    "\<forall>f \<in> set fs. transportable f \<and> body_length f \<le> 1048576 \<and> is_topic_frame (frameType f) \<and> frameType f \<noteq> ClientSync"
    "for_each (handleClientTopicFrame env i) fs sv = fine sv' []"
  shows "\<exists>n. server_run env (map (message_input t w) datas) sv = fine (sv'\<lparr>sv_framesIn := n\<rparr>) [] \<and> hosts sv' w uuid i ss"
  using assms
proof (induction fs arbitrary: sv sv' datas)
  case Nil
  then show ?case by (intro exI [of _ "sv_framesIn sv"]) simp
next
  case (Cons f fs)
  then obtain d ds where d: "datas = d # ds" "encode f = Inr d" "holds_frames ds fs"
    by (cases datas) (auto simp: holds_frames_def)
  obtain sv1 where 1: "handleClientTopicFrame env i f sv = fine sv1 []" "for_each (handleClientTopicFrame env i) fs sv1 = fine sv' []"
    using Cons.prems(4) by (auto elim: and_then_fine)
  let ?n = "sv_framesIn sv + 1"
  have f: "frameType f \<noteq> ClientSync" using Cons.prems(3) by simp
  have "server_step env t (SI_Message w d) sv = fine (sv1\<lparr>sv_framesIn := ?n\<rparr>) []"
    using topic_message [OF Cons.prems(1) d(2)] told_frame(1) [OF f 1(1)] Cons.prems(3) by simp
  moreover have "hosts (sv1\<lparr>sv_framesIn := ?n\<rparr>) w uuid i ss" using told_frame(2) [OF f 1(1)] Cons.prems(1) by simp
  moreover have "for_each (handleClientTopicFrame env i) fs (sv1\<lparr>sv_framesIn := ?n\<rparr>) = fine (sv'\<lparr>sv_framesIn := ?n\<rparr>) []"
    using told_frames [OF _ 1(2)] Cons.prems(3) by simp
  ultimately show ?case
    using Cons.IH [of "sv1\<lparr>sv_framesIn := ?n\<rparr>" ds "sv'\<lparr>sv_framesIn := ?n\<rparr>"] d Cons.prems(3) by (auto simp: message_input_def)
qed


text \<open>The last frame has the server read what it has stored.\<close>

lemma topic_frame_kinds:
  "f \<in> set (topic_sync_frames es) \<Longrightarrow> is_topic_frame (frameType f)"
  "f \<in> set (butlast (topic_sync_frames es)) \<Longrightarrow> frameType f \<noteq> ClientSync"
  by (auto simp: topic_sync_frames_def butlast_append is_topic_frame_def)

lemma description_arrives:
  assumes h: "hosts sv w uuid i ss" and data: "holds_frames datas (topic_sync_frames es)" and es: "describable es" "distinct (map fst es)"
  shows "\<exists>n. server_run env (map (message_input t w) datas) sv = catching (processTopicSync env i (tell i es es sv\<lparr>sv_framesIn := n\<rparr>))"
proof -
  let ?fs = "butlast (topic_sync_frames es)" and ?last = "signal ClientSync 0"
  have split: "topic_sync_frames es = ?fs @ [?last]" by (simp add: topic_sync_frames_def butlast_append)
  have "holds_frames datas (?fs @ [?last])" unfolding split [symmetric] by (rule data)
  then obtain datas0 d where d: "datas = datas0 @ [d]" "holds_frames datas0 ?fs" "encode ?last = Inr d"
    unfolding holds_frames_def list_all2_append2 by (auto simp: list_all2_Cons2)
  have valid: "\<forall>(p, v) \<in> set es. check_key_path p = Inr ()" "length es \<le> 10000"
    using es(1) by (auto simp: describable_def list_all_iff)
  have told: "for_each (handleClientTopicFrame env i) ?fs sv = fine (tell i es es sv) []"
    by (rule told_all [OF es(2) valid(2,1)])
  have "\<forall>f \<in> set ?fs. transportable f \<and> body_length f \<le> 1048576 \<and> is_topic_frame (frameType f) \<and> frameType f \<noteq> ClientSync"
    using describable_travels [OF es(1)] topic_frame_kinds [of _ es] in_set_butlastD by metis
  from frames_arrive [OF h d(2) this told] obtain n where n: "server_run env (map (message_input t w) datas0) sv = fine (tell i es es sv\<lparr>sv_framesIn := n\<rparr>) []"
    by blast
  have small: "body_length ?last \<le> 1048576" by (simp add: body_length_def frame_payload_def isKeyRegistrationFrame_def)
  have kind: "is_topic_frame (frameType ?last)" by (simp add: is_topic_frame_def)
  have h': "hosts (tell i es es sv\<lparr>sv_framesIn := n\<rparr>) w uuid i ss" using h by simp
  have t: "transportable ?last" by simp
  have "server_step env t (SI_Message w d) (tell i es es sv\<lparr>sv_framesIn := n\<rparr>)
      = catching (processTopicSync env i (tell i es es sv\<lparr>sv_framesIn := n + 1\<rparr>))"
    using topic_message [OF h' d(3) t small kind] by (simp add: handleClientTopicFrame_def)
  then have "server_run env (map (message_input t w) datas) sv
      = catching (processTopicSync env i (tell i es es sv\<lparr>sv_framesIn := n + 1\<rparr>))"
    unfolding d(1) map_append server_run_append n by (simp add: message_input_def)
  then show ?thesis by blast
qed

section \<open>The server makes the handles\<close>

text \<open>A new handle is shown by every mirror that has nothing under its number.\<close>

lemma topic_created:
  assumes m: "shows_topics m ss" "keeps_types ty ss" and under: "\<forall>k p t. mi_keys m k = Some (p, t) \<longrightarrow> under_topics ss p"
    and new: "topic_index_of ss name = None" "\<forall>n. topic_index_of ss n \<noteq> Some idx" and idx: "0 \<le> idx" "idx < INT_MAX"
  shows "\<exists>ss'. ss_createTopicHandle ss name params idx = Inr ss' \<and> shows_topics m ss' \<and> keeps_types ty ss'
    \<and> topic_index_of ss' = (topic_index_of ss)(name \<mapsto> idx) \<and> map_option th_name (ss_getTopicHandle ss' name) = Some name
    \<and> ss_nextKeyId ss' = ss_nextKeyId ss \<and> topic_get ss' = topic_get ss \<and> topic_keys ss' = topic_keys ss \<and> same_protocol ss ss'"
proof -
  note t = m(1) [unfolded shows_topics_def]
  define tp where "tp = tp_bind (new_topic_payload idx)"
  have store: "tp_flatState tp = new_flat_state (topic_prefix idx)" "tp_index tp = idx" "tp_bound tp"
    by (simp_all add: tp_def tp_bind_def new_topic_payload_def)
  define th where "th = new_topic_handle name params tp"
  have th: "th_payload th = tp" "th_name th = name" by (simp_all add: th_def new_topic_handle_def)
  let ?ss = "ss\<lparr>ss_topicIndex := if ss_topicIndex ss \<le> idx then idx + 1 else ss_topicIndex ss,
      ss_topicHandles := om_put name th (ss_topicHandles ss)\<rparr>"
  have old: "map_of (ss_topicHandles ss) name = None" using new(1) by (simp add: topic_index_of_def)
  have look: "map_of (ss_topicHandles ?ss) n = (if n = name then Some th else map_of (ss_topicHandles ss) n)" for n
    using t by simp
  have index: "topic_index_of ?ss = (topic_index_of ss)(name \<mapsto> idx)"
    by (rule ext) (use t in \<open>simp add: topic_index_of_def th store\<close>)
  have "mi_keys m k \<noteq> Some (topic_prefix idx @ key, t)" for k key t
  proof
    assume "mi_keys m k = Some (topic_prefix idx @ key, t)"
    then obtain n j key' where n: "topic_index_of ss n = Some j" "topic_prefix idx @ key = topic_prefix j @ key'"
      using under unfolding under_topics_def by blast
    then have "0 \<le> j" using t shown_store(2) by (fastforce simp: topic_index_of_def)
    then show False using n new(2) topic_prefix_inj idx(1) by metis
  qed
  then have tp: "shows_payload m (ss_nextKeyId ss) tp"
    using idx(1) fs_wf_new [of "topic_prefix idx" "ss_nextKeyId ss"]
    by (simp add: shows_payload_def store) (simp add: new_flat_state_def)
  have "shows_topics m ?ss"
  proof (rule shows_topicsI)
    show "om_wf (ss_topicHandles ?ss)" "ss_sessionEnqueue ?ss" "\<forall>k. ss_nextKeyId ?ss \<le> k \<longrightarrow> mi_keys m k = None"
      using t by simp_all
    show "shows_payload m (ss_nextKeyId ?ss) (th_payload th1)" if "map_of (ss_topicHandles ?ss) n = Some th1" for n th1
      using that tp t th(1) by (auto simp: look split: if_splits)
    have ix: "map_of (ss_topicHandles ?ss) n = Some th1 \<Longrightarrow> topic_index_of ?ss n = Some (tp_index (th_payload th1))" for n th1
      by (simp add: topic_index_of_def)
    have same: "n = n'" if "topic_index_of ss n = Some j" "topic_index_of ss n' = Some j" for n n' j
      using that t unfolding topic_index_of_def by blast
    show "n = n'" if "map_of (ss_topicHandles ?ss) n = Some th1" "map_of (ss_topicHandles ?ss) n' = Some th2"
      "tp_index (th_payload th1) = tp_index (th_payload th2)" for n th1 n' th2
      using ix [OF that(1)] ix [OF that(2)] that(3) new(2) same unfolding index by (auto split: if_splits)
  qed
  moreover have "keeps_types ty ?ss"
    using m(2) t th(1) store(1) by (auto simp: keeps_types_def new_flat_state_def split: if_splits)
  moreover have "topic_get ?ss = topic_get ss" "topic_keys ?ss = topic_keys ss"
    using t old by (simp_all add: fun_eq_iff topic_get_def topic_keys_def th tp_get_def tp_keys_def store
        fs_get_def fs_keys_def) (simp_all add: new_flat_state_def)
  moreover have "map_option th_name (ss_getTopicHandle ?ss name) = Some name"
    using t by (simp add: ss_getTopicHandle_def th)
  moreover have "ss_createTopicHandle ss name params idx = Inr ?ss"
    using idx t by (simp add: ss_createTopicHandle_def Let_def th_def tp_def)
  ultimately show ?thesis using index by (intro exI [of _ ?ss]) (simp add: same_protocol_def)
qed


text \<open>
  The server's user fills a topic when a client subscribes to it: \<open>fill\<close> gives the keys and values that
  the callback sets, in this order.
\<close>

definition fills_topics :: "env \<Rightarrow> (string \<Rightarrow> (string \<times> payload) list) \<Rightarrow> bool" where
  "fills_topics env fill \<longleftrightarrow> env_onConnection env = []
     \<and> env_onSubscribe env = [\<lambda>ss th. map (\<lambda>(key, v). HC_TopicSet (th_name th) key v) (fill (th_name th))]"

definition last_value :: "(string \<times> payload) list \<Rightarrow> string \<Rightarrow> payload" where
  "last_value kvs key = (case map_of (rev kvs) key of None \<Rightarrow> PNull | Some v \<Rightarrow> v)"

lemma last_set_fill:
  "last_set n k v0 (map (Pair name) kvs)
     = (if n = name then case map_of (rev kvs) k of None \<Rightarrow> v0 | Some v \<Rightarrow> v else v0)"
  by (induction kvs rule: rev_induct) (auto simp: last_set_def)

text \<open>What the server has told of its topics so far.\<close>

definition topics_told :: "(string \<Rightarrow> string \<Rightarrow> data_type) \<Rightarrow> mirror \<Rightarrow> frame list \<Rightarrow> session \<Rightarrow> bool" where
  "topics_told ty m fs ss \<longleftrightarrow> acceptable_all m fs \<and> settled_all m fs
     \<and> list_all (\<lambda>f. transportable f \<and> body_length f \<le> 1048576) fs
     \<and> shows_topics (foldl mirror_frame m fs) ss \<and> keeps_types ty ss
     \<and> (\<forall>k p t. mi_keys (foldl mirror_frame m fs) k = Some (p, t) \<longrightarrow> under_topics ss p)"

text \<open>What can be set under the topic with a number.\<close>

definition fillable :: "(string \<Rightarrow> data_type) \<Rightarrow> int \<Rightarrow> (string \<times> payload) list \<Rightarrow> bool" where
  "fillable ty idx kvs \<longleftrightarrow> list_all (\<lambda>(key, v). check_key_path (topic_prefix idx @ key) = Inr () \<and> ty key = detectDataType v
     \<and> faithful_value (detectDataType v) v \<and> body_length (mk_frame ServerValue 0 (detectDataType v) v) \<le> 1048576) kvs"

lemma topic_added:
  assumes w: "talks sv uuid i w" and env: "fills_topics env fill" and told: "topics_told ty m [] (session_at sv i)"
    and new: "topic_index_of (session_at sv i) name = None" "map_of n2i name = Some idx" "\<forall>n. topic_index_of (session_at sv i) n \<noteq> Some idx"
    and idx: "0 \<le> idx" "idx < INT_MAX" and fill: "fillable (ty name) idx (fill name)"
    and size: "unat (ss_nextKeyId (session_at sv i)) + length (fill name) < 2 ^ 32"
  shows "\<exists>ss' out fs. add_topic env i n2i (name, params) sv = fine (put_session i ss' sv) out
    \<and> encodeBatch fs = Inr (bytes_to w out) \<and> topics_told ty m fs ss' \<and> registrations fs \<le> length (fill name)
    \<and> unat (ss_nextKeyId ss') \<le> unat (ss_nextKeyId (session_at sv i)) + length (fill name) \<and> same_protocol (session_at sv i) ss'
    \<and> topic_index_of ss' = (topic_index_of (session_at sv i))(name \<mapsto> idx)
    \<and> (\<forall>n k. topic_get ss' n k = (if n = name then last_value (fill name) k else topic_get (session_at sv i) n k))
    \<and> (\<forall>n. topic_keys ss' n = (if n = name then fst ` set (fill name) else topic_keys (session_at sv i) n))"
proof -
  let ?ss = "session_at sv i" and ?ops = "map (Pair name) (fill name)"
  have t: "shows_topics m ?ss" "keeps_types ty ?ss" "\<forall>k p t. mi_keys m k = Some (p, t) \<longrightarrow> under_topics ?ss p"
    using told by (simp_all add: topics_told_def)
  obtain ss1 where c: "ss_createTopicHandle ?ss name params idx = Inr ss1" "shows_topics m ss1" "keeps_types ty ss1"
    "topic_index_of ss1 = (topic_index_of ?ss)(name \<mapsto> idx)" "map_option th_name (ss_getTopicHandle ss1 name) = Some name"
    "ss_nextKeyId ss1 = ss_nextKeyId ?ss" "topic_get ss1 = topic_get ?ss" "topic_keys ss1 = topic_keys ?ss"
    "same_protocol ?ss ss1"
    using topic_created [OF t new(1,3) idx] by blast
  let ?sv = "put_session i ss1 sv"
  have ok: "list_all (topic_op_ok ty ss1) ?ops"
    using fill by (auto simp: fillable_def list_all_iff topic_op_ok_def c(4))
  have "shows_topics m (session_at ?sv i)" "keeps_types ty (session_at ?sv i)" "talks ?sv uuid i w"
    "list_all (topic_op_ok ty (session_at ?sv i)) ?ops" "unat (ss_nextKeyId (session_at ?sv i)) + length ?ops < 2 ^ 32"
    using c ok w size by simp_all
  from topic_calls_told [OF this(3,1,2,4,5)]
  obtain ss' out fs where f: "for_each (run_call i) (map topic_call ?ops) ?sv = fine (put_session i ss' ?sv) out"
    "encodeBatch fs = Inr (bytes_to w out)" "topic_told ty m ss1 fs ss'" "registrations fs \<le> length ?ops"
    "unat (ss_nextKeyId ss') \<le> unat (ss_nextKeyId ss1) + length ?ops"
    "\<forall>n k. topic_get ss' n k = last_set n k (topic_get ss1 n k) ?ops"
    "\<forall>n. topic_keys ss' n = topic_keys ss1 n \<union> {k. \<exists>v. (n, k, v) \<in> set ?ops}"
    unfolding put_session_simps by blast
  note told' = f(3) [unfolded topic_told_def]
  obtain th where th: "ss_getTopicHandle ss1 name = Some th" "th_name th = name" using c(5) by auto
  have calls: "map topic_call ?ops = map (\<lambda>(key, v). HC_TopicSet name key v) (fill name)"
    by (auto simp: topic_call_def)
  have none: "map_of (ss_topicHandles ?ss) name = None" using new(1) by (simp add: topic_index_of_def)
  then have none': "topic_get ?ss name k = PNull" "topic_keys ?ss name = {}" for k by (simp_all add: topic_get_def topic_keys_def)
  have "run_callbacks i (map (\<lambda>cb ss. cb ss (the (ss_getTopicHandle ss name))) (env_onSubscribe env)) ?sv = fine (put_session i ss' sv) out"
    using env f(1) unfolding calls by (simp add: run_callbacks_def fills_topics_def th)
  then have add: "add_topic env i n2i (name, params) sv = fine (put_session i ss' sv) (Sv_Subscribe (ss_id ss1) name # out)"
    using none new(2) c(1) by (simp add: add_topic_def ss_getTopicHandle_def run_res_def)
  have "topic_index_of ss' n = Some j" if "topic_index_of ?ss n = Some j" for n j
    using that new(1) told' c(4) by auto
  then have "under_topics ss' p" if "under_topics ?ss p" for p
    using that unfolding under_topics_def by blast
  moreover have "under_topics ss' = under_topics ss1" using told' by (simp add: under_topics_def [abs_def])
  ultimately have under: "under_topics ss' p" if "under_topics ?ss p \<or> under_topics ss1 p" for p
    using that by auto
  have "topics_told ty m fs ss'"
    using told' t(3) under unfolding topics_told_def by blast
  moreover have "topic_get ss' n k = (if n = name then last_value (fill name) k else topic_get ?ss n k)" for n k
    using f(6) none' by (cases "n = name"; cases "map_of (rev (fill name)) k") (simp_all add: last_set_fill c(7) last_value_def)
  moreover have "topic_keys ss' n = (if n = name then fst ` set (fill name) else topic_keys ?ss n)" for n
    using f(7) none' by (force simp: c(8) image_iff)
  moreover have "topic_index_of ss' = (topic_index_of ?ss)(name \<mapsto> idx)" "same_protocol ?ss ss'"
    using told' c(4,9) by (simp_all add: same_protocol_def)
  ultimately show ?thesis
    using add f(2,4,5) c(6) by (intro exI [of _ ss'] exI [of _ "Sv_Subscribe (ss_id ss1) name # out"] exI [of _ fs]) (simp add: bytes_to_def)
qed


lemma topics_told_append:
  assumes "topics_told ty m fs ss" "topics_told ty (foldl mirror_frame m fs) fs' ss'"
  shows "topics_told ty m (fs @ fs') ss'"
  using assms by (simp add: topics_told_def acceptable_append settled_append)

lemma topics_told_here: "topics_told ty m fs ss \<Longrightarrow> topics_told ty (foldl mirror_frame m fs) [] ss"
  by (simp add: topics_told_def)

lemma topics_added:
  assumes "talks sv uuid i w" "fills_topics env fill" "topics_told ty m [] (session_at sv i)" "distinct (map fst topics)"
    and "\<forall>name \<in> fst ` set topics. topic_index_of (session_at sv i) name = None \<and> map_of n2i name = Some (ix name)
          \<and> (\<forall>n. topic_index_of (session_at sv i) n \<noteq> Some (ix name)) \<and> 0 \<le> ix name \<and> ix name < INT_MAX
          \<and> fillable (ty name) (ix name) (fill name)"
    and "inj_on ix (fst ` set topics)"
    and "unat (ss_nextKeyId (session_at sv i)) + sum_list (map (\<lambda>n. length (fill n)) (map fst topics)) < 2 ^ 32"
  shows "\<exists>ss' out fs. for_each (add_topic env i n2i) topics sv = fine (put_session i ss' sv) out
    \<and> encodeBatch fs = Inr (bytes_to w out) \<and> topics_told ty m fs ss'
    \<and> registrations fs \<le> sum_list (map (\<lambda>n. length (fill n)) (map fst topics)) \<and> same_protocol (session_at sv i) ss'
    \<and> topic_index_of ss' = (\<lambda>n. if n \<in> fst ` set topics then Some (ix n) else topic_index_of (session_at sv i) n)
    \<and> (\<forall>n k. topic_get ss' n k = (if n \<in> fst ` set topics then last_value (fill n) k else topic_get (session_at sv i) n k))
    \<and> (\<forall>n. topic_keys ss' n = (if n \<in> fst ` set topics then fst ` set (fill n) else topic_keys (session_at sv i) n))"
  using assms
proof (induction topics arbitrary: sv m)
  case Nil
  then show ?case by (intro exI [of _ "session_at sv i"] exI [of _ "[]"]) (simp add: same_protocol_def)
next
  case (Cons x topics)
  obtain name params where x: "x = (name, params)" by (cases x)
  let ?ss = "session_at sv i"
  have new: "topic_index_of ?ss name = None" "map_of n2i name = Some (ix name)" "\<forall>n. topic_index_of ?ss n \<noteq> Some (ix name)"
    "0 \<le> ix name" "ix name < INT_MAX" "fillable (ty name) (ix name) (fill name)"
    using Cons.prems(5) x by simp_all
  have size: "unat (ss_nextKeyId ?ss) + length (fill name) < 2 ^ 32" using Cons.prems(7) x by simp
  obtain ss1 out1 fs1 where 1: "add_topic env i n2i (name, params) sv = fine (put_session i ss1 sv) out1"
    "encodeBatch fs1 = Inr (bytes_to w out1)" "topics_told ty m fs1 ss1" "registrations fs1 \<le> length (fill name)"
    "unat (ss_nextKeyId ss1) \<le> unat (ss_nextKeyId ?ss) + length (fill name)" "same_protocol ?ss ss1"
    "topic_index_of ss1 = (topic_index_of ?ss)(name \<mapsto> ix name)"
    "\<forall>n k. topic_get ss1 n k = (if n = name then last_value (fill name) k else topic_get ?ss n k)"
    "\<forall>n. topic_keys ss1 n = (if n = name then fst ` set (fill name) else topic_keys ?ss n)"
    using topic_added [OF Cons.prems(1-3) new size, of params] by blast
  let ?sv = "put_session i ss1 sv"
  have apart: "n \<noteq> name \<and> ix n \<noteq> ix name" if "n \<in> fst ` set topics" for n
    using that Cons.prems(4,6) by (auto simp: x inj_on_def)
  have fresh: "\<forall>n \<in> fst ` set topics. topic_index_of (session_at ?sv i) n = None \<and> map_of n2i n = Some (ix n)
      \<and> (\<forall>n'. topic_index_of (session_at ?sv i) n' \<noteq> Some (ix n)) \<and> 0 \<le> ix n \<and> ix n < INT_MAX \<and> fillable (ty n) (ix n) (fill n)"
  proof
    fix n assume n: "n \<in> fst ` set topics"
    then have "n \<in> fst ` set (x # topics)" by simp
    from Cons.prems(5) [rule_format, OF this] show "topic_index_of (session_at ?sv i) n = None \<and> map_of n2i n = Some (ix n)
      \<and> (\<forall>n'. topic_index_of (session_at ?sv i) n' \<noteq> Some (ix n)) \<and> 0 \<le> ix n \<and> ix n < INT_MAX \<and> fillable (ty n) (ix n) (fill n)"
      using apart [OF n] 1(7) by simp
  qed
  have "talks ?sv uuid i w" "topics_told ty (foldl mirror_frame m fs1) [] (session_at ?sv i)" "distinct (map fst topics)" "inj_on ix (fst ` set topics)"
    "unat (ss_nextKeyId (session_at ?sv i)) + sum_list (map (\<lambda>n. length (fill n)) (map fst topics)) < 2 ^ 32"
    using Cons.prems(1,4,6,7) 1(3,5) topics_told_here by (simp_all add: x)
  from Cons.IH [OF this(1) Cons.prems(2) this(2,3) fresh this(4,5)]
  obtain ss' out2 fs2 where 2: "for_each (add_topic env i n2i) topics ?sv = fine (put_session i ss' ?sv) out2"
    "encodeBatch fs2 = Inr (bytes_to w out2)" "topics_told ty (foldl mirror_frame m fs1) fs2 ss'"
    "registrations fs2 \<le> sum_list (map (\<lambda>n. length (fill n)) (map fst topics))" "same_protocol ss1 ss'"
    "topic_index_of ss' = (\<lambda>n. if n \<in> fst ` set topics then Some (ix n) else topic_index_of ss1 n)"
    "\<forall>n k. topic_get ss' n k = (if n \<in> fst ` set topics then last_value (fill n) k else topic_get ss1 n k)"
    "\<forall>n. topic_keys ss' n = (if n \<in> fst ` set topics then fst ` set (fill n) else topic_keys ss1 n)"
    unfolding put_session_simps by blast
  have "for_each (add_topic env i n2i) (x # topics) sv = fine (put_session i ss' sv) (out1 @ out2)" using 1(1) 2(1) by (simp add: x)
  moreover have "encodeBatch (fs1 @ fs2) = Inr (bytes_to w (out1 @ out2))" using 1(2) 2(2) by (simp add: encodeBatch_append)
  moreover have "registrations (fs1 @ fs2) \<le> sum_list (map (\<lambda>n. length (fill n)) (map fst (x # topics)))" using 1(4) 2(4) by (simp add: x)
  moreover note topics_told_append [OF 1(3) 2(3)]
  ultimately show ?case
    using 1(6-9) 2(5-8) apart by (intro exI [of _ ss'] exI [of _ "out1 @ out2"] exI [of _ "fs1 @ fs2"]) (auto simp: x same_protocol_def)
qed


section \<open>The server reads the description\<close>

lemma description_read:
  assumes "good_subs subs" "length (sync_entries 0 subs) \<le> 10000"
  shows "\<exists>pa. parse_topics (Some (registered (sync_entries 0 subs))) (valued (sync_entries 0 subs)) = Inr pa
    \<and> map fst (pa_topics pa) = map fst subs
    \<and> (\<forall>j < length subs. map_of (pa_nameToIndex pa) (fst (subs ! j)) = Some (int j))"
proof -
  let ?es = "sync_entries 0 subs"
  have len: "length ?es < 2 ^ 32" using assms(2) by simp
  have sub: "set (map fst ?es) \<subseteq> fst ` set ?es" by simp
  obtain pa where pa: "rfold (parse_path (registered ?es) (valued ?es)) (map fst ?es) no_topics = Inr pa" "understood subs (map fst ?es) pa"
    using parse_sync_paths [OF assms(1) len sub] by blast
  have names: "\<forall>j < length subs. name_path j \<in> set (map fst ?es)"
    using sync_entries_set [of 0 subs] by (force simp: image_iff)
  have "map_of (pa_nameToIndex pa) (fst (subs ! j)) = Some (int j)" if "j < length subs" for j
  proof -
    have "map_of (pa_nameToIndex pa) (fst (subs ! j)) = Some (int j) \<longleftrightarrow>
        (\<exists>j' < length subs. fst (subs ! j) = fst (subs ! j') \<and> int j = int j' \<and> name_path j' \<in> set (map fst ?es))"
      using pa(2) by (simp only: understood_def)
    then show ?thesis using that names by blast
  qed
  then show ?thesis
    using understood_topics [OF pa(2) assms(1) names] pa(1)
    by (intro exI [of _ pa]) (simp add: parse_topics_def registered_keys)
qed

text \<open>Subscriptions that the server understands and its user can fill.\<close>

definition served_subs :: "(string \<Rightarrow> string \<Rightarrow> data_type) \<Rightarrow> (string \<Rightarrow> (string \<times> payload) list) \<Rightarrow> subscriptions \<Rightarrow> bool" where
  "served_subs ty fill subs \<longleftrightarrow> good_subs subs \<and> subs \<noteq> [] \<and> describable (sync_entries 0 subs)
     \<and> sum_list (map (\<lambda>n. length (fill n)) (map fst subs)) \<le> 10000
     \<and> (\<forall>j < length subs. fillable (ty (fst (subs ! j))) (int j) (fill (fst (subs ! j))))"

text \<open>The session holds the topics, numbered and filled.\<close>

definition filled :: "(string \<Rightarrow> (string \<times> payload) list) \<Rightarrow> subscriptions \<Rightarrow> session \<Rightarrow> bool" where
  "filled fill subs ss \<longleftrightarrow> fst ` set (ss_topicHandles ss) = fst ` set subs
     \<and> (\<forall>j < length subs. topic_index_of ss (fst (subs ! j)) = Some (int j)
          \<and> (\<forall>key. topic_get ss (fst (subs ! j)) key = last_value (fill (fst (subs ! j))) key)
          \<and> topic_keys ss (fst (subs ! j)) = fst ` set (fill (fst (subs ! j))))"

lemma topics_known: "topic_index_of ss name = None \<longleftrightarrow> name \<notin> fst ` set (ss_topicHandles ss)"
  by (simp add: topic_index_of_def map_of_eq_None_iff)


lemma first_description:
  assumes h: "hosts sv w uuid i ss" and env: "fills_topics env fill" and subs: "served_subs ty fill subs"
    and ss: "ss_topicHandles ss = []" "ss_sessionEnqueue ss" "ss_nextKeyId ss = 1"
    and data: "holds_frames datas (topic_sync_frames (sync_entries 0 subs))"
  shows "\<exists>sv' ss' out fs. server_run env (map (message_input t w) datas) sv = fine sv' out
    \<and> encodeBatch fs = Inr (bytes_to w out) \<and> hosts sv' w uuid i ss' \<and> topics_told ty empty_mirror fs ss'
    \<and> registrations fs \<le> 10000 \<and> filled fill subs ss' \<and> same_protocol ss ss'"
proof -
  let ?es = "sync_entries 0 subs" and ?names = "fst ` set subs"
  note s = subs [unfolded served_subs_def]
  have g: "good_subs subs" and len: "length ?es \<le> 10000" using s by (simp_all add: describable_def)
  then have d: "distinct (map fst ?es)" "distinct (map fst subs)"
    using distinct_sync_entries [of subs 0] by (auto simp: good_subs_def om_wf_def strict_sorted_iff)
  obtain pa where pa: "parse_topics (Some (registered ?es)) (valued ?es) = Inr pa" "map fst (pa_topics pa) = map fst subs"
    "\<forall>j < length subs. map_of (pa_nameToIndex pa) (fst (subs ! j)) = Some (int j)"
    using description_read [OF g len] by blast
  have "describable ?es" using s by blast
  from description_arrives [OF h data this d(1), of env t] obtain n where
    n: "server_run env (map (message_input t w) datas) sv = catching (processTopicSync env i (tell i ?es ?es sv\<lparr>sv_framesIn := n\<rparr>))"
    by blast
  let ?sv = "tell i ?es ?es sv\<lparr>sv_framesIn := n\<rparr>"
  have h': "hosts ?sv w uuid i ss" using h by simp
  then have at: "session_at ?sv i = ss" by (simp add: hosts_def)
  define ix where "ix name = the (map_of (pa_nameToIndex pa) name)" for name
  have ix: "ix (fst (subs ! j)) = int j" if "j < length subs" for j using pa(3) that by (simp add: ix_def)
  have names: "fst ` set (pa_topics pa) = ?names" using arg_cong [OF pa(2), of set] by simp
  have "\<forall>name \<in> fst ` set (pa_topics pa). topic_index_of (session_at ?sv i) name = None \<and> map_of (pa_nameToIndex pa) name = Some (ix name)
      \<and> (\<forall>n. topic_index_of (session_at ?sv i) n \<noteq> Some (ix name)) \<and> 0 \<le> ix name \<and> ix name < INT_MAX
      \<and> fillable (ty name) (ix name) (fill name)"
  proof
    fix name assume "name \<in> fst ` set (pa_topics pa)"
    then obtain j where j: "j < length subs" "name = fst (subs ! j)" unfolding names by (auto simp: in_set_conv_nth)
    have "length subs \<le> 10000" using g by (simp add: good_subs_def)
    then have "int j < INT_MAX" using j(1) by (simp add: INT_MAX_def)
    then show "topic_index_of (session_at ?sv i) name = None \<and> map_of (pa_nameToIndex pa) name = Some (ix name)
      \<and> (\<forall>n. topic_index_of (session_at ?sv i) n \<noteq> Some (ix name)) \<and> 0 \<le> ix name \<and> ix name < INT_MAX
      \<and> fillable (ty name) (ix name) (fill name)"
      using j ix [OF j(1)] pa(3) s at ss(1) by (simp add: topic_index_of_def)
  qed
  moreover have "inj_on ix (fst ` set (pa_topics pa))"
  proof (rule inj_onI)
    fix x y assume xy: "x \<in> fst ` set (pa_topics pa)" "y \<in> fst ` set (pa_topics pa)" "ix x = ix y"
    obtain j where j: "j < length subs" "x = fst (subs ! j)" using xy(1) unfolding names by (auto simp: in_set_conv_nth)
    obtain j' where j': "j' < length subs" "y = fst (subs ! j')" using xy(2) unfolding names by (auto simp: in_set_conv_nth)
    show "x = y" using xy(3) j j' ix by simp
  qed
  moreover have "shows_topics empty_mirror ss" "keeps_types ty ss"
    using ss by (auto simp: shows_topics_def empty_mirror_def keeps_types_def)
  then have "topics_told ty empty_mirror [] (session_at ?sv i)"
    unfolding at by (simp add: topics_told_def) (simp add: empty_mirror_def)
  moreover have "unat (ss_nextKeyId (session_at ?sv i)) + sum_list (map (\<lambda>n. length (fill n)) (map fst (pa_topics pa))) < 2 ^ 32"
    using s ss(3) unfolding at pa(2) by simp
  moreover have "distinct (map fst (pa_topics pa))" unfolding pa(2) by (rule d(2))
  ultimately obtain ss' out fs where f: "for_each (add_topic env i (pa_nameToIndex pa)) (pa_topics pa) ?sv = fine (put_session i ss' ?sv) out"
    "encodeBatch fs = Inr (bytes_to w out)" "topics_told ty empty_mirror fs ss'"
    "registrations fs \<le> sum_list (map (\<lambda>n. length (fill n)) (map fst (pa_topics pa)))" "same_protocol ss ss'"
    "topic_index_of ss' = (\<lambda>n. if n \<in> ?names then Some (ix n) else topic_index_of ss n)"
    "\<forall>n k. topic_get ss' n k = (if n \<in> ?names then last_value (fill n) k else topic_get ss n k)"
    "\<forall>n. topic_keys ss' n = (if n \<in> ?names then fst ` set (fill n) else topic_keys ss n)"
    using topics_added [OF hosts_talks [OF h'] env, of ty empty_mirror "pa_topics pa" "pa_nameToIndex pa" ix] unfolding at names by blast
  have reg: "in_clientRegistry (sv_internals ?sv i) = Some (registered ?es)" "in_clientValues (sv_internals ?sv i) = valued ?es" by simp_all
  have "processTopicSync env i ?sv = fine (put_session i ss' ?sv) out"
    unfolding processTopicSync_def Let_def reg pa(1) run_res_def sum.case at using f(1) ss(1) by (simp add: ss_topics_def)
  then have "server_run env (map (message_input t w) datas) sv = fine (put_session i ss' ?sv) out" using n by simp
  moreover have "filled fill subs ss'"
  proof -
    have "name \<in> fst ` set (ss_topicHandles ss') \<longleftrightarrow> name \<in> ?names" for name
      using topics_known [of ss' name] topics_known [of ss name] f(6) ss(1) by (auto split: if_splits)
    moreover have "fst (subs ! j) \<in> ?names" if "j < length subs" for j using that by simp
    ultimately show ?thesis using f(6-8) ix by (simp add: filled_def set_eq_iff)
  qed
  moreover have "registrations fs \<le> 10000" using f(4) s unfolding pa(2) by simp
  ultimately show ?thesis using f(2,3,5) hosts_put [OF h'] by blast
qed

text \<open>A description of the same subscriptions changes nothing.\<close>

lemma description_again:
  assumes h: "hosts sv w uuid i ss" and subs: "served_subs ty fill subs" and names: "filled fill subs ss"
    and data: "holds_frames datas (topic_sync_frames (sync_entries 0 subs))"
  shows "\<exists>sv'. server_run env (map (message_input t w) datas) sv = fine sv' [] \<and> hosts sv' w uuid i ss"
proof -
  let ?es = "sync_entries 0 subs"
  note s = subs [unfolded served_subs_def]
  have g: "good_subs subs" and len: "length ?es \<le> 10000" using s by (simp_all add: describable_def)
  then have d: "distinct (map fst ?es)" using distinct_sync_entries [of subs 0] by (auto simp: good_subs_def)
  obtain pa where pa: "parse_topics (Some (registered ?es)) (valued ?es) = Inr pa" "map fst (pa_topics pa) = map fst subs"
    using description_read [OF g len] by blast
  have "describable ?es" using s by blast
  from description_arrives [OF h data this d, of env t] obtain n where
    n: "server_run env (map (message_input t w) datas) sv = catching (processTopicSync env i (tell i ?es ?es sv\<lparr>sv_framesIn := n\<rparr>))"
    by blast
  let ?sv = "tell i ?es ?es sv\<lparr>sv_framesIn := n\<rparr>"
  have h': "hosts ?sv w uuid i ss" using h by simp
  then have at: "session_at ?sv i = ss" by (simp add: hosts_def)
  have same: "set (map fst (ss_topicHandles ss)) = set (map fst (pa_topics pa))" using names unfolding pa(2) by (simp add: filled_def)
  have idle: "for_each f xs sv0 = fine sv0 []" if "\<forall>x \<in> set xs. f x sv0 = fine sv0 []"
    for f :: "'a \<Rightarrow> server \<Rightarrow> sres" and xs sv0
    using that by (induction xs) simp_all
  have "for_each (\<lambda>name sv. if map_of (pa_topics pa) name = None then drop_topic env i name sv else fine sv [])
      (ss_topics ss) ?sv = fine ?sv []"
    by (rule idle) (use same in \<open>simp add: ss_topics_def map_of_eq_None_iff\<close>)
  moreover have "for_each (add_topic env i (pa_nameToIndex pa)) (pa_topics pa) ?sv = fine ?sv []"
  proof (rule idle, clarify)
    fix name params assume "(name, params) \<in> set (pa_topics pa)"
    then have "name \<in> set (map fst (ss_topicHandles ss))" unfolding same by force
    then have "ss_getTopicHandle ss name \<noteq> None" by (simp add: ss_getTopicHandle_def map_of_eq_None_iff)
    then show "add_topic env i (pa_nameToIndex pa) (name, params) ?sv = fine ?sv []" by (simp only: add_topic_def Let_def prod.case at if_True not_False_eq_True)
  qed
  moreover have reg: "in_clientRegistry (sv_internals ?sv i) = Some (registered ?es)" "in_clientValues (sv_internals ?sv i) = valued ?es" by simp_all
  ultimately have "processTopicSync env i ?sv = fine ?sv []"
    unfolding processTopicSync_def Let_def reg pa(1) run_res_def sum.case at by (simp only: and_then_simps emit_before_simps append_Nil)
  then show ?thesis using n h' by auto
qed


section \<open>Joining\<close>

text \<open>A server in a topic mode that lets everybody in.\<close>

definition topical :: "server \<Rightarrow> bool" where
  "topical sv \<longleftrightarrow> isTopicMode sv \<and> \<not> sv_authEnabled sv \<and> sv_maxConnections sv = 0 \<and> sv_maxFramesPerSec sv = 0"

lemma server_opens_session:
  assumes sv: "topical sv" and env: "env_onConnection env = []" and me: "length me = 16" "encode (identification me) = Inr hello"
    and new: "map_of (sv_sessions sv) (bytesToUuid (me @ [3, 5])) = None"
  shows "\<exists>sv' ss out i. server_run env [(t, SI_Connect w), (t', SI_Message w hello)] sv = fine sv' out
    \<and> encodeBatch [signal ServerSync 0] = Inr (bytes_to w out) \<and> hosts sv' w (bytesToUuid (me @ [3, 5])) i ss
    \<and> ss_topicHandles ss = [] \<and> ss_sessionEnqueue ss \<and> ss_nextKeyId ss = 1 \<and> \<not> ss_txProvider ss \<and> \<not> ss_serverSyncSent ss"
proof -
  let ?u = "bytesToUuid (me @ [3, 5])" and ?i = "sv_next sv"
  have run: "server_run env [(t, SI_Connect w), (t', SI_Message w hello)] sv = catching (create_session env w ?u t' (met sv w ?u))"
    using first_contact [OF _ _ me new] sv by (simp add: topical_def)
  obtain sv1 where sv1: "create_session env w ?u t' (met sv w ?u) = activateSession env ?i (default_principal sv) sv1"
    "sv_mode sv1 = sv_mode sv" "sv_maxFramesPerSec sv1 = 0" "sv_conns sv1 = sv_conns (met sv w ?u)"
    "sv_sessions sv1 = AList.update ?u ?i (sv_sessions sv)" "in_flushTo (sv_internals sv1 ?i) = w"
    "session_at sv1 ?i = ss_authorize (ss_setEnqueue (new_session ?u)) (default_principal sv)"
    using create_admitted [of "met sv w ?u" env w ?u t'] sv by (auto simp: topical_def)
  let ?ss = "ss_bindSessionTX (session_at sv1 ?i)"
  have mode: "isTopicMode sv1" using sv sv1(2) by (simp add: topical_def isTopicMode_def)
  have h: "hosts (put_session ?i ?ss sv1) w ?u ?i ?ss"
    by (rule hosts_put [of _ _ _ _ "session_at sv1 ?i"]) (simp add: hosts_def mode sv1(3-6))
  obtain bs where bs: "encode (signal ServerSync 0) = Inr bs" using encode_signal_defined [of ServerSync 0] by auto
  have "conn_open (put_session ?i ?ss sv1) (in_flushTo (sv_internals (put_session ?i ?ss sv1) ?i))"
    "in_flushTo (sv_internals (put_session ?i ?ss sv1) ?i) = w"
    using hosts_talks [OF h] by (simp_all add: talks_def)
  then have "activateSession env ?i (default_principal sv) sv1 = fine (put_session ?i ?ss sv1) [Sv_Connection (ss_id ?ss), Sv_Send w bs]"
    using mode env sv_enqueue_open [OF _ bs] by (simp add: activateSession_def announce_session_def run_callbacks_def)
  then have "server_run env [(t, SI_Connect w), (t', SI_Message w hello)] sv
      = fine (put_session ?i ?ss sv1) [Sv_Connection (ss_id ?ss), Sv_Send w bs]"
    using run sv1(1) by simp
  moreover have "encodeBatch [signal ServerSync 0] = Inr (bytes_to w [Sv_Connection (ss_id ?ss), Sv_Send w bs])"
    using bs by (simp add: encodeBatch_Cons)
  moreover have "ss_topicHandles ?ss = [] \<and> ss_sessionEnqueue ?ss \<and> ss_nextKeyId ?ss = 1 \<and> \<not> ss_txProvider ?ss \<and> \<not> ss_serverSyncSent ?ss"
    by (simp add: sv1(7) ss_bindSessionTX_def ss_authorize_def ss_setEnqueue_def new_session_def)
  ultimately show ?thesis using h by blast
qed

lemma server_hears_ready:
  assumes h: "hosts sv w uuid i ss" and ss: "\<not> ss_txProvider ss" "\<not> ss_serverSyncSent ss" and ready: "encode (signal ClientReady 0) = Inr ready"
  shows "\<exists>sv'. server_step env t (SI_Message w ready) sv = fine sv' [] \<and> hosts sv' w uuid i ss"
proof -
  note h' = h [unfolded hosts_def]
  let ?sv = "sv\<lparr>sv_framesIn := sv_framesIn sv + 1\<rparr>"
  have small: "body_length (signal ClientReady 0) \<le> 1048576" by (simp add: body_length_def frame_payload_def isKeyRegistrationFrame_def)
  have at: "session_at ?sv i = ss" "put_session i ss ?sv = ?sv" using h' put_session_simps(3) [of i ?sv] by (simp_all add: session_at_def)
  have "route_frame i (signal ClientReady 0) ?sv = fine ?sv []"
    using ss by (simp add: route_frame_def at ss_handleFrame_def run_sess_out_def Let_def)
  then have "on_frame env w t (signal ClientReady 0) sv = fine ?sv []"
    using h' by (simp add: on_frame_def rate_limit_def is_topic_frame_def Let_def)
  then have "server_step env t (SI_Message w ready) sv = fine ?sv []"
    using sv_message_frame [OF _ _ _ _ ready small, of sv w env t] h' by simp
  then show ?thesis using h by auto
qed


section \<open>Properties\<close>

text \<open>C3. A client joins a server in a topic mode and reads its topics. When a client that has subscribed to
  topics, in any order and any number of times, connects to a server whose user fills a topic whenever a
  client subscribes to it, and their messages have gone back and forth (the identification and the
  subscriptions; the new session and the data; the readiness and the subscriptions once more),
  neither side has thrown an exception; the client has a handle for every topic, which reads for every key
  what the server's user has last set and lists exactly the keys that were set; and whatever is set
  from then on reaches the client (its mirror shows the session's topics, on an open connection).\<close>

theorem topic_client_joins:
  assumes "topical sv" and "fills_topics env fill" and "length me = 16"
    and "map_of (sv_sessions sv) (format_uuid me) = None"
    and "served_subs ty fill (subscribed calls)" and "\<forall>bs. concat (chop bs) = bs"
  shows "\<exists>c0 o0 sv1 out1 c1 o1 sv2 i.
      client_run (map (\<lambda>(name, params). (t0, j0, In_Subscribe name params)) calls
          @ [(t0, j0, In_Connect Connect_Returns), (t0, j0, In_Open)]) (new_whole_client (format_uuid me) url opt)
        = fine (default_parser, c0) o0
    \<and> server_run env ((t1, SI_Connect w) # map (message_input t2 w) (messages o0)) sv = fine sv1 out1
    \<and> for_each (on_message who t3) (chop (bytes_to w out1)) (default_parser, c0) = fine (default_parser, c1) o1
    \<and> server_run env (map (message_input t4 w) (messages o1)) sv1 = fine sv2 []
    \<and> (\<forall>j < length (subscribed calls). \<exists>h. map_of (cl_topicHandles c1) (fst (subscribed calls ! j)) = Some h
        \<and> (\<forall>key. tc_get c1 h key = last_value (fill (fst (subscribed calls ! j))) key)
        \<and> set (tc_keys c1 h) = fst ` set (fill (fst (subscribed calls ! j))))
    \<and> talks sv2 (format_uuid me) i w \<and> shows_topics (cl_mirror c1) (session_at sv2 i) \<and> following c1
    \<and> keeps_types ty (session_at sv2 i)"
proof -
  let ?subs = "subscribed calls"
  let ?fs = "topic_sync_frames (sync_entries 0 ?subs)"
  have subs: "?subs \<noteq> []" "describable (sync_entries 0 ?subs)" using assms(5) by (simp_all add: served_subs_def)
  obtain c0 o0 where c0: "client_run (map (\<lambda>(name, params). (t0, j0, In_Subscribe name params)) calls
          @ [(t0, j0, In_Connect Connect_Returns), (t0, j0, In_Open)]) (new_whole_client (format_uuid me) url opt) = fine (default_parser, c0) o0"
    "holds_frames (messages o0) (identification me # ?fs)" "unheard ?subs c0"
    using client_subscribes_and_opens [OF assms(3) subs] by blast
  obtain hello datas where m0: "messages o0 = hello # datas" "encode (identification me) = Inr hello" "holds_frames datas ?fs"
    using c0(2) by (cases "messages o0") (auto simp: holds_frames_def)
  have uuid: "bytesToUuid (me @ [3, 5]) = format_uuid me" using assms(3) by (rule bytesToUuid_format)
  have env: "env_onConnection env = []" using assms(2) by (simp add: fills_topics_def)
  have new: "map_of (sv_sessions sv) (bytesToUuid (me @ [3, 5])) = None" using assms(4) uuid by simp
  obtain sva ss outa i where a: "server_run env [(t1, SI_Connect w), (t2, SI_Message w hello)] sv = fine sva outa"
    "encodeBatch [signal ServerSync 0] = Inr (bytes_to w outa)" "hosts sva w (format_uuid me) i ss"
    "ss_topicHandles ss = []" "ss_sessionEnqueue ss" "ss_nextKeyId ss = 1" "\<not> ss_txProvider ss" "\<not> ss_serverSyncSent ss"
    using server_opens_session [OF assms(1) env assms(3) m0(2) new, of t1 w t2] unfolding uuid by blast
  obtain sv1 ss1 outb fs where b: "server_run env (map (message_input t2 w) datas) sva = fine sv1 outb"
    "encodeBatch fs = Inr (bytes_to w outb)" "hosts sv1 w (format_uuid me) i ss1" "topics_told ty empty_mirror fs ss1"
    "registrations fs \<le> 10000" "filled fill ?subs ss1" "same_protocol ss ss1"
    using first_description [OF a(3) assms(2,5) a(4-6) m0(3)] by blast
  have run1: "server_run env ((t1, SI_Connect w) # map (message_input t2 w) (messages o0)) sv = fine sv1 (outa @ outb)"
  proof -
    have "(t1, SI_Connect w) # map (message_input t2 w) (messages o0)
        = [(t1, SI_Connect w), (t2, SI_Message w hello)] @ map (message_input t2 w) datas" by (simp add: m0(1) message_input_def)
    then show ?thesis by (simp only: server_run_append a(1) b(1) and_then_simps emit_before_simps)
  qed
  have sent1: "encodeBatch (signal ServerSync 0 # fs) = Inr (bytes_to w (outa @ outb))"
    using encodeBatch_append [of "[signal ServerSync 0]" fs] a(2) b(2) by simp
  obtain ready where ready: "encode (signal ClientReady 0) = Inr ready" using encode_signal_defined [of ClientReady 0] by auto
  obtain cr ro where cr: "handleFrame who (signal ServerSync 0) c0 = fine cr ro"
    "holds_frames (messages ro) (signal ClientReady 0 # ?fs)" "following cr" "numbered cr" "cl_state cr = CS_Ready"
    "cl_mirror cr = empty_mirror" "cl_subscriptions cr = ?subs" "kr_size (cl_registry cr) = 0"
    using client_hears_sync [OF c0(3) subs ready] by blast
  note told = b(4) [unfolded topics_told_def]
  obtain c1 o1 where c1: "for_each (handleFrame who) fs cr = fine c1 o1" "messages o1 = []" "following c1" "numbered c1"
    "cl_mirror c1 = foldl mirror_frame empty_mirror fs" "cl_subscriptions c1 = ?subs"
    using ready_follows [OF cr(3,5,4), of fs who] told b(5) cr(6-8) by auto
  have "for_each (handleFrame who) (signal ServerSync 0 # fs) c0 = fine c1 (ro @ o1)" using cr(1) c1(1) by simp
  from frames_as_events [OF this]
  have ev: "for_each (on_event who t3) (wire_events [(signal ServerSync 0 # fs, False)]) c0 = fine c1 (ro @ o1)" by simp
  have small: "body_length (signal ServerSync 0) \<le> 1048576" by (simp add: body_length_def frame_payload_def isKeyRegistrationFrame_def)
  have travel: "list_all (\<lambda>f. transportable f \<and> body_length f \<le> 1048576) (signal ServerSync 0 # fs)"
    using told small by simp
  have wire: "wire_image [(signal ServerSync 0 # fs, False)] = Inr (bytes_to w (outa @ outb))" using sent1 by simp
  have "feed_chunks default_parser (chop (bytes_to w (outa @ outb))) = (default_parser, wire_events [(signal ServerSync 0 # fs, False)])"
    unfolding feed_chunks_concat default_parser_def assms(6) [rule_format]
    using feed_wire_image [of "new_parser 1048576" "[(signal ServerSync 0 # fs, False)]"] travel wire by (simp add: new_parser_def)
  from on_messages [OF this ev]
  have hears: "for_each (on_message who t3) (chop (bytes_to w (outa @ outb))) (default_parser, c0) = fine (default_parser, c1) (ro @ o1)" .
  obtain datas' where m1: "messages (ro @ o1) = ready # datas'" "holds_frames datas' ?fs"
    using cr(2) c1(2) ready by (cases "messages ro") (auto simp: holds_frames_def)
  have quiet: "\<not> ss_txProvider ss1" "\<not> ss_serverSyncSent ss1" using a(7,8) b(7) by (simp_all add: same_protocol_def)
  obtain svb where svb: "server_step env t4 (SI_Message w ready) sv1 = fine svb []" "hosts svb w (format_uuid me) i ss1"
    using server_hears_ready [OF b(3) quiet ready] by blast
  obtain sv2 where sv2: "server_run env (map (message_input t4 w) datas') svb = fine sv2 []" "hosts sv2 w (format_uuid me) i ss1"
    using description_again [OF svb(2) assms(5) b(6) m1(2)] by blast
  have run2: "server_run env (map (message_input t4 w) (messages (ro @ o1))) sv1 = fine sv2 []"
    using svb(1) sv2(1) unfolding m1(1) by (simp add: message_input_def)
  have shown: "shows_topics (cl_mirror c1) ss1" "keeps_types ty ss1" "session_at sv2 i = ss1" "talks sv2 (format_uuid me) i w"
    using told c1(5) sv2(2) hosts_talks [OF sv2(2)] by (simp_all add: hosts_def)
  have reads: "\<exists>h. map_of (cl_topicHandles c1) (fst (?subs ! j)) = Some h \<and> (\<forall>key. tc_get c1 h key = last_value (fill (fst (?subs ! j))) key)
      \<and> set (tc_keys c1 h) = fst ` set (fill (fst (?subs ! j)))" if j: "j < length ?subs" for j
  proof -
    obtain h where h: "map_of (cl_topicHandles c1) (fst (?subs ! j)) = Some h" "tc_index h = int j"
      using c1(4,6) j by (auto simp: numbered_def topic_number_def)
    then have "topic_index_of ss1 (fst (?subs ! j)) = Some (tc_index h)" using b(6) j by (simp add: filled_def)
    from client_reads_topics [OF c1(3) shown(1) this] show ?thesis using h(1) b(6) j by (auto simp: filled_def)
  qed
  show ?thesis
    using c0(1) run1 hears run2 reads shown c1(3) by blast
qed


text \<open>Two subscriptions, one of them with a parameter; the server's user fills one topic, twice for a key.\<close>

definition board_fill :: "string \<Rightarrow> (string \<times> payload) list" where
  "board_fill name = (if name = ''chat'' then [(''a'', PInt32 7), (''b'', PBool True), (''a'', PInt32 8)] else [])"

definition board_env :: env where
  "board_env = plain_env\<lparr>env_onSubscribe := [\<lambda>ss th. map (\<lambda>(key, v). HC_TopicSet (th_name th) key v) (board_fill (th_name th))]\<rparr>"

definition board_calls :: "(string \<times> (string \<times> payload) list) list" where
  "board_calls = [(''news'', []), (''chat'', [(''room'', PInt32 7)])]"

definition board_types :: "string \<Rightarrow> string \<Rightarrow> data_type" where
  "board_types name key = (if key = ''a'' then DT_VarInteger else DT_Bool)"

lemma board_subs: "subscribed board_calls = [(''chat'', [(''room'', PInt32 7)]), (''news'', [])]"
  by code_simp

lemma int_value_small: "body_length (mk_frame ft 0 DT_VarInteger (PInt32 v)) \<le> 1048576"
  by (simp add: body_length_def frame_payload_def isKeyRegistrationFrame_def serializeVarInteger_def order_trans [OF encodeVarInt_length(2)])

lemma board_served: "served_subs board_types board_fill (subscribed board_calls)"
proof -
  have "good_subs (subscribed board_calls)" by code_simp
  moreover have entries: "sync_entries 0 (subscribed board_calls)
      = [(''topic.0.name'', PString ''chat''), (''topic.0.param.room'', PInt32 7), (''topic.1.name'', PString ''news'')]"
    by code_simp
  have paths: "check_key_path ''topic.0.name'' = Inr ()" "check_key_path ''topic.0.param.room'' = Inr ()" "check_key_path ''topic.1.name'' = Inr ()"
    "check_key_path (topic_prefix 0 @ ''a'') = Inr ()" "check_key_path (topic_prefix 0 @ ''b'') = Inr ()"
    by code_simp+
  have "describable (sync_entries 0 (subscribed board_calls))"
    unfolding entries using paths int_value_small faithful_detected [of "PString ''chat''"] faithful_detected [of "PString ''news''"] faithful_detected [of "PInt32 7"]
    by (simp add: describable_def) (simp add: body_length_def frame_payload_def isKeyRegistrationFrame_def)
  moreover have "fillable (board_types ''chat'') 0 (board_fill ''chat'')" "fillable ty 1 (board_fill ''news'')" for ty
    using paths int_value_small faithful_detected [of "PBool True"] faithful_detected [of "PInt32 7"] faithful_detected [of "PInt32 8"]
    by (simp_all add: fillable_def board_types_def board_fill_def) (simp add: body_length_def frame_payload_def isKeyRegistrationFrame_def)
  ultimately show ?thesis
    by (simp add: served_subs_def board_subs All_less_Suc) (simp add: board_fill_def)
qed

theorem topic_client_joins_witness:
  "\<exists>c0 o0 sv1 out1 c1 o1 sv2 h h'.
      client_run [(0, 0, In_Subscribe ''news'' []), (0, 0, In_Subscribe ''chat'' [(''room'', PInt32 7)]),
          (0, 0, In_Connect Connect_Returns), (0, 0, In_Open)] (new_whole_client (format_uuid (replicate 16 1)) ''w'' default_reconnect)
        = fine (default_parser, c0) o0
    \<and> server_run board_env ((1, SI_Connect 1) # map (message_input 2 1) (messages o0)) (configured SessionTopic False 0) = fine sv1 out1
    \<and> for_each (on_message Io_Thread 3) (map (\<lambda>b. [b]) (bytes_to 1 out1)) (default_parser, c0) = fine (default_parser, c1) o1
    \<and> server_run board_env (map (message_input 4 1) (messages o1)) sv1 = fine sv2 []
    \<and> map_of (cl_topicHandles c1) ''chat'' = Some h \<and> tc_get c1 h ''a'' = PInt32 8 \<and> set (tc_keys c1 h) = {''a'', ''b''}
    \<and> map_of (cl_topicHandles c1) ''news'' = Some h' \<and> tc_get c1 h' ''a'' = PNull"
proof -
  have sv: "topical (configured SessionTopic False 0)" by code_simp
  have env: "fills_topics board_env board_fill" by (simp add: fills_topics_def board_env_def plain_env_def)
  have len: "length (replicate 16 (1 :: byte)) = 16" by simp
  have none: "map_of (sv_sessions (configured SessionTopic False 0)) u = None" for u by (simp add: configured_def new_server_def)
  have cut: "\<forall>bs :: bytes. concat (map (\<lambda>b. [b]) bs) = bs" by simp
  have vals: "last_value (board_fill ''chat'') ''a'' = PInt32 8" "last_value (board_fill ''news'') ''a'' = PNull"
    "fst ` set (board_fill ''chat'') = {''a'', ''b''}" by (simp_all add: board_fill_def last_value_def) auto
  from topic_client_joins [OF sv env len none board_served cut, of 0 0 "''w''" default_reconnect 1 1 2 Io_Thread 3 4]
  show ?thesis
  proof (elim exE conjE, goal_cases)
    case (1 c0 o0 sv1 out1 c1 o1 sv2 i)
    have "0 < length (subscribed board_calls)" "1 < length (subscribed board_calls)" by (simp_all add: board_subs)
    then obtain h h' where h: "map_of (cl_topicHandles c1) ''chat'' = Some h" "tc_get c1 h ''a'' = PInt32 8"
      "set (tc_keys c1 h) = {''a'', ''b''}" "map_of (cl_topicHandles c1) ''news'' = Some h'" "tc_get c1 h' ''a'' = PNull"
      using 1(5) [rule_format, of 0] 1(5) [rule_format, of 1] vals by (auto simp: board_subs)
    have run: "client_run [(0, 0, In_Subscribe ''news'' []), (0, 0, In_Subscribe ''chat'' [(''room'', PInt32 7)]),
          (0, 0, In_Connect Connect_Returns), (0, 0, In_Open)] (new_whole_client (format_uuid (replicate 16 1)) ''w'' default_reconnect)
        = fine (default_parser, c0) o0"
      using 1(1) by (simp only: board_calls_def list.map prod.case append.simps)
    show ?case by (intro exI conjI) (rule run 1(2-4) h)+
  qed
qed

end
