(* ===== verification/Returning.thy ===== *)
theory Returning
  imports Client_Topics
begin

text \<open>
  A client that was ready loses its connection, reconnects by itself and catches up: what its registry and
  store still hold from before lies under what it is told. The exchange of messages is that of
  \<open>Joining\<close>; what is new is the reconnect cycle, which is going on until the client is ready
  again, and the old data.
\<close>

section \<open>Old and new\<close>

text \<open>A store over another one: what it has counts, and what it does not have is as in the other.\<close>

definition over :: "flat_state \<Rightarrow> flat_state \<Rightarrow> string \<Rightarrow> fs_entry option" where
  "over fs0 fs = map_of (fs_entries fs0) ++ map_of (fs_entries fs)"

lemma overlay_shown:
  assumes "fs_wf fs0 nxt0" "fs_wirePrefix fs0 = []" "fs_wf fs nxt" "fs_wirePrefix fs = []" "compatible (view fs0) fs"
  shows "(\<exists>t. mi_keys (overlay (view fs0) (view fs)) k = Some (p, t)) \<longleftrightarrow> (\<exists>e. over fs0 fs p = Some e \<and> fe_keyId e = k)"
    "over fs0 fs p = Some e \<Longrightarrow> mi_vals (overlay (view fs0) (view fs)) (fe_keyId e) = Some (fe_value e)"
proof -
  note new = view_shown [OF assms(3,4)] and old = view_shown [OF assms(1,2)]
  have fits: "(\<exists>e0. map_of (fs_entries fs0) p = Some e0 \<and> fe_keyId e0 = fe_keyId e)
      \<or> mi_keys (view fs0) (fe_keyId e) = None \<and> map_of (fs_entries fs0) p = None"
    if "map_of (fs_entries fs) p = Some e" for p e
  proof -
    have "fits_in (view fs0) p (fe_keyId e)" using assms(5) that by (simp add: compatible_def)
    then show ?thesis unfolding fits_in_def using old(1) [of "fe_keyId e" p] old(1) [of _ p] by (metis not_Some_eq)
  qed
  have apart: "mi_keys (view fs) (fe_keyId e) = None" if "map_of (fs_entries fs) p = None" "map_of (fs_entries fs0) p = Some e" for p e
  proof (rule ccontr)
    assume "mi_keys (view fs) (fe_keyId e) \<noteq> None"
    then obtain q t where "mi_keys (view fs) (fe_keyId e) = Some (q, t)" by auto
    then obtain e' where e': "map_of (fs_entries fs) q = Some e'" "fe_keyId e' = fe_keyId e" using new(1) by blast
    have "q \<noteq> p" using e'(1) that(1) by auto
    moreover have "\<exists>t. mi_keys (view fs0) (fe_keyId e) = Some (p, t)" using old(1) that(2) by blast
    ultimately show False using fits [OF e'(1)] old(1) [of "fe_keyId e" q] by (auto simp: e'(2))
  qed
  show "(\<exists>t. mi_keys (overlay (view fs0) (view fs)) k = Some (p, t)) \<longleftrightarrow> (\<exists>e. over fs0 fs p = Some e \<and> fe_keyId e = k)"
  proof (cases "map_of (fs_entries fs) p")
    case None
    then have "\<nexists>t. mi_keys (view fs) k = Some (p, t)" using new(1) by simp
    then have "(\<exists>t. mi_keys (overlay (view fs0) (view fs)) k = Some (p, t))
        \<longleftrightarrow> mi_keys (view fs) k = None \<and> (\<exists>t. mi_keys (view fs0) k = Some (p, t))"
      by (auto simp: overlay_def map_add_Some_iff)
    then show ?thesis using None apart old(1) by (auto simp: over_def map_add_Some_iff)
  next
    case (Some e)
    have "(\<exists>t. mi_keys (overlay (view fs0) (view fs)) k = Some (p, t)) \<longleftrightarrow> (\<exists>t. mi_keys (view fs) k = Some (p, t))"
    proof
      assume "\<exists>t. mi_keys (overlay (view fs0) (view fs)) k = Some (p, t)"
      then consider "\<exists>t. mi_keys (view fs) k = Some (p, t)"
        | "mi_keys (view fs) k = None" "\<exists>t. mi_keys (view fs0) k = Some (p, t)"
        by (auto simp: overlay_def map_add_Some_iff)
      then show "\<exists>t. mi_keys (view fs) k = Some (p, t)"
      proof cases
        case 2
        then obtain e0 where "map_of (fs_entries fs0) p = Some e0" "fe_keyId e0 = k" using old(1) by blast
        then show ?thesis using fits [OF Some] new(1) Some by auto
      qed
    qed (auto simp: overlay_def map_add_Some_iff)
    then show ?thesis using Some new(1) by (auto simp: over_def)
  qed
  show "mi_vals (overlay (view fs0) (view fs)) (fe_keyId e) = Some (fe_value e)" if e: "over fs0 fs p = Some e"
  proof (cases "map_of (fs_entries fs) p")
    case None
    then have "map_of (fs_entries fs0) p = Some e" using e by (auto simp: over_def)
    moreover have "mi_vals (view fs) (fe_keyId e) = None"
      using apart [OF None calculation] by (auto simp: view_def fs_getByKeyId_def split: option.splits)
    ultimately show ?thesis using old(2) by (simp add: overlay_def map_add_Some_iff)
  next
    case (Some e')
    then show ?thesis using e new(2) by (auto simp: over_def overlay_def map_add_Some_iff)
  qed
qed

lemma overlay_reads:
  assumes "kr_consistent (cl_registry c)" "cl_mirror c = overlay (view fs0) (view fs)"
    and "fs_wf fs0 nxt0" "fs_wirePrefix fs0 = []" "fs_wf fs nxt" "fs_wirePrefix fs = []" "compatible (view fs0) fs"
  shows "cl_get c key = (if key \<in> set (fs_keys fs) then fs_get fs key else fs_get fs0 key)"
    "set (cl_keys c) = set (fs_keys fs0) \<union> set (fs_keys fs)"
proof -
  note read = entries_read [OF assms(1), of "over fs0 fs", unfolded assms(2), OF overlay_shown [OF assms(3-7)]]
  show "cl_get c key = (if key \<in> set (fs_keys fs) then fs_get fs key else fs_get fs0 key)"
    using read(1) [where key = key] by (auto simp: over_def fs_get_def has_key split: option.split)
  show "set (cl_keys c) = set (fs_keys fs0) \<union> set (fs_keys fs)" using read(2) by (auto simp: over_def fs_keys_def um_dom)
qed

lemma map_add_covered: "(\<And>k. m' k = None \<Longrightarrow> m k = None) \<Longrightarrow> m ++ m' = m'"
  by (auto simp: fun_eq_iff map_add_def split: option.split)

text \<open>Where nothing has been deleted, the old store is covered.\<close>

lemma overlay_covers:
  assumes "fs_wf fs0 nxt0" "fs_wirePrefix fs0 = []" "fs_wf fs nxt" "fs_wirePrefix fs = []" "compatible (view fs0) fs"
    and "set (fs_keys fs0) \<subseteq> set (fs_keys fs)"
  shows "overlay (view fs0) (view fs) = view fs"
proof -
  note new = view_shown [OF assms(3,4)] and old = view_shown [OF assms(1,2)]
  have known: "mi_keys (view fs) k \<noteq> None" if "mi_keys (view fs0) k \<noteq> None" for k
  proof -
    obtain p t where p: "mi_keys (view fs0) k = Some (p, t)" using \<open>mi_keys (view fs0) k \<noteq> None\<close> by auto
    then obtain e0 where e0: "map_of (fs_entries fs0) p = Some e0" "fe_keyId e0 = k" using old(1) by blast
    then obtain e where e: "map_of (fs_entries fs) p = Some e" using assms(6) by (auto simp: subset_iff has_key)
    have "fits_in (view fs0) p (fe_keyId e)" using assms(5) e by (simp add: compatible_def)
    then have "\<exists>t. mi_keys (view fs0) (fe_keyId e) = Some (p, t)" using p by (auto simp: fits_in_def)
    then have "fe_keyId e = k" using old(1) e0 by auto
    moreover have "\<exists>t. mi_keys (view fs) (fe_keyId e) = Some (p, t)" using new(1) e by blast
    ultimately show ?thesis by auto
  qed
  have vals: "mi_vals (view fs') k = None \<longleftrightarrow> mi_keys (view fs') k = None" for fs' k
    by (auto simp: view_def fs_getByKeyId_def split: option.split)
  have "mi_keys (view fs0) ++ mi_keys (view fs) = mi_keys (view fs)" by (rule map_add_covered) (use known in blast)
  moreover have "mi_vals (view fs0) ++ mi_vals (view fs) = mi_vals (view fs)" by (rule map_add_covered) (use known vals in blast)
  ultimately show ?thesis by (simp add: overlay_def)
qed

section \<open>A client in a reconnect cycle\<close>

text \<open>
  A client in the middle of a reconnect cycle does as one outside a cycle, until it is ready and
  stops the cycle: the second client of the relation is the first one without its cycle.
\<close>

definition beside :: "client \<Rightarrow> client \<Rightarrow> bool" where
  "beside c d \<longleftrightarrow> cl_subscriptions c = [] \<and> (\<exists>rc. \<not> rc_active rc \<and> d = c\<lparr>cl_reconnect := rc\<rparr>)
     \<and> (cl_state c = CS_Ready \<longrightarrow> \<not> rc_active (cl_reconnect c))"

definition runs_beside :: "cres \<Rightarrow> cres \<Rightarrow> bool" where
  "runs_beside r r' \<longleftrightarrow> (\<forall>d out. r' = fine d out \<longrightarrow>
     (\<exists>c out'. r = fine c out' \<and> beside c d \<and> client_sends out' = client_sends out))"

lemma besideE:
  assumes "beside c d"
  obtains rc where "d = c\<lparr>cl_reconnect := rc\<rparr>" "\<not> rc_active rc" "cl_subscriptions c = []"
    "cl_state c = CS_Ready \<Longrightarrow> \<not> rc_active (cl_reconnect c)"
  using assms by (auto simp: beside_def)

lemma besideI:
  "d = c\<lparr>cl_reconnect := rc\<rparr> \<Longrightarrow> \<not> rc_active rc \<Longrightarrow> cl_subscriptions c = [] \<Longrightarrow>
     (cl_state c = CS_Ready \<Longrightarrow> \<not> rc_active (cl_reconnect c)) \<Longrightarrow> beside c d"
  by (auto simp: beside_def)

lemma beside_fine: "beside c d \<Longrightarrow> client_sends out = client_sends out' \<Longrightarrow> runs_beside (fine c out) (fine d out')"
  by (simp add: runs_beside_def)

lemma beside_then:
  assumes "runs_beside r r'" "\<And>c d. beside c d \<Longrightarrow> runs_beside (f c) (g d)"
  shows "runs_beside (and_then r f) (and_then r' g)"
  unfolding runs_beside_def
proof (intro allI impI)
  fix d out
  assume "and_then r' g = fine d out"
  then obtain d1 out1 out2 where d: "r' = fine d1 out1" "g d1 = fine d out2" "out = out1 @ out2" by (rule and_then_fine)
  then obtain c1 out1' where c1: "r = fine c1 out1'" "beside c1 d1" "client_sends out1' = client_sends out1"
    using assms(1) by (auto simp: runs_beside_def)
  then obtain c out2' where "f c1 = fine c out2'" "beside c d" "client_sends out2' = client_sends out2"
    using assms(2) [OF c1(2)] d(2) by (auto simp: runs_beside_def)
  then show "\<exists>c out'. and_then r f = fine c out' \<and> beside c d \<and> client_sends out' = client_sends out"
    using c1 d(3) by simp
qed

lemma beside_same:
  assumes "beside c d"
  shows "cl_subscriptions d = []" "cl_state d = cl_state c" "cl_registry d = cl_registry c" "cl_pendingValues d = cl_pendingValues c"
    "ws_open d = ws_open c" "cl_subscriptions c = []" "\<not> rc_active (cl_reconnect d)"
  using assms by (auto simp: beside_def ws_open_def)

lemma beside_changes:
  assumes "beside c d"
  shows "beside (leave_identifying c) (leave_identifying d)" "beside (put_value k v c) (put_value k v d)"
    "beside (c\<lparr>cl_registry := kr\<rparr>) (d\<lparr>cl_registry := kr\<rparr>)" "beside (c\<lparr>cl_pendingValues := pv\<rparr>) (d\<lparr>cl_pendingValues := pv\<rparr>)"
    "beside (c\<lparr>cl_topicKeyCache := tk\<rparr>) (d\<lparr>cl_topicKeyCache := tk\<rparr>)" "beside (c\<lparr>cl_topicHandles := hs\<rparr>) (d\<lparr>cl_topicHandles := hs\<rparr>)"
  using assms by (auto elim!: besideE intro!: besideI simp: leave_identifying_def put_value_def)

lemma beside_info:
  assumes "beside c d"
  shows "snd (getTopicInfo c k p) = snd (getTopicInfo d k p)" "beside (fst (getTopicInfo c k p)) (fst (getTopicInfo d k p))"
proof -
  have "cl_topicKeyCache d = cl_topicKeyCache c" using assms by (auto elim: besideE)
  then show "snd (getTopicInfo c k p) = snd (getTopicInfo d k p)" "beside (fst (getTopicInfo c k p)) (fst (getTopicInfo d k p))"
    using assms beside_changes(5) [OF assms] by (auto simp: getTopicInfo_def Let_def split: option.split)
qed

lemma beside_deliver:
  assumes "beside c d"
  shows "runs_beside (deliver info p v c) (deliver info p v d)"
proof -
  have "cl_indexToTopic d = cl_indexToTopic c" "cl_topicHandles d = cl_topicHandles c" using assms by (auto elim: besideE)
  then show ?thesis
    using beside_changes(6) [OF assms] assms by (auto simp: deliver_def intro!: beside_fine split: option.split)
qed

lemma beside_send: "beside c d \<Longrightarrow> runs_beside (sendFrame f c) (sendFrame f d)"
  by (auto simp: runs_beside_def sendFrame_def sendRaw_def run_res_def beside_same fine_def split: sum.split)

lemma beside_ready:
  assumes "beside c d"
  shows "runs_beside (become_ready Io_Thread c) (become_ready Io_Thread d)"
proof -
  obtain rc where d: "d = c\<lparr>cl_reconnect := rc\<rparr>" "\<not> rc_active rc" "cl_subscriptions c = []" using assms by (rule besideE)
  have "beside (c\<lparr>cl_state := CS_Ready, cl_reconnect := rc'\<rparr>) (d\<lparr>cl_state := CS_Ready\<rparr>)" if "\<not> rc_active rc'" for rc'
    using d that by (auto intro!: besideI)
  moreover have "beside (c\<lparr>cl_state := CS_Ready\<rparr>) (d\<lparr>cl_state := CS_Ready\<rparr>)" if "\<not> rc_active (cl_reconnect c)"
    using d that by (auto intro!: besideI)
  moreover have "\<exists>rc'. rc_stop False (cl_reconnect c) = Inr rc' \<and> \<not> rc_active rc'" by (simp add: rc_stop_def join_thread_def)
  ultimately show ?thesis
    using d by (auto simp: become_ready_def run_res_def runs_beside_def client_sends_def)
qed

lemma beside_frame:
  assumes "beside c d" "frameType f \<in> {ServerKeyRegistration, ServerSync, ServerValue}"
  shows "runs_beside (handleFrame Io_Thread f c) (handleFrame Io_Thread f d)"
proof -
  have told: "runs_beside (let (c, info) = getTopicInfo c k p in deliver info p v c) (let (d, info) = getTopicInfo d k p in deliver info p v d)"
    if "beside c d" for c d k p v
    using beside_deliver [OF beside_info(2) [OF that]] beside_info(1) [OF that] by (simp add: split_beta)
  have quietly: "runs_beside (fine c []) (fine d [])" if "beside c d" for c d using that by (simp add: beside_fine)
  consider (reg) "frameType f = ServerKeyRegistration" | (sync) "frameType f = ServerSync" | (val) "frameType f = ServerValue"
    using assms(2) by auto
  then show ?thesis
  proof cases
    case reg
    note l = beside_changes(1) [OF assms(1)]
    show ?thesis
    proof (cases "\<exists>p kr. payload f = PString p \<and> registerOne (cl_registry (leave_identifying d)) (keyId f) p (dataType f) = Inr kr")
      case True
      then obtain p kr where p: "payload f = PString p" "registerOne (cl_registry (leave_identifying d)) (keyId f) p (dataType f) = Inr kr" by blast
      note m = beside_changes(3) [OF l, of kr]
      show ?thesis
      proof (cases "map_of (cl_pendingValues (leave_identifying d)) (keyId f)")
        case None
        have "runs_beside (fine (leave_identifying c\<lparr>cl_registry := kr\<rparr>) []) (fine (leave_identifying d\<lparr>cl_registry := kr\<rparr>) [])"
          by (rule quietly [OF m])
        then show ?thesis
          using None p by (simp add: reg handleFrame_def on_ServerKeyRegistration_def run_res_def Let_def beside_same [OF l])
      next
        case (Some g)
        have "runs_beside (and_then (let (c, info) = getTopicInfo c (keyId f) p in deliver info p (payload g) c)
              (\<lambda>c. fine (c\<lparr>cl_pendingValues := AList.delete (keyId f) (cl_pendingValues c)\<rparr>) []))
            (and_then (let (d, info) = getTopicInfo d (keyId f) p in deliver info p (payload g) d)
              (\<lambda>d. fine (d\<lparr>cl_pendingValues := AList.delete (keyId f) (cl_pendingValues d)\<rparr>) []))" if "beside c d" for c d
          using that by (intro beside_then told quietly) (simp_all add: beside_same beside_changes)
        from this [OF beside_changes(2) [OF m]] Some p show ?thesis
          by (simp add: reg handleFrame_def on_ServerKeyRegistration_def run_res_def Let_def split_beta beside_same [OF l])
      qed
    next
      case False
      have "runs_beside r (leave_identifying d, [], Some e)" for r e by (simp add: runs_beside_def fine_def)
      then show ?thesis using False quietly [OF l]
        by (auto simp: reg handleFrame_def on_ServerKeyRegistration_def run_res_def Let_def split: payload.split sum.split)
    qed
  next
    case sync
    note l = beside_changes(1) [OF assms(1)]
    have "runs_beside (on_ServerSync Io_Thread c) (on_ServerSync Io_Thread d)"
      unfolding on_ServerSync_def Let_def beside_same(2) [OF l]
      by (intro beside_then) (auto simp: beside_same intro: beside_send [OF l] quietly [OF l] beside_ready quietly)
    then show ?thesis using sync by (simp add: handleFrame_def)
  next
    case val
    note kept = beside_same(3) [OF assms(1)]
    show ?thesis
    proof (cases "hasKeyId (cl_registry d) (keyId f)")
      case False
      have "runs_beside (and_then (sendFrame (signal ClientKeyRequest (keyId f)) c)
            (\<lambda>c. fine (c\<lparr>cl_pendingValues := AList.update (keyId f) f (cl_pendingValues c)\<rparr>) []))
          (and_then (sendFrame (signal ClientKeyRequest (keyId f)) d)
            (\<lambda>d. fine (d\<lparr>cl_pendingValues := AList.update (keyId f) f (cl_pendingValues d)\<rparr>) []))"
        by (intro beside_then beside_send assms(1) quietly) (simp add: beside_same beside_changes)
      then show ?thesis using False by (simp add: val handleFrame_def on_ServerValue_def kept)
    next
      case True
      note m = beside_changes(2) [OF assms(1), of "keyId f" "payload f"]
      have ready: "runs_beside (if cl_state c = CS_Synchronizing then become_ready Io_Thread c else fine c [])
          (if cl_state d = CS_Synchronizing then become_ready Io_Thread d else fine d [])" if "beside c d" for c d
        using that by (simp add: beside_same quietly beside_ready)
      have "runs_beside (case getByKeyId (cl_registry (put_value (keyId f) (payload f) c)) (keyId f) of None \<Rightarrow> fine (put_value (keyId f) (payload f) c) []
          | Some e \<Rightarrow> (let (c, info) = getTopicInfo (put_value (keyId f) (payload f) c) (keyId f) (ke_path e) in deliver info (ke_path e) (payload f) c))
        (case getByKeyId (cl_registry (put_value (keyId f) (payload f) d)) (keyId f) of None \<Rightarrow> fine (put_value (keyId f) (payload f) d) []
          | Some e \<Rightarrow> (let (d, info) = getTopicInfo (put_value (keyId f) (payload f) d) (keyId f) (ke_path e) in deliver info (ke_path e) (payload f) d))"
        using quietly [OF m] told [OF m] by (simp add: beside_same [OF m] split: option.split)
      from beside_then [OF this ready] show ?thesis
        using True by (simp add: val handleFrame_def on_ServerValue_def Let_def kept)
    qed
  qed
qed

lemma beside_frames:
  assumes "list_all (\<lambda>f. frameType f \<in> {ServerKeyRegistration, ServerSync, ServerValue}) fs" "beside c d"
  shows "runs_beside (for_each (handleFrame Io_Thread) fs c) (for_each (handleFrame Io_Thread) fs d)"
  using assms
proof (induction fs arbitrary: c d)
  case (Cons f fs)
  then show ?case using beside_then [OF beside_frame [of c d f] Cons.IH] by simp
qed (simp add: beside_fine)

section \<open>Becoming ready again\<close>

lemma for_each_rest:
  assumes "for_each f (x # xs) c = fine c' out" "f x c = fine c1 out1"
  obtains out2 where "for_each f xs c1 = fine c' out2"
  using assms by (auto simp: fine_def and_then_def split: prod.splits option.splits)

lemma key_leads_on:
  assumes "frameType f = ServerKeyRegistration \<or> frameType f = ServerSync" "calm c" "cl_state c \<in> {CS_Identifying, CS_Synchronizing, CS_Ready}"
    "handleFrame who f c = fine c' out"
  shows "cl_state c' \<in> {CS_Synchronizing, CS_Ready}"
proof -
  let ?c = "leave_identifying c"
  have c: "cl_state ?c \<in> {CS_Synchronizing, CS_Ready}" "cl_pendingValues ?c = []" "cl_subscriptions ?c = []" "\<not> rc_active (cl_reconnect ?c)"
    using assms(2,3) by (auto simp: leave_identifying_def calm_def)
  show ?thesis
  proof (cases "frameType f = ServerSync")
    case True
    obtain out' where "sendFrame (signal ClientReady 0) ?c = fine ?c out'" using sendFrame_signal [of ClientReady 0 ?c] by auto
    then show ?thesis
      using c assms(4) True by (auto simp: handleFrame_def on_ServerSync_def become_ready_def Let_def split: if_splits)
  next
    case False
    then have "frameType f = ServerKeyRegistration" using assms(1) by blast
    then show ?thesis
      using c assms(4)
      by (auto simp: handleFrame_def on_ServerKeyRegistration_def run_res_def Let_def fine_def split: payload.splits sum.splits)
  qed
qed

lemma keys_lead_on:
  assumes "list_all (\<lambda>f. frameType f = ServerKeyRegistration \<or> frameType f = ServerSync) fs" "calm c" "acceptable_all (cl_mirror c) fs"
    "kr_size (cl_registry c) + registrations fs \<le> 10000" "for_each (handleFrame who) fs c = fine c' out"
    "cl_state c \<in> {CS_Synchronizing, CS_Ready} \<or> cl_state c = CS_Identifying \<and> fs \<noteq> []"
  shows "cl_state c' \<in> {CS_Synchronizing, CS_Ready}"
  using assms
proof (induction fs arbitrary: c out)
  case (Cons f fs)
  obtain c1 out1 where 1: "handleFrame who f c = fine c1 out1" "calm c1" "cl_mirror c1 = mirror_frame (cl_mirror c) f"
    "kr_size (cl_registry c1) \<le> kr_size (cl_registry c) + registrations [f]"
    using follow_frame [of c f who] Cons.prems by (auto simp: calm_following)
  have "cl_state c1 \<in> {CS_Synchronizing, CS_Ready}" using key_leads_on [OF _ Cons.prems(2) _ 1(1)] Cons.prems(1,6) by auto
  moreover obtain out2 where "for_each (handleFrame who) fs c1 = fine c' out2" by (rule for_each_rest [OF Cons.prems(5) 1(1)])
  ultimately show ?case using Cons.IH [of c1] Cons.prems 1 by auto
qed simp

lemma value_readies:
  assumes "calm c" "cl_state c \<in> {CS_Synchronizing, CS_Ready}" "frameType f = ServerValue" "acceptable (cl_mirror c) f"
    "handleFrame who f c = fine c' out"
  shows "cl_state c' = CS_Ready"
proof -
  obtain e where e: "getByKeyId (cl_registry c) (keyId f) = Some e"
    using assms(3,4) by (auto simp: acceptable_def cl_mirror_def)
  let ?c = "put_value (keyId f) (payload f) c"
  have put: "cl_registry ?c = cl_registry c" "cl_state ?c = cl_state c" "following ?c" "cl_subscriptions ?c = []"
    using following_cong [of ?c c] assms(1) by (simp_all add: put_value_def calm_following)
  then obtain c1 where c1: "getTopicInfo ?c (keyId f) (ke_path e) = (c1, parse_topic_path (ke_path e))" "cl_state c1 = cl_state c"
    "cl_subscriptions c1 = []" "\<not> rc_active (cl_reconnect c1)"
    using getTopicInfo_current [of ?c "keyId f" e] e by (auto simp: following_def)
  obtain c2 out2 where c2: "deliver (parse_topic_path (ke_path e)) (ke_path e) (payload f) c1 = fine c2 out2" "same_data c1 c2"
    using deliver_same by blast
  have "cl_state c2 = cl_state c" "cl_subscriptions c2 = []" "\<not> rc_active (cl_reconnect c2)"
    using deliver_quiet [OF c2(1)] c1(2-4) c2(2) by (simp_all add: same_data_def)
  moreover have "hasKeyId (cl_registry c) (keyId f)" using e by (simp add: hasKeyId_def getByKeyId_def)
  ultimately show ?thesis
    using assms(2,3,5) e put(1) c1(1) c2(1)
    by (auto simp: handleFrame_def on_ServerValue_def become_ready_def split: if_splits)
qed

lemma values_ready:
  assumes "list_all (\<lambda>f. frameType f = ServerValue) fs" "calm c" "acceptable_all (cl_mirror c) fs"
    "kr_size (cl_registry c) \<le> 10000" "for_each (handleFrame who) fs c = fine c' out"
    "cl_state c = CS_Synchronizing \<and> fs \<noteq> [] \<or> cl_state c = CS_Ready"
  shows "cl_state c' = CS_Ready"
  using assms
proof (induction fs arbitrary: c out)
  case (Cons f fs)
  obtain c1 out1 where 1: "handleFrame who f c = fine c1 out1" "calm c1" "cl_mirror c1 = mirror_frame (cl_mirror c) f"
    "kr_size (cl_registry c1) \<le> kr_size (cl_registry c) + registrations [f]"
    using follow_frame [of c f who] Cons.prems by (auto simp: calm_following)
  moreover have "cl_state c1 = CS_Ready" using value_readies [OF Cons.prems(2) _ _ _ 1(1)] Cons.prems(1,3,6) by auto
  moreover obtain out2 where "for_each (handleFrame who) fs c1 = fine c' out2" by (rule for_each_rest [OF Cons.prems(5) 1(1)])
  ultimately show ?case using Cons.IH [of c1] Cons.prems by auto
qed simp

section \<open>The connection is lost, and opened again\<close>

text \<open>Rounds of the cycle: the connection is lost, or is not opened; after the delay the client connects.\<close>

definition rounds :: "(int \<times> u64 \<times> int \<times> u64) list \<Rightarrow> (int \<times> u64 \<times> client_input) list" where
  "rounds rs = concat (map (\<lambda>(t, j, t', j'). [(t, j, In_Close), (t', j', In_Reconnect_Timer Connect_Returns)]) rs)"

text \<open>The client after so many attempts.\<close>

definition away :: "int \<Rightarrow> heartbeat \<Rightarrow> client \<Rightarrow> client" where
  "away k hb c = c\<lparr>cl_heartbeat := hb, cl_ws := Some False, cl_state := CS_Connecting,
     cl_reconnect := (cl_reconnect c)\<lparr>rc_active := True, rc_attempt := k, rc_stopRequested := False, rc_thread := Finished\<rparr>\<rparr>"

definition at_rest :: "heartbeat \<Rightarrow> bool" where
  "at_rest hb \<longleftrightarrow> hb_running hb \<or> \<not> joinable (hb_thread hb)"

lemma hb_stops: "at_rest hb \<Longrightarrow> \<exists>hb'. hb_stop False hb = Inr hb' \<and> \<not> hb_running hb' \<and> at_rest hb'"
  by (auto simp: at_rest_def hb_stop_def join_thread_def joinable_def)

lemma sends_more [simp]:
  "client_sends (Out_WsClose # out) = client_sends out" "client_sends (Out_Disconnect # out) = client_sends out"
  "client_sends (Out_Reconnecting a d # out) = client_sends out"
  by (simp_all add: client_sends_def)

lemma lost_round:
  assumes "cl_ws c \<noteq> None" "\<not> cl_intentionalDisconnect c" "at_rest (cl_heartbeat c)" "ro_enabled (rc_options (cl_reconnect c))"
    and k: "k = (if rc_active (cl_reconnect c) then rc_attempt (cl_reconnect c) else 0)"
    and "ro_maxRetries (rc_options (cl_reconnect c)) \<le> 0 \<or> k < ro_maxRetries (rc_options (cl_reconnect c))"
    and "\<not> isl (calculateDelay (rc_options (cl_reconnect c)) j (k + 1))" "rc_active (cl_reconnect c) \<Longrightarrow> \<not> rc_stopRequested (cl_reconnect c)"
  shows "\<exists>hb out. client_run [(t, j, In_Close), (t', j', In_Reconnect_Timer Connect_Returns)] (p, c) = fine (p, away (k + 1) hb c) out
    \<and> \<not> hb_running hb \<and> at_rest hb \<and> client_sends out = []"
proof -
  obtain hb where hb: "hb_stop False (cl_heartbeat c) = Inr hb" "\<not> hb_running hb" "at_rest hb" using hb_stops [OF assms(3)] by blast
  obtain d where d: "calculateDelay (rc_options (cl_reconnect c)) j (k + 1) = Inr d" using assms(7) by (cases "calculateDelay (rc_options (cl_reconnect c)) j (k + 1)") auto
  let ?rc = "(cl_reconnect c)\<lparr>rc_active := True, rc_attempt := k + 1, rc_stopRequested := False, rc_thread := Looping\<rparr>"
  let ?c = "c\<lparr>cl_heartbeat := hb, cl_ws := None, cl_state := CS_Reconnecting, cl_reconnect := ?rc\<rparr>"
  have start: "(if rc_active (cl_reconnect c) then rc_retry False j (cl_reconnect c) else rc_start False j (cl_reconnect c))
      = Inr (?rc, [RC_Reconnecting (k + 1) d])"
    using assms(4,6,8) d unfolding k
    by (cases "cl_reconnect c"; cases "rc_active (cl_reconnect c)")
      (auto simp: rc_retry_def rc_start_def rc_scheduleNext_def join_thread_def assign_thread_def joinable_def Let_def)
  have lost: "client_step t j In_Close (p, c) = fine (p, ?c) [Out_WsClose, Out_Disconnect, Out_Reconnecting (k + 1) d]"
    using assms(1,2) hb(1) start
    by (cases "rc_active (cl_reconnect c)")
      (simp_all add: client_step_def handleClose_def stop_heartbeat_def drop_ws_def run_reconnect_def on_rc_event_def run_res_def keep_parser_def fine_def and_then_def)
  have "client_step t' j' (In_Reconnect_Timer Connect_Returns) (p, ?c) = fine (p, away (k + 1) hb c) [Out_WsConnect (cl_url c)]"
    using assms(2)
    by (simp add: client_step_def on_reconnect_timer_def rc_fire_def rc_loop_end_def connect_def keep_parser_def fine_def and_then_def away_def)
  then show ?thesis
    using lost hb(2,3)
    by (intro exI [of _ hb] exI [of _ "[Out_WsClose, Out_Disconnect, Out_Reconnecting (k + 1) d, Out_WsConnect (cl_url c)]"]) simp
qed

lemma away_away [simp]: "away k hb (away k' hb' c) = away k hb c" by (simp add: away_def)

lemma lost_rounds:
  assumes "cl_ws c \<noteq> None" "\<not> cl_intentionalDisconnect c" "at_rest (cl_heartbeat c)" "ro_enabled (rc_options (cl_reconnect c))"
    "\<not> rc_active (cl_reconnect c)" "rs \<noteq> []"
    and "ro_maxRetries (rc_options (cl_reconnect c)) \<le> 0 \<or> int (length rs) \<le> ro_maxRetries (rc_options (cl_reconnect c))"
    and "delays_defined (rc_options (cl_reconnect c)) (map (\<lambda>(t, j, t', j'). j) rs)"
  shows "\<exists>hb out. client_run (rounds rs) (p, c) = fine (p, away (int (length rs)) hb c) out
    \<and> \<not> hb_running hb \<and> at_rest hb \<and> client_sends out = []"
  using assms(6-8)
proof (induction rs rule: rev_induct)
  case (snoc r rs)
  obtain t j t' j' where r: "r = (t, j, t', j')" by (cases r)
  have last: "\<exists>hb out. client_run (rounds [r]) (p, c') = fine (p, away (int (length (rs @ [r]))) hb c) out
      \<and> \<not> hb_running hb \<and> at_rest hb \<and> client_sends out = []"
    if c': "rs = [] \<and> c' = c \<or> (\<exists>hb. at_rest hb \<and> c' = away (int (length rs)) hb c)" for c'
  proof -
    have c: "cl_ws c' \<noteq> None" "\<not> cl_intentionalDisconnect c'" "at_rest (cl_heartbeat c')"
      "int (length rs) = (if rc_active (cl_reconnect c') then rc_attempt (cl_reconnect c') else 0)"
      "rc_active (cl_reconnect c') \<Longrightarrow> \<not> rc_stopRequested (cl_reconnect c')"
      and same: "rc_options (cl_reconnect c') = rc_options (cl_reconnect c)" "\<And>k hb. away k hb c' = away k hb c"
      using c' assms(1-5) by (auto simp: away_def)
    have left: "ro_maxRetries (rc_options (cl_reconnect c)) \<le> 0 \<or> int (length rs) < ro_maxRetries (rc_options (cl_reconnect c))"
      "\<not> isl (calculateDelay (rc_options (cl_reconnect c)) j (int (length rs) + 1))"
      using snoc.prems(2,3) by (auto simp: r delays_defined_def)
    have r': "rounds [r] = [(t, j, In_Close), (t', j', In_Reconnect_Timer Connect_Returns)]" "int (length (rs @ [r])) = int (length rs) + 1"
      by (simp_all add: rounds_def r)
    show ?thesis unfolding r' same(2) [symmetric]
      by (rule lost_round [OF c(1-3) _ c(4) _ _ c(5)]) (simp_all only: same(1) assms(4) left not_False_eq_True)
  qed
  show ?case
  proof (cases "rs = []")
    case True
    then show ?thesis using last [of c] by simp
  next
    case False
    then obtain hb out where 1: "client_run (rounds rs) (p, c) = fine (p, away (int (length rs)) hb c) out"
      "at_rest hb" "client_sends out = []" using snoc by (auto simp: delays_defined_def)
    obtain hb' out' where 2: "client_run (rounds [r]) (p, away (int (length rs)) hb c) = fine (p, away (int (length (rs @ [r]))) hb' c) out'"
      "\<not> hb_running hb'" "at_rest hb'" "client_sends out' = []" using last 1(2) by blast
    have "client_run (rounds (rs @ [r])) (p, c) = fine (p, away (int (length (rs @ [r]))) hb' c) (out @ out')"
      using 1(1) 2(1) by (simp add: rounds_def client_run_append)
    then show ?thesis using 1(3) 2(2-4) by auto
  qed
qed simp

lemma client_reopens:
  assumes "\<not> hb_running hb" "at_rest hb" "cl_id c = format_uuid me" "length me = 16" "cl_subscriptions c = []"
  shows "\<exists>c' out. client_run [(t, j, In_Open)] (p, away k hb c) = fine (p, c') out
    \<and> encode (identification me) = Inr (client_sends out)
    \<and> ws_open c' \<and> cl_state c' = CS_Identifying
    \<and> (\<exists>hb'. c' = (away k hb c)\<lparr>cl_state := CS_Identifying, cl_ws := Some True, cl_heartbeat := hb'\<rparr>)"
proof -
  obtain hello where hello: "encode (identification me) = Inr hello"
    using identification_facts(1) [OF assms(4)] transportable_encode by blast
  obtain hb' where hb': "hb_start False t hb = Inr hb'"
    using assms(1,2) by (simp add: hb_start_def hb_stop_def at_rest_def assign_thread_def joinable_def)
  let ?c' = "(away k hb c)\<lparr>cl_state := CS_Identifying, cl_ws := Some True, cl_heartbeat := hb'\<rparr>"
  have "client_run [(t, j, In_Open)] (p, away k hb c) = fine (p, ?c') [Out_Send hello, Out_Connect]"
    using hb' hello identify_payload_uuid [OF assms(4)] assms(3,5)
    by (simp add: away_def client_step_def handleOpen_def keep_parser_def run_res_def identification_def sendFrame_def sendRaw_def ws_open_def fine_def and_then_def)
  then show ?thesis using hello by (intro exI [of _ ?c'] exI [of _ "[Out_Send hello, Out_Connect]"]) (auto simp: ws_open_def)
qed

section \<open>Catching up\<close>

text \<open>A client that its connection can be lost for: not disconnected on purpose, and set up to reconnect.\<close>

definition can_return :: "client \<Rightarrow> bool" where
  "can_return c \<longleftrightarrow> cl_ws c \<noteq> None \<and> \<not> cl_intentionalDisconnect c \<and> at_rest (cl_heartbeat c)
     \<and> ro_enabled (rc_options (cl_reconnect c))"

text \<open>No key has got another id meanwhile, and no id another key.\<close>

definition keeps_ids :: "flat_state \<Rightarrow> flat_state \<Rightarrow> bool" where
  "keeps_ids fs0 fs \<longleftrightarrow> (\<forall>key e key0 e0. map_of (fs_entries fs) key = Some e \<longrightarrow> map_of (fs_entries fs0) key0 = Some e0 \<longrightarrow>
     (key = key0 \<longleftrightarrow> fe_keyId e = fe_keyId e0))"

lemma kept_ids_compatible:
  assumes "keeps_ids fs0 fs" "fs_wf fs0 nxt0" "fs_wirePrefix fs0 = []"
  shows "compatible (view fs0) fs"
  unfolding compatible_def
proof (intro allI impI)
  fix key e
  assume e: "map_of (fs_entries fs) key = Some e"
  note old = view_shown(1) [OF assms(2,3)]
  show "fits_in (view fs0) key (fe_keyId e)"
  proof (cases "mi_keys (view fs0) (fe_keyId e)")
    case None
    have "mi_keys (view fs0) k \<noteq> Some (key, t)" for k t
    proof
      assume k: "mi_keys (view fs0) k = Some (key, t)"
      then obtain e0 where e0: "map_of (fs_entries fs0) key = Some e0" "fe_keyId e0 = k" using old by blast
      then have "fe_keyId e = fe_keyId e0" using assms(1) e unfolding keeps_ids_def by blast
      then show False using None k e0(2) by simp
    qed
    then show ?thesis using None by (simp add: fits_in_def)
  next
    case (Some pt)
    then obtain p t where p: "mi_keys (view fs0) (fe_keyId e) = Some (p, t)" by (cases pt) auto
    then obtain e0 where "map_of (fs_entries fs0) p = Some e0" "fe_keyId e0 = fe_keyId e" using old by blast
    then have "key = p" using assms(1) e by (auto simp: keeps_ids_def)
    then show ?thesis using p by (simp add: fits_in_def)
  qed
qed

lemma client_comes_back:
  assumes "calm c" "can_return c" "cl_id c = format_uuid me" "length me = 16" "rs \<noteq> []"
    and "ro_maxRetries (rc_options (cl_reconnect c)) \<le> 0 \<or> int (length rs) \<le> ro_maxRetries (rc_options (cl_reconnect c))"
    and "delays_defined (rc_options (cl_reconnect c)) (map (\<lambda>(t, j, t', j'). j) rs)"
  shows "\<exists>c0 out d0. client_run (rounds rs @ [(t, j, In_Open)]) (p, c) = fine (p, c0) out
    \<and> encode (identification me) = Inr (client_sends out) \<and> cl_state c0 = CS_Identifying
    \<and> beside c0 d0 \<and> waiting d0 \<and> calm d0 \<and> cl_mirror d0 = cl_mirror c \<and> cl_registry d0 = cl_registry c"
proof -
  have idle: "\<not> rc_active (cl_reconnect c)" "cl_subscriptions c = []" using assms(1) by (simp_all add: calm_def)
  obtain hb out where 1: "client_run (rounds rs) (p, c) = fine (p, away (int (length rs)) hb c) out"
    "\<not> hb_running hb" "at_rest hb" "client_sends out = []"
    using lost_rounds [OF _ _ _ _ idle(1) assms(5-7)] assms(2) unfolding can_return_def by blast
  obtain c0 out' hb' where 2: "client_run [(t, j, In_Open)] (p, away (int (length rs)) hb c) = fine (p, c0) out'"
    "encode (identification me) = Inr (client_sends out')" "ws_open c0" "cl_state c0 = CS_Identifying"
    "c0 = (away (int (length rs)) hb c)\<lparr>cl_state := CS_Identifying, cl_ws := Some True, cl_heartbeat := hb'\<rparr>"
    using client_reopens [OF 1(2,3) assms(3,4) idle(2)] by blast
  let ?d0 = "c0\<lparr>cl_reconnect := cl_reconnect c\<rparr>"
  have "client_run (rounds rs @ [(t, j, In_Open)]) (p, c) = fine (p, c0) (out @ out')"
    unfolding client_run_append 1(1) and_then_simps 2(1) by simp
  moreover have "beside c0 ?d0" using idle 2(5) by (intro besideI) (simp_all add: away_def)
  moreover have "waiting ?d0" using 2(3,4) by (simp add: waiting_def ws_open_def)
  moreover have "cl_mirror ?d0 = cl_mirror c" "cl_registry ?d0 = cl_registry c" "calm ?d0"
    using cl_mirror_cong [of ?d0 c] calm_cong [of ?d0 c] assms(1) unfolding 2(5) by (simp_all add: away_def)
  ultimately show ?thesis
    using 1(4) 2(2,4) by (intro exI [of _ c0] exI [of _ "out @ out'"] exI [of _ ?d0]) simp
qed

lemma client_asks_again:
  assumes "beside c d" "waiting d" "calm d" "cl_state c = CS_Identifying"
    and "compatible (cl_mirror d) fs" "kr_size (cl_registry d) + length (fs_entries fs) \<le> 10000"
    and "fs_wf fs nxt" "sendable fs" "encode (signal ClientReady 0) = Inr ready"
    and "encodeBatch (greeting False fs) = Inr bs" "concat chunks = bs"
  shows "\<exists>c' out d'. for_each (on_message Io_Thread now) chunks (default_parser, c) = fine (default_parser, c') out
    \<and> client_sends out = ready \<and> beside c' d' \<and> calm d' \<and> cl_state d' \<in> {CS_Synchronizing, CS_Ready}
    \<and> kr_size (cl_registry d') \<le> kr_size (cl_registry d) + length (fs_entries fs)
    \<and> cl_mirror d' = foldl mirror_frame (cl_mirror d) (buildKeyFrames fs @ [signal ServerSync 0])"
proof -
  have keys: "list_all (\<lambda>f. frameType f = ServerKeyRegistration \<or> frameType f = ServerSync) (greeting False fs)"
    using buildKeyFrames_types by (auto simp: greeting_def list_all_iff mk_frame_def)
  then have kinds: "list_all (\<lambda>f. frameType f \<in> {ServerKeyRegistration, ServerSync, ServerValue}) (greeting False fs)"
    by (auto simp: list_all_iff)
  obtain d' out where d': "for_each (handleFrame Io_Thread) (greeting False fs) d = fine d' out" "client_sends out = ready" "calm d'"
    "kr_size (cl_registry d') \<le> kr_size (cl_registry d) + length (fs_entries fs)"
    "cl_mirror d' = foldl mirror_frame (cl_mirror d) (buildKeyFrames fs @ [signal ServerSync 0])"
    using client_asks [OF assms(2,3,5-9), of Io_Thread False] by blast
  obtain c' out' where c': "for_each (handleFrame Io_Thread) (greeting False fs) c = fine c' out'" "beside c' d'" "client_sends out' = ready"
    using beside_frames [OF kinds assms(1)] d'(1,2) by (auto simp: runs_beside_def)
  have "acceptable_all (cl_mirror d) (greeting False fs)" "registrations (greeting False fs) = length (fs_entries fs)"
    using sync_accepted(1,2) [OF assms(7,8,5)] by (simp_all add: greeting_def)
  then have "cl_state d' \<in> {CS_Synchronizing, CS_Ready}"
    using keys_lead_on [OF keys assms(3) _ _ d'(1)] beside_same(2) [OF assms(1)] assms(4,6) by (simp add: greeting_def)
  then show ?thesis using frames_handled [OF greeting_travels [OF assms(8,7)] assms(10,11) c'(1)] c'(2,3) d'(3-5) by blast
qed

lemma client_catches_up:
  assumes "beside c d" "calm d" "cl_state d \<in> {CS_Synchronizing, CS_Ready}" "kr_size (cl_registry d) \<le> 10000" "fs_entries fs \<noteq> []"
    and "acceptable_all (cl_mirror d) (buildValueFrames fs)" "registrations (buildValueFrames fs) = 0"
    and "list_all (\<lambda>f. transportable f \<and> body_length f \<le> 1048576) (buildValueFrames fs)"
    and "encodeBatch (buildValueFrames fs) = Inr bs" "concat chunks = bs"
  shows "\<exists>c' out. for_each (on_message Io_Thread now) chunks (default_parser, c) = fine (default_parser, c') out
    \<and> calm c' \<and> cl_state c' = CS_Ready \<and> cl_mirror c' = foldl mirror_frame (cl_mirror d) (buildValueFrames fs)"
proof -
  have vals: "list_all (\<lambda>f. frameType f = ServerValue) (buildValueFrames fs)" "buildValueFrames fs \<noteq> []"
    using assms(5) by (auto simp: buildValueFrames_def list_all_iff mk_frame_def)
  then have kinds: "list_all (\<lambda>f. frameType f \<in> {ServerKeyRegistration, ServerSync, ServerValue}) (buildValueFrames fs)"
    by (simp add: list_all_iff)
  obtain d' out where d': "for_each (handleFrame Io_Thread) (buildValueFrames fs) d = fine d' out" "calm d'"
    "cl_mirror d' = foldl mirror_frame (cl_mirror d) (buildValueFrames fs)"
    using follow_frames [OF assms(2,6), of Io_Thread] assms(4,7) by auto
  obtain c' out' where c': "for_each (handleFrame Io_Thread) (buildValueFrames fs) c = fine c' out'" "beside c' d'"
    using beside_frames [OF kinds assms(1)] d'(1) by (auto simp: runs_beside_def)
  have ready: "cl_state c' = CS_Ready"
    using values_ready [OF vals(1) assms(2,6,4) d'(1)] assms(3) vals(2) beside_same(2) [OF c'(2)] by auto
  obtain rc where rc: "d' = c'\<lparr>cl_reconnect := rc\<rparr>" "\<not> rc_active (cl_reconnect c')" using c'(2) ready by (auto elim: besideE)
  have "calm c'" using d'(2) rc(2) unfolding rc(1) by (simp add: calm_def cache_current_def)
  moreover have "cl_mirror c' = cl_mirror d'" using cl_mirror_cong [of d' c'] rc(1) by simp
  ultimately show ?thesis using frames_handled [OF assms(8-10) c'(1)] ready d'(3) by auto
qed

text \<open>
  Where the principal has no keys, a client that still holds old ones is left waiting: it is ready on a
  synchronisation only when its own registry is empty, and no value comes that would make it ready.
\<close>

theorem returning_client_left_waiting:
  assumes "fs_entries fs = []" "cl_state c = CS_Identifying" "kr_size (cl_registry c) \<noteq> 0"
  shows "\<exists>c' out. for_each (handleFrame who) (greeting auth fs @ buildValueFrames fs) c = fine c' out \<and> cl_state c' = CS_Synchronizing"
proof -
  obtain out where "sendFrame (signal ClientReady 0) (c\<lparr>cl_state := CS_Synchronizing\<rparr>) = fine (c\<lparr>cl_state := CS_Synchronizing\<rparr>) out"
    using sendFrame_signal [of ClientReady 0] by auto
  then show ?thesis
    using assms by (auto simp: greeting_def buildKeyFrames_def buildValueFrames_def handleFrame_def mk_frame_def on_ServerSync_def leave_identifying_def Let_def)
qed

section \<open>Properties\<close>


text \<open>A client that has read a key and is ready.\<close>

definition opened_client :: client where
  "opened_client = (new_client (format_uuid (replicate 16 1)) ''w'' (default_reconnect\<lparr>ro_jitter := False\<rparr>))
     \<lparr>cl_state := CS_Identifying, cl_ws := Some True,
       cl_heartbeat := (case hb_start False 0 new_heartbeat of Inr hb \<Rightarrow> hb)\<rparr>"

definition told_client :: client where
  "told_client = fst (for_each (handleFrame Io_Thread)
     (buildKeyFrames (pt_flatState stocked_principal) @ [signal ServerSync 0] @ buildValueFrames (pt_flatState stocked_principal)) opened_client)"

lemma told_facts:
  "caught_up told_client stocked_principal" "can_return told_client" "cl_id told_client = format_uuid (replicate 16 1)"
  "rc_options (cl_reconnect told_client) = default_reconnect\<lparr>ro_jitter := False\<rparr>" "kr_size (cl_registry told_client) = 1"
proof -
  let ?fs = "pt_flatState stocked_principal"
  have wf: "fs_wf ?fs (pt_nextKeyId stocked_principal)" using stocked_facts(6) by (simp add: pt_wf_def)
  note sync = sync_accepted [OF wf stocked_facts(8) nothing_known(1)]
  let ?all = "buildKeyFrames ?fs @ [signal ServerSync 0] @ buildValueFrames ?fs"
  have calm: "calm opened_client" "cl_mirror opened_client = empty_mirror"
    unfolding opened_client_def
    by (subst calm_cong [of _ "new_client (format_uuid (replicate 16 1)) ''w'' (default_reconnect\<lparr>ro_jitter := False\<rparr>)"]; simp)
      (subst cl_mirror_cong [of _ "new_client (format_uuid (replicate 16 1)) ''w'' (default_reconnect\<lparr>ro_jitter := False\<rparr>)"]; simp add: mirror_new)
  have "kr_size (cl_registry opened_client) = 0" "length (fs_entries ?fs) = 1" by code_simp+
  then obtain c' out where c': "for_each (handleFrame Io_Thread) ?all opened_client = fine c' out" "calm c'" "cl_mirror c' = view ?fs"
    using follow_frames [OF calm(1), of ?all Io_Thread] sync calm(2) by (auto simp: acceptable_append)
  moreover have "told_client = c'" unfolding told_client_def c'(1) by (simp add: fine_def)
  ultimately show "caught_up told_client stocked_principal"
    using wf sendable_good [OF stocked_facts(8)] by (simp add: caught_up_def)
  show "can_return told_client" by code_simp
  show "cl_id told_client = format_uuid (replicate 16 1)" by code_simp
  show "rc_options (cl_reconnect told_client) = default_reconnect\<lparr>ro_jitter := False\<rparr>" by code_simp
  show "kr_size (cl_registry told_client) = 1" by code_simp
qed

text \<open>The server, which has been restarted and given one more key.\<close>

definition later_server :: server where
  "later_server = fst (server_step plain_env 0 (SI_Set ''b'' (PInt32 7)) stocked_server)"

definition later_principal :: principal_tx where
  "later_principal = fst (pt_set stocked_principal ''b'' (PInt32 7))"

lemma later_facts:
  "welcoming later_server" "sv_sessions later_server = []" "index_of later_server p = []"
  "snd (pm_principal (sv_principals later_server) (default_principal later_server)) = later_principal"
  "pt_wf later_principal" "pt_fresh later_principal" "sendable (pt_flatState later_principal)" "pt_keys later_principal \<noteq> []"
  "length (pt_keys later_principal) = 2" "keeps_ids (pt_flatState stocked_principal) (pt_flatState later_principal)"
  "set (pt_keys later_principal) = {''a'', ''b''}" "pt_get later_principal ''a'' = PBool True" "pt_get later_principal ''b'' = PInt32 7"
proof -
  show "welcoming later_server" "sv_sessions later_server = []"
    "snd (pm_principal (sv_principals later_server) (default_principal later_server)) = later_principal" by code_simp+
  have "sv_principalIndex later_server = []" by code_simp
  then show "index_of later_server p = []" by (simp add: index_of_def)
  show "pt_wf later_principal" unfolding later_principal_def by (rule pt_wf_set [OF stocked_facts(6)]) (simp add: stocked_facts(11))
  show "pt_fresh later_principal" unfolding later_principal_def
    by (rule pt_set_flat [of stocked_principal "''b''" "PInt32 7"])
       (simp, code_simp)
  show "sendable (pt_flatState later_principal)"
    using sendable_set [OF stocked_facts(8) good_set_b] unfolding later_principal_def
    by (rule pt_set_flat [of stocked_principal "''b''" "PInt32 7"]) simp
  have old: "fs_entries (pt_flatState stocked_principal) = [(''a'', mk_fs_entry 1 DT_Bool (PBool True))]" by code_simp
  have new: "fs_entries (pt_flatState later_principal)
      = [(''a'', mk_fs_entry 1 DT_Bool (PBool True)), (''b'', mk_fs_entry 2 DT_VarInteger (PInt32 7))]" by code_simp
  show "keeps_ids (pt_flatState stocked_principal) (pt_flatState later_principal)"
    unfolding keeps_ids_def old new by (simp split: if_splits)
  show "pt_keys later_principal \<noteq> []" "length (pt_keys later_principal) = 2" "set (pt_keys later_principal) = {''a'', ''b''}"
    "pt_get later_principal ''a'' = PBool True" "pt_get later_principal ''b'' = PInt32 7"
    by (simp_all add: pt_keys_def fs_keys_def new pt_get_def fs_get_def)
qed


end
