(* ===== verification/Late_Client.thy ===== *)
theory Late_Client
  imports Client_Topics
begin

text \<open>
  A client that joins late. The principal keeps the key frames that it built for the first session, and
  does not build them anew when a key is added: what this does to the clients that join
  afterwards, on both sides and over the whole exchange of messages.
\<close>

section \<open>Values for unknown keys\<close>

text \<open>A client that is reading, with or without values that it could not place.\<close>

definition reading :: "client \<Rightarrow> bool" where
  "reading c \<longleftrightarrow> kr_consistent (cl_registry c) \<and> cache_current c \<and> cl_subscriptions c = []
     \<and> \<not> rc_active (cl_reconnect c) \<and> ws_open c"

lemma same_data_reads: "same_data c c' \<Longrightarrow> ws_open c' = ws_open c \<Longrightarrow> reading c \<Longrightarrow> reading c'"
  by (simp add: same_data_def reading_def cache_current_def)

lemma deliver_socket: "deliver info path v c = fine c' out \<Longrightarrow> cl_ws c' = cl_ws c"
  by (auto simp: deliver_def split: option.splits)

lemma unknown_value:
  assumes "reading c" "\<not> hasKeyId (cl_registry c) k"
  shows "\<exists>c' req. handleFrame who (mk_frame ServerValue k dt v) c = fine c' [Out_Send req]
    \<and> encode (signal ClientKeyRequest k) = Inr req \<and> reading c' \<and> cl_registry c' = cl_registry c \<and> cl_store c' = cl_store c"
proof -
  obtain req where "encode (signal ClientKeyRequest k) = Inr req" using encode_signal_defined [of ClientKeyRequest k] by auto
  then show ?thesis
    using assms
    by (auto simp: handleFrame_def on_ServerValue_def mk_frame_def sendFrame_def sendRaw_def reading_def cache_current_def ws_open_def)
qed

lemma known_value:
  assumes "reading c" "hasKeyId (cl_registry c) k"
  shows "\<exists>c' out. handleFrame who (mk_frame ServerValue k dt v) c = fine c' out \<and> messages out = []
    \<and> reading c' \<and> cl_registry c' = cl_registry c \<and> cl_store c' = AList.update k v (cl_store c)"
proof -
  let ?c = "put_value k v c"
  have p: "cl_registry ?c = cl_registry c" "cl_store ?c = AList.update k v (cl_store c)" "reading ?c" "cl_ws ?c = cl_ws c"
    using assms(1) by (simp_all add: put_value_def reading_def cache_current_def ws_open_def)
  obtain e where e: "getByKeyId (cl_registry ?c) k = Some e" using assms(2) p(1) by (auto simp: hasKeyId_def getByKeyId_def)
  obtain c1 where c1: "getTopicInfo ?c k (ke_path e) = (c1, parse_topic_path (ke_path e))"
    "cache_current c1" "cl_registry c1 = cl_registry ?c" "cl_store c1 = cl_store ?c" "cl_subscriptions c1 = cl_subscriptions ?c"
    "cl_reconnect c1 = cl_reconnect ?c" "cl_state c1 = cl_state ?c"
    using getTopicInfo_current [of ?c k e] p(3) e by (auto simp: reading_def)
  have ws: "cl_ws c1 = cl_ws c" using c1(1) p(4) by (auto simp: getTopicInfo_def Let_def split: option.splits)
  obtain c2 out where c2: "deliver (parse_topic_path (ke_path e)) (ke_path e) v c1 = fine c2 out" "same_data c1 c2"
    using deliver_same by blast
  have c2': "cl_subscriptions c2 = []" "\<not> rc_active (cl_reconnect c2)" "cl_ws c2 = cl_ws c" "messages out = []"
    using c2(2) c1(5,6) p(3) ws deliver_socket [OF c2(1)] deliver_quiet [OF c2(1)] by (simp_all add: same_data_def reading_def)
  let ?after = "if cl_state c2 = CS_Synchronizing then become_ready who c2 else fine c2 []"
  obtain c3 out' where c3: "?after = fine c3 out'" "same_data c2 c3" "cl_ws c3 = cl_ws c2" "messages out' = []"
    using c2'(1,2) by (cases "cl_state c2 = CS_Synchronizing") (auto simp: become_ready_def same_data_def)
  have "handleFrame who (mk_frame ServerValue k dt v) c = fine c3 (out @ out')"
    using assms(2) e c1(1) c2(1) c3(1) by (simp add: handleFrame_def mk_frame_def on_ServerValue_def Let_def p(1))
  moreover have "same_data c1 c3" using same_data_trans [OF c2(2) c3(2)] .
  moreover have "reading c1" using p(3) c1(2,3,5,6) ws p(4) by (simp add: reading_def ws_open_def)
  ultimately show ?thesis
    using same_data_reads [of c1 c3] c1(3,4) p(1,2) c2'(3,4) c3(3,4) ws
    by (intro exI [of _ c3] exI [of _ "out @ out'"]) (simp add: same_data_def ws_open_def)
qed

lemma holds_append: "holds_frames ds fs \<Longrightarrow> holds_frames ds' fs' \<Longrightarrow> holds_frames (ds @ ds') (fs @ fs')"
  by (simp add: holds_frames_def list_all2_appendI)

lemma values_read:
  assumes "reading c" "distinct (map (fe_keyId \<circ> snd) es)"
  shows "\<exists>c' out. for_each (handleFrame who) (map (\<lambda>(key, e). mk_frame ServerValue (fe_keyId e) (fe_type e) (fe_value e)) es) c = fine c' out
    \<and> reading c' \<and> cl_registry c' = cl_registry c
    \<and> holds_frames (messages out) (map (\<lambda>(key, e). signal ClientKeyRequest (fe_keyId e)) (filter (\<lambda>(key, e). \<not> hasKeyId (cl_registry c) (fe_keyId e)) es))
    \<and> (\<forall>(key, e) \<in> set es. hasKeyId (cl_registry c) (fe_keyId e) \<longrightarrow> map_of (cl_store c') (fe_keyId e) = Some (fe_value e))
    \<and> (\<forall>k. k \<notin> (fe_keyId \<circ> snd) ` set es \<longrightarrow> map_of (cl_store c') k = map_of (cl_store c) k)"
  using assms
proof (induction es arbitrary: c)
  case (Cons x es)
  obtain key e where x: "x = (key, e)" by (cases x)
  let ?k = "fe_keyId e" and ?f = "mk_frame ServerValue (fe_keyId e) (fe_type e) (fe_value e)"
  have "\<exists>c1 out1. handleFrame who ?f c = fine c1 out1 \<and> reading c1 \<and> cl_registry c1 = cl_registry c
      \<and> holds_frames (messages out1) (if hasKeyId (cl_registry c) ?k then [] else [signal ClientKeyRequest ?k])
      \<and> (hasKeyId (cl_registry c) ?k \<longrightarrow> map_of (cl_store c1) ?k = Some (fe_value e))
      \<and> (\<forall>k. k \<noteq> ?k \<longrightarrow> map_of (cl_store c1) k = map_of (cl_store c) k)"
  proof (cases "hasKeyId (cl_registry c) ?k")
    case True
    then show ?thesis using known_value [OF Cons.prems(1) True, of who "fe_type e" "fe_value e"] by fastforce
  next
    case False
    then show ?thesis using unknown_value [OF Cons.prems(1) False, of who "fe_type e" "fe_value e"] by fastforce
  qed
  then obtain c1 out1 where h: "handleFrame who ?f c = fine c1 out1" "reading c1" "cl_registry c1 = cl_registry c"
    "holds_frames (messages out1) (if hasKeyId (cl_registry c) ?k then [] else [signal ClientKeyRequest ?k])"
    "hasKeyId (cl_registry c) ?k \<Longrightarrow> map_of (cl_store c1) ?k = Some (fe_value e)"
    "\<And>k. k \<noteq> ?k \<Longrightarrow> map_of (cl_store c1) k = map_of (cl_store c) k" by blast
  have d: "distinct (map (fe_keyId \<circ> snd) es)" "?k \<notin> (fe_keyId \<circ> snd) ` set es" using Cons.prems(2) by (auto simp: x comp_def)
  from Cons.IH [OF h(2) d(1)] show ?case
  proof (elim exE conjE, goal_cases)
    case (1 c2 out2)
    note r = 1 [unfolded h(3)]
    have "holds_frames (messages (out1 @ out2)) (map (\<lambda>(key, e). signal ClientKeyRequest (fe_keyId e)) (filter (\<lambda>(key, e). \<not> hasKeyId (cl_registry c) (fe_keyId e)) (x # es)))"
      using holds_append [OF h(4) r(4)] by (simp add: x split: if_splits)
    moreover have "\<forall>(key, e) \<in> set (x # es). hasKeyId (cl_registry c) (fe_keyId e) \<longrightarrow> map_of (cl_store c2) (fe_keyId e) = Some (fe_value e)"
      using r(5,6) h(5) d(2) by (simp add: x)
    moreover have "\<forall>k. k \<notin> (fe_keyId \<circ> snd) ` set (x # es) \<longrightarrow> map_of (cl_store c2) k = map_of (cl_store c) k"
      using r(6) h(6) by (simp add: x)
    ultimately show ?case using h(1) r(1-3) by (intro exI [of _ c2] exI [of _ "out1 @ out2"]) (simp add: x)
  qed
qed simp

section \<open>The key frames of before\<close>

text \<open>The key frames that a principal keeps are those of an earlier content, to which keys have been added.\<close>

definition lags_behind :: "flat_state \<Rightarrow> principal_tx \<Rightarrow> bool" where
  "lags_behind fs0 pt \<longleftrightarrow> pt_keyFramesCached pt \<and> pt_cachedKeyFrames pt = buildKeyFrames fs0 @ [signal ServerSync 0]
     \<and> (\<forall>key e0. map_of (fs_entries fs0) key = Some e0 \<longrightarrow>
          (\<exists>e. map_of (fs_entries (pt_flatState pt)) key = Some e \<and> fe_keyId e = fe_keyId e0))"

lemma lags_build:
  assumes "lags_behind fs0 pt"
  shows "pt_buildKeyFrames pt = (buildKeyFrames fs0 @ [signal ServerSync 0], pt)"
  using assms by (simp add: lags_behind_def pt_buildKeyFrames_def)

lemma old_ids:
  assumes "lags_behind fs0 pt" "fs_wf (pt_flatState pt) nxt" "map_of (fs_entries (pt_flatState pt)) key = Some e"
  shows "(\<exists>key0 e0. map_of (fs_entries fs0) key0 = Some e0 \<and> fe_keyId e0 = fe_keyId e) \<longleftrightarrow> key \<in> set (fs_keys fs0)"
  using assms(1) fs_wf_inj [OF assms(2,3)] assms(3) unfolding lags_behind_def has_key by (metis option.inject)

lemma request_unanswered:
  assumes "attends SS_Ready sv w uuid p pt" "lags_behind fs0 pt" "\<forall>(key, e) \<in> set (fs_entries fs0). fe_keyId e \<noteq> k"
    and "encode (signal ClientKeyRequest k) = Inr data"
  shows "\<exists>sv'. server_step env t (SI_Message w data) sv = fine sv' [] \<and> attends SS_Ready sv' w uuid p pt"
proof -
  obtain i where i: "map_of (sv_sessions sv) uuid = Some i" "in_provider (sv_internals sv i) = p"
    "ss_txProvider (session_at sv i)" "ss_enqueueFrame (session_at sv i)" "ss_flatState (session_at sv i) = None" "ss_topicHandles (session_at sv i) = []"
    and j: "offers sv p" "sv_maxFramesPerSec sv = 0" "map_of (pm_principals (sv_principals sv)) p = Some pt"
    "sv_conns sv w = \<lparr>cn_open = True, cn_attached = True, cn_parser = default_parser, cn_identified = True, cn_uuid = uuid\<rparr>"
    using assms(1) unfolding attends_def by blast
  let ?sv = "put_session i (session_at sv i) (sv\<lparr>sv_framesIn := sv_framesIn sv + 1, sv_principals := pm_store (sv_principals sv) p pt\<rparr>)"
  have "find (\<lambda>f. frameType f = ServerKeyRegistration \<and> keyId f = k) (buildKeyFrames fs0 @ [signal ServerSync 0]) = None"
    using assms(3) by (auto simp: find_None_iff buildKeyFrames_def mk_frame_def)
  then have none: "handleKeyRequest (session_at sv i) pt k = (pt, [])"
    using i(3-6) lags_build [OF assms(2)] by (simp add: handleKeyRequest_def session_answer_def)
  have "body_length (signal ClientKeyRequest k) \<le> 1048576" by (simp add: body_length_def frame_payload_def isKeyRegistrationFrame_def)
  then have "server_step env t (SI_Message w data) sv = catching (on_frame env w t (signal ClientKeyRequest k) sv)"
    using sv_message_frame [OF _ _ _ _ assms(4), where sv = sv and w = w] j(4) by simp
  also have "on_frame env w t (signal ClientKeyRequest k) sv = fine ?sv []"
    using i(1-3) j none
    by (simp add: on_frame_def rate_limit_def offers_def route_frame_def pm_principal_def ss_handleFrame_def run_sess_out_def is_topic_frame_def
        mk_frame_def session_at_def Let_def)
  finally have run: "server_step env t (SI_Message w data) sv = fine ?sv []" by simp
  have "in_flushTo (sv_internals ?sv j) = in_flushTo (sv_internals sv j)" "index_of ?sv p = index_of sv p" "session_at ?sv j = session_at sv j"
    "in_ws (sv_internals ?sv j) = in_ws (sv_internals sv j)" "in_provider (sv_internals ?sv j) = in_provider (sv_internals sv j)"
    "sv_sessions ?sv = sv_sessions sv" "sv_conns ?sv = sv_conns sv" "sv_maxFramesPerSec ?sv = sv_maxFramesPerSec sv"
    "offers ?sv p = offers sv p" "map_of (pm_principals (sv_principals ?sv)) p = Some pt" for j
    by (simp_all add: put_session_def upd_internal_def index_of_def session_at_def pm_store_def offers_def)
  then have "attends SS_Ready ?sv w uuid p pt" using assms(1) by (simp add: attends_def)
  then show ?thesis using run by blast
qed

lemma requests_unanswered:
  assumes "attends SS_Ready sv w uuid p pt" "lags_behind fs0 pt" "holds_frames datas (map (\<lambda>(key, e). signal ClientKeyRequest (fe_keyId e)) es)"
    and "\<forall>(key, e) \<in> set es. \<forall>(key0, e0) \<in> set (fs_entries fs0). fe_keyId e0 \<noteq> fe_keyId e"
  shows "\<exists>sv'. server_run env (map (message_input t w) datas) sv = fine sv' [] \<and> attends SS_Ready sv' w uuid p pt"
  using assms(1,3,4)
proof (induction es arbitrary: sv datas)
  case (Cons x es)
  obtain key e where x: "x = (key, e)" by (cases x)
  obtain data datas' where d: "datas = data # datas'" "encode (signal ClientKeyRequest (fe_keyId e)) = Inr data"
    "holds_frames datas' (map (\<lambda>(key, e). signal ClientKeyRequest (fe_keyId e)) es)"
    using Cons.prems(2) by (cases datas) (auto simp: x holds_frames_def)
  have "\<forall>(key0, e0) \<in> set (fs_entries fs0). fe_keyId e0 \<noteq> fe_keyId e" using Cons.prems(3) by (auto simp: x)
  from request_unanswered [OF Cons.prems(1) assms(2) this d(2), of env t]
  obtain sv1 where 1: "server_step env t (SI_Message w data) sv = fine sv1 []" "attends SS_Ready sv1 w uuid p pt" by blast
  have "\<forall>(key, e) \<in> set es. \<forall>(key0, e0) \<in> set (fs_entries fs0). fe_keyId e0 \<noteq> fe_keyId e" using Cons.prems(3) by auto
  from Cons.IH [OF 1(2) d(3) this] show ?case using 1(1) d(1) by (auto simp: message_input_def)
qed simp

section \<open>Properties\<close>

text \<open>C31. A client that joins late never reads the keys that were added after the first session. When the
  key frames that the principal keeps are those of an earlier content, a new client that has gone
  through the whole exchange reads every key of that content as the principal holds it now, but no key that
  was added since, although it is sent their values: it asks for each of them, and
  the server answers none of these requests.\<close>

theorem late_client_misses_keys:
  assumes "welcoming sv" and "env_onConnection env = []" and "length me = 16"
    and "map_of (sv_sessions sv) (format_uuid me) = None"
    and "\<forall>i \<in> set (index_of sv (default_principal sv)). i \<noteq> sv_next sv \<and> in_flushTo (sv_internals sv i) \<noteq> w"
    and "snd (pm_principal (sv_principals sv) (default_principal sv)) = pt" and "pt_wf pt" and "sendable (pt_flatState pt)"
    and "lags_behind fs0 pt" and "fs_wf fs0 nxt0" and "sendable fs0" and "length (fs_keys fs0) \<le> 10000" and "\<forall>bs. concat (chop bs) = bs"
  shows "\<exists>c0 o0 sv1 out1 c1 o1 sv2 out2 c2 o2 sv3.
      client_run [(t0, j0, In_Connect Connect_Returns), (t0, j0, In_Open)] (new_whole_client (format_uuid me) url opt)
        = fine (default_parser, c0) o0
    \<and> server_run env [(t1, SI_Connect w), (t2, SI_Message w (client_sends o0))] sv = fine sv1 out1
    \<and> for_each (on_message Io_Thread t3) (chop (bytes_to w out1)) (default_parser, c0) = fine (default_parser, c1) o1
    \<and> server_step env t4 (SI_Message w (client_sends o1)) sv1 = fine sv2 out2
    \<and> for_each (on_message Io_Thread t5) (chop (bytes_to w out2)) (default_parser, c1) = fine (default_parser, c2) o2
    \<and> (\<forall>key. cl_get c2 key = (if key \<in> set (fs_keys fs0) then pt_get pt key else PNull)) \<and> set (cl_keys c2) = set (fs_keys fs0)
    \<and> holds_frames (messages o2) (map (\<lambda>(key, e). signal ClientKeyRequest (fe_keyId e))
        (filter (\<lambda>(key, e). key \<notin> set (fs_keys fs0)) (fs_entries (pt_flatState pt))))
    \<and> server_run env (map (message_input t6 w) (messages o2)) sv2 = fine sv3 []"
proof -
  let ?p = "default_principal sv" and ?now = "pt_flatState pt"
  let ?told = "buildValueFrames ?now" and ?new = "filter (\<lambda>(key, e). key \<notin> set (fs_keys fs0)) (fs_entries ?now)"
  have wf: "fs_wf ?now (pt_nextKeyId pt)" "um_wf (fs_entries ?now)" using assms(7) by (simp_all add: pt_wf_def fs_wf_def)
  have pre: "fs_wirePrefix fs0 = []" using assms(11) by (simp add: sendable_def)
  note keep = lags_build [OF assms(9)] and travel = sendable_frames(2) [OF assms(8) wf(1)]
  have "list_all transportable (greeting False fs0)" "list_all transportable ?told"
    using greeting_travels [OF assms(11,10)] travel by (simp_all add: list_all_iff)
  then obtain b1 b2 ready where b: "encodeBatch (greeting False fs0) = Inr b1" "encodeBatch ?told = Inr b2"
    "encode (signal ClientReady 0) = Inr ready"
    using encodeBatch_defined encode_signal_defined [of ClientReady 0] by fastforce
  obtain c0 o0 where 0: "client_run [(t0, j0, In_Connect Connect_Returns), (t0, j0, In_Open)] (new_whole_client (format_uuid me) url opt)
      = fine (default_parser, c0) o0" "encode (identification me) = Inr (client_sends o0)"
    "waiting c0" "calm c0" "cl_mirror c0 = empty_mirror" "kr_size (cl_registry c0) = 0"
    using client_opens [OF assms(3), of t0 j0 t0 j0 url opt] by blast
  have "map_of (sv_sessions sv) (bytesToUuid (me @ [3, 5])) = None" using assms(3,4) by (simp add: bytesToUuid_format)
  from server_admits [OF assms(1-3) 0(2) this assms(5,6), of b1 t1 t2]
  obtain sv1 out1 where 1: "server_run env [(t1, SI_Connect w), (t2, SI_Message w (client_sends o0))] sv = fine sv1 out1"
    "bytes_to w out1 = b1" "joining sv1 w (bytesToUuid (me @ [3, 5])) ?p pt"
    using b(1) keep by (auto simp: greeting_def)
  have known: "compatible (cl_mirror c0) fs0" "kr_size (cl_registry c0) + length (fs_entries fs0) \<le> 10000"
    using 0(5,6) assms(12) by (simp_all add: fs_keys_def)
  obtain c1 o1 where 2: "for_each (on_message Io_Thread t3) (chop b1) (default_parser, c0) = fine (default_parser, c1) o1"
    "client_sends o1 = ready" "calm c1" "ws_open c1" "cl_mirror c1 = foldl mirror_frame (cl_mirror c0) (buildKeyFrames fs0 @ [signal ServerSync 0])"
    using client_asks_for_values [OF 0(3,4) known assms(10,11) b(3,1), of "chop b1" Io_Thread t3] assms(13) by blast
  then have keys: "mi_keys (cl_mirror c1) = mi_keys (view fs0)" and "reading c1"
    unfolding keys_told [OF assms(10)] 0(5) by (simp_all add: empty_mirror_def) (simp add: calm_def reading_def)
  obtain sv2 out2 where 3: "server_step env t4 (SI_Message w ready) sv1 = fine sv2 out2" "bytes_to w out2 = b2"
    "attends SS_Ready sv2 w (bytesToUuid (me @ [3, 5])) ?p pt"
    using server_readies [OF 1(3) b(3), of b2 env t4] b(2) by auto
  have old: "hasKeyId (cl_registry c1) (fe_keyId e) \<longleftrightarrow> key \<in> set (fs_keys fs0)" if "map_of (fs_entries ?now) key = Some e" for key e
  proof -
    have "hasKeyId (cl_registry c1) (fe_keyId e) \<longleftrightarrow> (\<exists>p t. mi_keys (cl_mirror c1) (fe_keyId e) = Some (p, t))"
      by (auto simp: cl_mirror_def hasKeyId_def getByKeyId_def)
    then show ?thesis
      unfolding keys view_shown(1) [OF assms(10) pre] using old_ids [OF assms(9) wf(1) that] by simp
  qed
  have mem: "map_of (fs_entries ?now) key = Some e \<longleftrightarrow> (key, e) \<in> set (fs_entries ?now)" for key e using um_lookup_iff [OF wf(2)] by blast
  have sel: "filter (\<lambda>(key, e). \<not> hasKeyId (cl_registry c1) (fe_keyId e)) (fs_entries ?now) = ?new"
    using old mem by (intro filter_cong) auto
  have ids: "distinct (map (fe_keyId \<circ> snd) (fs_entries ?now))" using fs_wf_distinct_ids [OF wf(1)] by (simp add: comp_def case_prod_unfold)
  from values_read [OF \<open>reading c1\<close> ids, of Io_Thread]
  obtain c2 o2 where 4: "for_each (handleFrame Io_Thread) ?told c1 = fine c2 o2" "reading c2" "cl_registry c2 = cl_registry c1"
    "holds_frames (messages o2) (map (\<lambda>(key, e). signal ClientKeyRequest (fe_keyId e)) ?new)"
    "\<And>key e. (key, e) \<in> set (fs_entries ?now) \<Longrightarrow> key \<in> set (fs_keys fs0) \<Longrightarrow> map_of (cl_store c2) (fe_keyId e) = Some (fe_value e)"
    unfolding sel buildValueFrames_def using old mem by blast
  have arrive: "for_each (on_message Io_Thread t5) (chop b2) (default_parser, c1) = fine (default_parser, c2) o2"
    using frames_handled [OF travel b(2) _ 4(1)] assms(13) by blast
  have "\<forall>(key, e) \<in> set ?new. \<forall>(key0, e0) \<in> set (fs_entries fs0). fe_keyId e0 \<noteq> fe_keyId e"
    using old_ids [OF assms(9) wf(1)] mem um_lookup_iff [of "fs_entries fs0"] assms(10) by (fastforce simp: fs_wf_def)
  from requests_unanswered [OF 3(3) assms(9) 4(4) this, of env t6]
  obtain sv3 where 5: "server_run env (map (message_input t6 w) (messages o2)) sv2 = fine sv3 []" by blast
  let ?E = "\<lambda>key. if key \<in> set (fs_keys fs0) then map_of (fs_entries ?now) key else None"
  have still: "\<exists>e. map_of (fs_entries ?now) key = Some e \<and> fe_keyId e = fe_keyId e0" if "map_of (fs_entries fs0) key = Some e0" for key e0
    using assms(9) that by (simp add: lags_behind_def)
  have same: "mi_keys (cl_mirror c2) = mi_keys (view fs0)" "mi_vals (cl_mirror c2) = map_of (cl_store c2)"
    using keys 4(3) by (simp_all add: cl_mirror_def)
  have shown: "(\<exists>t. mi_keys (cl_mirror c2) k = Some (key, t)) \<longleftrightarrow> (\<exists>e. ?E key = Some e \<and> fe_keyId e = k)" for key k
    unfolding same view_shown(1) [OF assms(10) pre] using still [of key] by (auto simp: has_key split: if_splits)
  have vals: "mi_vals (cl_mirror c2) (fe_keyId e) = Some (fe_value e)" if "?E key = Some e" for key e
  proof -
    have "key \<in> set (fs_keys fs0)" "(key, e) \<in> set (fs_entries ?now)" using that mem by (simp_all split: if_splits)
    then show ?thesis using 4(5) by (simp add: same)
  qed
  have "kr_consistent (cl_registry c2)" using 4(2) by (simp add: reading_def)
  from entries_read [OF this, of ?E] shown vals
  have read: "\<And>key. cl_get c2 key = (case ?E key of None \<Rightarrow> PNull | Some e \<Rightarrow> fe_value e)" "set (cl_keys c2) = dom ?E" by blast+
  have "cl_get c2 key = (if key \<in> set (fs_keys fs0) then pt_get pt key else PNull)" for key
    unfolding read(1) by (simp add: pt_get_def fs_get_def)
  moreover have "map_of (fs_entries ?now) key \<noteq> None" if "key \<in> set (fs_keys fs0)" for key using that still [of key] by (auto simp: has_key)
  then have "set (cl_keys c2) = set (fs_keys fs0)" unfolding read(2) by (auto simp: dom_def split: if_splits)
  ultimately show ?thesis using 0(1) 1(1,2) 2(1,2) 3(1,2) arrive 4(4) 5 by blast
qed

text \<open>A broadcast server that has been visited by one client, and given one more key since.\<close>

definition visited_server :: server where
  "visited_server = fst (server_run plain_env
     [(1, SI_Connect 1), (2, SI_Message 1 (identify_message 1)), (3, SI_Set ''b'' (PInt32 7))] stocked_server)"

definition visited_principal :: principal_tx where
  "visited_principal = fst (pt_set (snd (pt_buildKeyFrames stocked_principal)) ''b'' (PInt32 7))"

lemma visited_facts:
  "welcoming visited_server" "map_of (sv_sessions visited_server) (format_uuid (replicate 16 2)) = None"
  "\<forall>i \<in> set (index_of visited_server (default_principal visited_server)). i \<noteq> sv_next visited_server \<and> in_flushTo (sv_internals visited_server i) \<noteq> 2"
  "snd (pm_principal (sv_principals visited_server) (default_principal visited_server)) = visited_principal"
  "pt_wf visited_principal" "sendable (pt_flatState visited_principal)"
  "lags_behind (pt_flatState stocked_principal) visited_principal"
  "fs_keys (pt_flatState stocked_principal) = [''a'']" "pt_get visited_principal ''a'' = PBool True" "pt_get visited_principal ''b'' = PInt32 7"
  "filter (\<lambda>(key, e). key \<notin> {''a''}) (fs_entries (pt_flatState visited_principal)) = [(''b'', mk_fs_entry 2 DT_VarInteger (PInt32 7))]"
proof -
  show "welcoming visited_server" "map_of (sv_sessions visited_server) (format_uuid (replicate 16 2)) = None"
    "snd (pm_principal (sv_principals visited_server) (default_principal visited_server)) = visited_principal" by code_simp+
  show "\<forall>i \<in> set (index_of visited_server (default_principal visited_server)). i \<noteq> sv_next visited_server \<and> in_flushTo (sv_internals visited_server i) \<noteq> 2"
    by code_simp
  let ?built = "snd (pt_buildKeyFrames stocked_principal)"
  have built: "pt_flatState ?built = pt_flatState stocked_principal" "pt_nextKeyId ?built = pt_nextKeyId stocked_principal"
    by (simp_all add: pt_buildKeyFrames_def Let_def)
  then have "pt_wf ?built" using stocked_facts(6) by (simp add: pt_wf_def)
  then show "pt_wf visited_principal" unfolding visited_principal_def by (rule pt_wf_set) (simp add: built stocked_facts(11))
  show "sendable (pt_flatState visited_principal)"
    using sendable_set [OF stocked_facts(8) good_set_b] unfolding visited_principal_def
    by (rule pt_set_flat [of ?built "''b''" "PInt32 7"]) (simp add: built)
  have old: "fs_entries (pt_flatState stocked_principal) = [(''a'', mk_fs_entry 1 DT_Bool (PBool True))]" by code_simp
  have new: "fs_entries (pt_flatState visited_principal)
      = [(''a'', mk_fs_entry 1 DT_Bool (PBool True)), (''b'', mk_fs_entry 2 DT_VarInteger (PInt32 7))]" by code_simp
  have "pt_keyFramesCached visited_principal"
    "pt_cachedKeyFrames visited_principal = buildKeyFrames (pt_flatState stocked_principal) @ [signal ServerSync 0]" by code_simp+
  then show "lags_behind (pt_flatState stocked_principal) visited_principal"
    unfolding lags_behind_def old new by simp
  show "fs_keys (pt_flatState stocked_principal) = [''a'']" "pt_get visited_principal ''a'' = PBool True" "pt_get visited_principal ''b'' = PInt32 7"
    "filter (\<lambda>(key, e). key \<notin> {''a''}) (fs_entries (pt_flatState visited_principal)) = [(''b'', mk_fs_entry 2 DT_VarInteger (PInt32 7))]"
    by (simp_all add: fs_keys_def old new pt_get_def fs_get_def)
qed

theorem late_client_misses_keys_witness:
  "\<exists>c0 o0 sv1 out1 c1 o1 sv2 out2 c2 o2 sv3 ask.
      client_run [(0, 0, In_Connect Connect_Returns), (0, 0, In_Open)] (new_whole_client (format_uuid (replicate 16 2)) ''w'' default_reconnect)
        = fine (default_parser, c0) o0
    \<and> server_run plain_env [(4, SI_Connect 2), (5, SI_Message 2 (client_sends o0))] visited_server = fine sv1 out1
    \<and> for_each (on_message Io_Thread 6) (map (\<lambda>b. [b]) (bytes_to 2 out1)) (default_parser, c0) = fine (default_parser, c1) o1
    \<and> server_step plain_env 7 (SI_Message 2 (client_sends o1)) sv1 = fine sv2 out2
    \<and> for_each (on_message Io_Thread 8) (map (\<lambda>b. [b]) (bytes_to 2 out2)) (default_parser, c1) = fine (default_parser, c2) o2
    \<and> cl_get c2 ''a'' = PBool True \<and> cl_get c2 ''b'' = PNull
    \<and> messages o2 = [ask] \<and> encode (signal ClientKeyRequest 2) = Inr ask \<and> server_run plain_env [(9, SI_Message 2 ask)] sv2 = fine sv3 []"
proof -
  have len: "length (replicate 16 (2 :: byte)) = 16" by simp
  have cut: "\<forall>bs :: bytes. concat (map (\<lambda>b. [b]) bs) = bs" by simp
  have env: "env_onConnection plain_env = []" by (simp add: plain_env_def)
  have wf: "fs_wf (pt_flatState stocked_principal) (pt_nextKeyId stocked_principal)" using stocked_facts(6) by (simp add: pt_wf_def)
  have size: "length (fs_keys (pt_flatState stocked_principal)) \<le> 10000" by (simp add: visited_facts(8))
  have keys: "set (fs_keys (pt_flatState stocked_principal)) = {''a''}" by (simp add: visited_facts(8))
  from late_client_misses_keys [OF visited_facts(1) env len visited_facts(2-7) wf stocked_facts(8) size cut,
      of 0 0 "''w''" default_reconnect 4 5 6 7 8 9, unfolded keys visited_facts(11)]
  show ?thesis
  proof (elim exE conjE, goal_cases)
    case (1 c0 o0 sv1 out1 c1 o1 sv2 out2 c2 o2 sv3)
    obtain ask where ask: "messages o2 = [ask]" "encode (signal ClientKeyRequest 2) = Inr ask"
      using 1(8) by (cases "messages o2") (auto simp: holds_frames_def)
    have "cl_get c2 ''a'' = PBool True" "cl_get c2 ''b'' = PNull" using 1(6) visited_facts(9) by simp_all
    moreover have "server_run plain_env [(9, SI_Message 2 ask)] sv2 = fine sv3 []" using 1(9) ask(1) by (simp add: message_input_def)
    ultimately show ?case using 1(1-5) ask by (intro exI conjI)
  qed
qed

end
