(* ===== verification/Rate_Limit.thy ===== *)
theory Rate_Limit
  imports Server_Invariants
begin

text \<open>
  The frame limit of \<open>handleConnection\<close> in \<open>api/server.cpp\<close>: a session's frames are counted in
  windows that begin with the first frame after the last window's second. The clock readings
  of the frames are a list; between two frames the handlers may change anything but the two counters,
  so the frames are followed on the session's counters.
\<close>

section \<open>A session's counters\<close>

fun passes :: "int \<Rightarrow> internal \<Rightarrow> int list \<Rightarrow> bool list" where
  "passes limit n [] = []"
| "passes limit n (t # ts) = (let n = count_frame t n in (in_frameCount n \<le> limit) # passes limit n ts)"

abbreviation passed :: "bool list \<Rightarrow> nat" where
  "passed bs \<equiv> count_list bs True"

lemma count_frame_cases:
  "in_frameCount (count_frame t n) = (if 1000 \<le> to_ms (t - in_windowStart n) then 1 else in_frameCount n + 1)"
  "in_windowStart (count_frame t n) = (if 1000 \<le> to_ms (t - in_windowStart n) then t else in_windowStart n)"
  by (simp_all add: count_frame_def Let_def)

text \<open>Within a window the frames pass until the limit is reached, and none after that.\<close>

lemma passes_window:
  assumes "\<forall>t \<in> set ts. to_ms (t - in_windowStart n) < 1000"
  shows "passes limit n ts = map (\<lambda>j. in_frameCount n + int j < limit) [0..<length ts]"
  using assms
proof (induction ts arbitrary: n)
  case (Cons t ts)
  let ?n = "count_frame t n"
  have n: "in_frameCount ?n = in_frameCount n + 1" "in_windowStart ?n = in_windowStart n"
    using Cons.prems by (simp_all add: count_frame_cases)
  have "passes limit n (t # ts) = (in_frameCount n < limit) # map (\<lambda>j. in_frameCount n + 1 + int j < limit) [0..<length ts]"
    using Cons.IH [of ?n] Cons.prems n by (simp add: Let_def add1_zle_eq)
  also have "\<dots> = map (\<lambda>j. in_frameCount n + int j < limit) [0..<length (t # ts)]"
    by (simp add: upt_conv_Cons map_Suc_upt [symmetric] comp_def ac_simps del: upt_Suc)
  finally show ?case .
qed simp

lemma passed_window:
  assumes "\<forall>t \<in> set ts. to_ms (t - in_windowStart n) < 1000"
  shows "int (passed (passes limit n ts)) \<le> max 0 (limit - in_frameCount n)"
proof -
  have "int (passed (map (\<lambda>j. c + int j < limit) [0..<k])) = max 0 (min (int k) (limit - c))" for c k
    by (induction k) auto
  then show ?thesis by (simp add: passes_window [OF assms])
qed

lemma passed_second:
  assumes "\<forall>t \<in> set ts. \<forall>t' \<in> set ts. to_ms (t' - t) < 1000" "0 \<le> limit"
  shows "int (passed (passes limit n ts)) \<le> max 0 (limit - in_frameCount n) + limit"
  using assms
proof (induction ts arbitrary: n)
  case (Cons t ts)
  let ?n = "count_frame t n"
  show ?case
  proof (cases "1000 \<le> to_ms (t - in_windowStart n)")
    case True
    then have "int (passed (passes limit ?n ts)) \<le> max 0 (limit - 1)"
      using passed_window [of ts ?n limit] Cons.prems by (simp add: count_frame_cases)
    then show ?thesis using True Cons.prems(2) by (auto simp: Let_def count_frame_cases)
  next
    case False
    have "int (passed (passes limit ?n ts)) \<le> max 0 (limit - in_frameCount ?n) + limit"
      using Cons by simp
    then show ?thesis using False by (auto simp: Let_def count_frame_cases)
  qed
qed simp

section \<open>A server's frames\<close>

text \<open>Whether the frames with the given clock readings get past the limit.\<close>

fun frames_pass :: "string \<Rightarrow> int list \<Rightarrow> server \<Rightarrow> bool list" where
  "frames_pass uuid [] sv = []"
| "frames_pass uuid (t # ts) sv = (let (sv, limited) = rate_limit uuid t sv in (\<not> limited) # frames_pass uuid ts sv)"

lemma frames_pass_passes:
  assumes "0 < sv_maxFramesPerSec sv" "uuid \<noteq> []" "find_internal uuid sv = Some i"
  shows "frames_pass uuid ts sv = passes (sv_maxFramesPerSec sv) (sv_internals sv i) ts"
  using assms
proof (induction ts arbitrary: sv)
  case (Cons t ts)
  let ?sv = "upd_internal i (count_frame t) sv"
  have "find_internal uuid ?sv = Some i" "sv_maxFramesPerSec ?sv = sv_maxFramesPerSec sv"
    "sv_internals ?sv i = count_frame t (sv_internals sv i)"
    using Cons.prems(3) by (simp_all add: upd_internal_def find_internal_def cong: option.case_cong)
  then show ?case
    using Cons by (simp add: rate_limit_def Let_def not_less)
qed simp

section \<open>Properties\<close>

text \<open>C13. The frame limit holds. Of the frames of a session that arrive within one second, at most
  twice the limit are handled, however the second falls on the server's windows, and when it begins with
  a new window, then exactly those up to the limit; a frame over the limit is not handled: its
  connection is closed.\<close>

theorem frame_limit_holds:
  assumes "0 < sv_maxFramesPerSec sv" and "uuid \<noteq> []" and "find_internal uuid sv = Some i"
    and "0 \<le> in_frameCount (sv_internals sv i)" and "\<forall>t \<in> set ts. \<forall>t' \<in> set ts. to_ms (t' - t) < 1000"
  shows "int (passed (frames_pass uuid ts sv)) \<le> 2 * sv_maxFramesPerSec sv
    \<and> (ts \<noteq> [] \<and> 1000 \<le> to_ms (hd ts - in_windowStart (sv_internals sv i)) \<longrightarrow>
         frames_pass uuid ts sv = map (\<lambda>j. int j < sv_maxFramesPerSec sv) [0..<length ts])
    \<and> (cn_uuid (sv_conns sv w) = uuid \<and> frames_pass uuid [now] sv = [False] \<longrightarrow>
         on_frame env w now f sv = ws_close env w (upd_internal i (count_frame now) (sv\<lparr>sv_framesIn := sv_framesIn sv + 1\<rparr>)))"
proof (intro conjI impI)
  note passes = frames_pass_passes [OF assms(1-3)]
  show "int (passed (frames_pass uuid ts sv)) \<le> 2 * sv_maxFramesPerSec sv"
    unfolding passes using passed_second [OF assms(5), of "sv_maxFramesPerSec sv" "sv_internals sv i"] assms(1,4) by simp
  show "frames_pass uuid ts sv = map (\<lambda>j. int j < sv_maxFramesPerSec sv) [0..<length ts]"
    if "ts \<noteq> [] \<and> 1000 \<le> to_ms (hd ts - in_windowStart (sv_internals sv i))"
  proof -
    let ?start = "(sv_internals sv i)\<lparr>in_frameCount := 0, in_windowStart := hd ts\<rparr>"
    have "count_frame (hd ts) (sv_internals sv i) = count_frame (hd ts) ?start"
      using that by (simp add: count_frame_def Let_def to_ms_def)
    then have "passes limit (sv_internals sv i) ts = passes limit ?start ts" for limit
      using that by (cases ts) (simp_all add: Let_def)
    then show ?thesis
      unfolding passes using passes_window [of ts ?start] assms(5) that by simp
  qed
  let ?sv = "sv\<lparr>sv_framesIn := sv_framesIn sv + 1\<rparr>"
  assume now: "cn_uuid (sv_conns sv w) = uuid \<and> frames_pass uuid [now] sv = [False]"
  have "find_internal uuid ?sv = Some i" using assms(3) by (simp add: find_internal_def cong: option.case_cong)
  moreover have "sv_maxFramesPerSec sv < in_frameCount (count_frame now (sv_internals sv i))"
    using now [unfolded passes] by (simp add: not_le Let_def)
  ultimately have "rate_limit uuid now ?sv = (upd_internal i (count_frame now) ?sv, True)"
    using assms(1,2) by (simp add: rate_limit_def Let_def upd_internal_def)
  then show "on_frame env w now f sv = ws_close env w (upd_internal i (count_frame now) ?sv)"
    using now by (simp add: on_frame_def Let_def)
qed

definition limited_server :: server where
  "limited_server = fst (server_run plain_env
     [(0, SI_SetMaxFramesPerSec 2), (0, SI_Connect 1), (0, SI_Message 1 (identify_message 1))] (configured Broadcast False 0))"

lemma limited_facts:
  "sv_maxFramesPerSec limited_server = 2 \<and> find_internal (bytesToUuid (replicate 16 1)) limited_server = Some 0
   \<and> in_frameCount (sv_internals limited_server 0) = 0 \<and> in_windowStart (sv_internals limited_server 0) = 0
   \<and> bytesToUuid (replicate 16 1) \<noteq> []"
  by code_simp

theorem frame_limit_holds_witness:
  "frames_pass (bytesToUuid (replicate 16 1)) [1000000000, 1000000001, 1000000002] limited_server = [True, True, False]"
proof -
  have near: "\<forall>t \<in> set [1000000000, 1000000001, 1000000002]. \<forall>t' \<in> set [1000000000, 1000000001, 1000000002]. to_ms (t' - t) < 1000"
    by (simp add: to_ms_def)
  show ?thesis
    using frame_limit_holds [of limited_server "bytesToUuid (replicate 16 1)" 0, OF _ _ _ _ near] limited_facts
    by (simp add: to_ms_def)
qed

end
