(* ===== verification/Client_States.thy ===== *)
theory Client_States
  imports Client_Sync
begin

text \<open>
  The client's timers and its connection over everything that can happen to it: the heartbeat's loop only
  runs while the heartbeat counts as running, so that stopping always ends it, and a
  client that was told to disconnect does nothing until it is told to connect.
\<close>

section \<open>The heartbeat's thread\<close>

definition timer_sound :: "client \<Rightarrow> bool" where
  "timer_sound c \<longleftrightarrow> (hb_thread (cl_heartbeat c) = Looping \<longrightarrow> hb_running (cl_heartbeat c))"

abbreviation sound_res :: "cres \<Rightarrow> bool" where
  "sound_res r \<equiv> keeps timer_sound (\<lambda>_. True) r"

named_theorems sound_intros \<open>client operations keep the heartbeat's thread in order\<close>

lemma timer_sound_fields [simp]:
  "timer_sound (c\<lparr>cl_state := st\<rparr>) = timer_sound c"
  "timer_sound (c\<lparr>cl_intentionalDisconnect := b\<rparr>) = timer_sound c"
  "timer_sound (c\<lparr>cl_ws := w\<rparr>) = timer_sound c"
  "timer_sound (c\<lparr>cl_registry := kr\<rparr>) = timer_sound c"
  "timer_sound (c\<lparr>cl_store := vs\<rparr>) = timer_sound c"
  "timer_sound (c\<lparr>cl_pendingValues := ps\<rparr>) = timer_sound c"
  "timer_sound (c\<lparr>cl_subscriptions := subs\<rparr>) = timer_sound c"
  "timer_sound (c\<lparr>cl_topicDirty := b\<rparr>) = timer_sound c"
  "timer_sound (c\<lparr>cl_topicHandles := hs\<rparr>) = timer_sound c"
  "timer_sound (c\<lparr>cl_topicIndexMap := im\<rparr>) = timer_sound c"
  "timer_sound (c\<lparr>cl_indexToTopic := it\<rparr>) = timer_sound c"
  "timer_sound (c\<lparr>cl_reconnect := rc\<rparr>) = timer_sound c"
  "timer_sound (c\<lparr>cl_topicKeyCache := tk\<rparr>) = timer_sound c"
  by (simp_all add: timer_sound_def)

lemma sound_hb_stop: "hb_stop b (cl_heartbeat c) = Inr hb \<Longrightarrow> timer_sound c \<Longrightarrow> timer_sound (c\<lparr>cl_heartbeat := hb\<rparr>)"
  by (auto simp: hb_stop_def timer_sound_def join_thread_def joinable_def rbind_eq_Inr split: if_splits)

lemma sound_hb_start: "hb_start b now (cl_heartbeat c) = Inr hb \<Longrightarrow> timer_sound (c\<lparr>cl_heartbeat := hb\<rparr>)"
  using hb_start_active [of b now "cl_heartbeat c" hb] by (simp add: timer_sound_def hb_active_def)

lemma sound_stop [sound_intros]: "timer_sound c \<Longrightarrow> sound_res (stop_heartbeat who c)"
  unfolding stop_heartbeat_def by (intro keeps_intros sound_hb_stop) auto

lemma sound_drop_ws [sound_intros]: "timer_sound c \<Longrightarrow> sound_res (drop_ws c)"
  by (auto simp: drop_ws_def intro!: keeps_intros split: option.split)

lemma sound_cleanup [sound_intros]: "timer_sound c \<Longrightarrow> sound_res (cleanup who c)"
  unfolding cleanup_def by (intro keeps_intros sound_intros)

lemma sound_run_reconnect [sound_intros]: "timer_sound c \<Longrightarrow> sound_res (run_reconnect r c)"
  unfolding run_reconnect_def on_rc_event_def
  by (auto intro!: keeps_intros split: rc_event.split)

lemma sound_handleClose [sound_intros]: "timer_sound c \<Longrightarrow> sound_res (handleClose who jitter c)"
  unfolding handleClose_def by (auto intro!: keeps_intros sound_intros simp: Let_def)

lemma sound_connect [sound_intros]: "timer_sound c \<Longrightarrow> sound_res (connect who jitter result c)"
  unfolding connect_def by (auto intro!: keeps_intros sound_intros simp: Let_def split: connect_result.split)

lemma sound_disconnect [sound_intros]: "timer_sound c \<Longrightarrow> sound_res (disconnect who c)"
  unfolding disconnect_def by (auto intro!: keeps_intros sound_intros simp: Let_def)

lemma sound_sendFrame [sound_intros]: "timer_sound c \<Longrightarrow> sound_res (sendFrame f c)"
  by (auto simp: sendFrame_def sendRaw_def intro!: keeps_intros split: sum.split)

lemma assign_indices_heartbeat [simp]: "cl_heartbeat (assign_indices i subs c) = cl_heartbeat c"
  "timer_sound (assign_indices i subs c) = timer_sound c"
  by (induction i subs c rule: assign_indices.induct) (simp_all add: Let_def)

lemma sound_topic_sync [sound_intros]: "timer_sound c \<Longrightarrow> sound_res (sendTopicSync c)"
  unfolding sendTopicSync_def by (auto intro!: keeps_intros sound_intros simp: Let_def)

lemma sound_handleOpen [sound_intros]: "timer_sound c \<Longrightarrow> sound_res (handleOpen who now c)"
  unfolding handleOpen_def
  by (auto intro!: keeps_intros sound_intros simp: Let_def intro: sound_hb_start)


section \<open>Receiving\<close>

lemma sound_getTopicInfo [simp]: "timer_sound (fst (getTopicInfo c k path)) = timer_sound c"
  by (auto simp: getTopicInfo_def Let_def split: option.split)

lemma sound_put_value [simp]: "timer_sound (put_value k v c) = timer_sound c"
  by (simp add: put_value_def)

lemma sound_copy [simp]: "timer_sound (copy_element prefix i j c) = timer_sound c"
  by (auto simp: copy_element_def split: option.split)

lemma sound_shifts [simp]:
  "timer_sound (shift_left_loop prefix m n c) = timer_sound c" "timer_sound (shift_right_loop prefix m n c) = timer_sound c"
proof -
  have "timer_sound (foldl (\<lambda>c i. copy_element prefix (f i) (g i) c) c is) = timer_sound c" for f g "is"
    by (induction "is" arbitrary: c) simp_all
  then show "timer_sound (shift_left_loop prefix m n c) = timer_sound c" "timer_sound (shift_right_loop prefix m n c) = timer_sound c"
    by (simp_all add: shift_left_loop_def shift_right_loop_def)
qed

lemma sound_deliver [sound_intros]: "timer_sound c \<Longrightarrow> sound_res (deliver info path v c)"
  by (auto simp: deliver_def intro!: keeps_intros split: option.split)

lemma sound_ready [sound_intros]: "timer_sound c \<Longrightarrow> sound_res (become_ready who c)"
  unfolding become_ready_def by (auto intro!: keeps_intros sound_intros)

lemma sound_leave [simp]: "timer_sound (leave_identifying c) = timer_sound c"
  by (simp add: leave_identifying_def)

lemma sound_handleFrame [sound_intros]: "timer_sound c \<Longrightarrow> sound_res (handleFrame who f c)"
  by (cases "frameType f")
    (auto simp: handleFrame_def on_AuthFail_def on_ServerKeyRegistration_def on_ServerSync_def on_ServerValue_def
      on_ArrayShiftLeft_def on_ArrayShiftRight_def deliver_length_def on_ServerFlushEnd_def flush_topic_def
      on_ServerKeyDelete_def on_ServerReset_def on_Error_def Let_def case_prod_unfold
      intro!: keeps_intros sound_intros split: option.split payload.split)

section \<open>Everything that can happen\<close>

abbreviation whole_sound :: "whole_client \<Rightarrow> bool" where
  "whole_sound w \<equiv> timer_sound (snd w)"

lemma sound_keep_parser [sound_intros]: "sound_res r \<Longrightarrow> keeps whole_sound (\<lambda>_. True) (keep_parser p r)"
  by (auto simp: keep_parser_def keeps_def split: prod.split)

lemma sound_tick: "timer_sound c \<Longrightarrow> hb_tick now (cl_heartbeat c) = (hb, evs) \<Longrightarrow> timer_sound (c\<lparr>cl_heartbeat := hb\<rparr>)"
  by (auto simp: hb_tick_def timer_sound_def split: if_splits)

lemma sound_heartbeat [sound_intros]: "timer_sound c \<Longrightarrow> sound_res (on_heartbeat_tick now jitter c)"
  unfolding on_heartbeat_tick_def sendRaw_def
  by (auto intro!: keeps_intros sound_intros intro: sound_tick split: hb_event.split prod.split)

lemma sound_timer [sound_intros]:
  assumes "timer_sound c"
  shows "sound_res (on_reconnect_timer jitter result c)"
proof -
  let ?r = "and_then (if rc_fire (cl_reconnect c) = [RC_Attempt] then connect Reconnect_Thread jitter result c else fine c [])
    (\<lambda>c. fine (c\<lparr>cl_reconnect := rc_loop_end (cl_reconnect c)\<rparr>) [])"
  have "sound_res ?r" using assms by (auto intro!: keeps_intros sound_intros)
  moreover have "fst (on_reconnect_timer jitter result c) = fst ?r"
    unfolding on_reconnect_timer_def by (simp split: prod.split option.split)
  ultimately show ?thesis by (simp add: keeps_def list_all_iff)
qed

lemma sound_event [sound_intros]: "timer_sound c \<Longrightarrow> sound_res (on_event who now ev c)"
  by (cases ev) (auto intro!: keeps_intros sound_intros simp: timer_sound_def hb_received_def)

lemma sound_message [sound_intros]: "timer_sound c \<Longrightarrow> keeps whole_sound (\<lambda>_. True) (on_message who now data (p, c))"
  unfolding on_message_def by (auto intro!: sound_intros keeps_intros split: prod.split)

lemma sound_step: "whole_sound w \<Longrightarrow> keeps whole_sound (\<lambda>_. True) (client_step now jitter inp w)"
  by (cases w; cases inp)
    (auto simp: client_step_def cl_authorize_def subscribe_def unsubscribe_def cl_topic_def Let_def case_prod_unfold
      intro!: keeps_intros sound_intros split: option.split)

lemma sound_run: "whole_sound w \<Longrightarrow> keeps whole_sound (\<lambda>_. True) (client_run ins w)"
proof (induction ins arbitrary: w)
  case (Cons x ins)
  then show ?case by (cases x) (auto intro!: keeps_intros sound_step)
qed (auto intro!: keeps_intros)

section \<open>After a disconnect\<close>

definition silent :: "client \<Rightarrow> bool" where
  "silent c \<longleftrightarrow> cl_ws c = None \<and> cl_state c = CS_Disconnected
     \<and> hb_thread (cl_heartbeat c) \<noteq> Looping \<and> rc_thread (cl_reconnect c) \<noteq> Looping"

lemma disconnect_silences:
  assumes "timer_sound c" "disconnect who c = fine c' out"
  shows "silent c'" "out = (if cl_ws c = None then [] else [Out_WsClose]) @ [Out_Disconnect]"
proof -
  obtain rc where rc: "rc_stop (who = Reconnect_Thread) (cl_reconnect c) = Inr rc"
    using assms(2) by (cases "rc_stop (who = Reconnect_Thread) (cl_reconnect c)") (auto simp: disconnect_def run_res_def Let_def fine_def)
  then obtain hb where hb: "hb_stop (who = Heartbeat_Thread) (cl_heartbeat c) = Inr hb"
    using assms(2) by (cases "hb_stop (who = Heartbeat_Thread) (cl_heartbeat c)")
      (auto simp: disconnect_def cleanup_def stop_heartbeat_def run_res_def Let_def fine_def)
  have "hb_thread hb \<noteq> Looping"
    using hb assms(1) by (auto simp: hb_stop_def timer_sound_def join_thread_def joinable_def rbind_eq_Inr split: if_splits)
  moreover have "rc_thread rc \<noteq> Looping"
    using rc by (auto simp: rc_stop_def join_thread_def joinable_def rbind_eq_Inr split: if_splits)
  moreover have "disconnect who c = fine (c\<lparr>cl_intentionalDisconnect := True, cl_reconnect := rc, cl_heartbeat := hb, cl_ws := None,
      cl_state := CS_Disconnected\<rparr>) ((if cl_ws c = None then [] else [Out_WsClose]) @ [Out_Disconnect])"
    using rc hb by (cases "cl_ws c") (simp_all add: disconnect_def cleanup_def stop_heartbeat_def run_res_def drop_ws_def)
  ultimately show "silent c'" "out = (if cl_ws c = None then [] else [Out_WsClose]) @ [Out_Disconnect]"
    using assms(2) by (auto simp: silent_def)
qed

lemma silent_step:
  assumes "silent c" "\<forall>result. inp \<noteq> In_Connect result \<and> inp \<noteq> In_Disconnect"
  shows "\<exists>w'. client_step now jitter inp (p, c) = fine w' [] \<and> silent (snd w')"
  using assms
  by (cases inp)
    (auto simp: client_step_def silent_def cl_authorize_def ws_open_def subscribe_def unsubscribe_def sendTopicSync_def
      cl_topic_def on_heartbeat_tick_def hb_tick_def on_reconnect_timer_def rc_fire_def rc_loop_end_def Let_def keep_parser_def fine_def
      and_then_def split: option.split)

lemma silent_run:
  assumes "silent (snd w)" "\<forall>(now, jitter, inp) \<in> set ins. \<forall>result. inp \<noteq> In_Connect result \<and> inp \<noteq> In_Disconnect"
  shows "\<exists>w'. client_run ins w = fine w' [] \<and> silent (snd w')"
  using assms
proof (induction ins arbitrary: w)
  case (Cons x ins)
  obtain now jitter inp p c where x: "x = (now, jitter, inp)" "w = (p, c)" by (cases x; cases w)
  obtain w1 where w1: "client_step now jitter inp w = fine w1 []" "silent (snd w1)"
    using silent_step [of c inp now jitter p] Cons.prems x by auto
  then show ?case using Cons.IH [of w1] Cons.prems(2) x by simp
qed simp

section \<open>Properties\<close>

text \<open>C15. A disconnected client is silent. Whatever has happened to a client before, \<open>disconnect()\<close> on a
  user's thread returns, closes the socket if there is one, and reports the disconnection; from then on,
  until the client is told to connect or disconnect again, nothing that can happen (late events of the
  transport, timers that fire, subscriptions, authorization) makes it send, connect or
  report anything or throw, and it stays disconnected without a socket.\<close>

theorem disconnected_client_is_silent:
  assumes "client_run before (new_whole_client uuid url opt) = (w, out, e)"
    and "\<forall>(now, jitter, inp) \<in> set later. \<forall>result. inp \<noteq> In_Connect result \<and> inp \<noteq> In_Disconnect"
  shows "\<exists>w' w''. client_step t j In_Disconnect w
      = fine w' ((if cl_ws (snd w) = None then [] else [Out_WsClose]) @ [Out_Disconnect])
    \<and> client_run later w' = fine w'' [] \<and> cl_state (snd w'') = CS_Disconnected \<and> cl_ws (snd w'') = None"
proof -
  have "whole_sound (new_whole_client uuid url opt)"
    by (simp add: new_whole_client_def new_client_def timer_sound_def new_heartbeat_def)
  then have sound: "whole_sound w" using keepsD(1) [OF sound_run [of _ before]] assms(1) by (metis fst_conv)
  obtain p c where w: "w = (p, c)" by (cases w)
  have "\<exists>c' out. disconnect Io_Thread c = fine c' out"
    by (auto simp: disconnect_def cleanup_def stop_heartbeat_def run_res_def rc_stop_def hb_stop_def join_thread_def
        drop_ws_def Let_def split: option.split)
  then obtain c' out' where d: "disconnect Io_Thread c = fine c' out'" by blast
  note s = disconnect_silences [OF _ d]
  have "silent (snd (p, c'))" using s(1) sound w by simp
  then obtain w'' where "client_run later (p, c') = fine w'' []" "silent (snd w'')"
    using silent_run assms(2) by blast
  then show ?thesis
    using s(2) sound d by (intro exI [of _ "(p, c')"] exI [of _ w'']) (simp add: w client_step_def silent_def)
qed

text \<open>Disconnected while the server is asked for a topic; the transport's events come too late.\<close>

theorem disconnected_client_is_silent_witness:
  "let (w, _, _) = client_run [(0, 0, In_Subscribe ''chat'' []), (0, 0, In_Connect Connect_Returns), (0, 0, In_Open)]
       (new_whole_client (format_uuid (replicate 16 1)) ''w'' default_reconnect)
   in \<exists>w' w''. client_step 1 0 In_Disconnect w = fine w' [Out_WsClose, Out_Disconnect]
    \<and> client_run [(2, 0, In_Message [0x10, 0x05]), (3, 0, In_Close), (4, 0, In_Heartbeat_Timer),
         (5, 0, In_Reconnect_Timer Connect_Returns), (6, 0, In_Unsubscribe ''chat'')] w' = fine w'' []"
proof -
  let ?w0 = "new_whole_client (format_uuid (replicate 16 1)) ''w'' default_reconnect"
  let ?before = "[(0, 0, In_Subscribe ''chat'' []), (0, 0, In_Connect Connect_Returns), (0, 0, In_Open)] :: (int \<times> u64 \<times> client_input) list"
  let ?later = "[(2, 0, In_Message [0x10, 0x05]), (3, 0, In_Close), (4, 0, In_Heartbeat_Timer),
         (5, 0, In_Reconnect_Timer Connect_Returns), (6, 0, In_Unsubscribe ''chat'')] :: (int \<times> u64 \<times> client_input) list"
  obtain w out e where r: "client_run ?before ?w0 = (w, out, e)" by (cases "client_run ?before ?w0")
  have "cl_ws (snd (fst (client_run ?before ?w0))) = Some True" by code_simp
  then have ws: "cl_ws (snd w) = Some True" by (simp only: r fst_conv)
  have "\<forall>(now, jitter, inp) \<in> set ?later. \<forall>result. inp \<noteq> In_Connect result \<and> inp \<noteq> In_Disconnect" by simp
  from disconnected_client_is_silent [OF r this, of 1 0] ws show ?thesis
    by (simp only: r prod.case Let_def if_False option.distinct append.simps) blast
qed

end
