(* ===== verification/Callbacks.thy ===== *)
theory Callbacks
  imports Client
begin

text \<open>
  The callback lists of \<open>api/client.h\<close>, \<open>api/session.h\<close> and \<open>api/topic_client_handle.h\<close>: registration, the closures that
  unsubscribe, and \<open>emit\<close>. A callback is a name; what it does to the list it is called from, when
  it is called, is a parameter. A range-based loop keeps an iterator and the end of the vector, which
  every \<open>push_back\<close> and every \<open>erase\<close> invalidates: the state of a loop therefore has a flag that
  says whether its iterators are still valid, and going on with invalid ones is undefined.
\<close>

section \<open>Registration\<close>

datatype client_event =
    On_Connect | On_Disconnect | On_Ready | On_Receive | On_Update
  | On_Reconnecting | On_Reconnect | On_Reconnect_Failed | On_Error

type_synonym 'cb callbacks = "client_event \<Rightarrow> 'cb list"

text \<open>The subscription that \<open>addCallback\<close> returns: the list and the position in it.\<close>

type_synonym subscription = "client_event \<times> nat"

definition subscribe_event :: "client_event \<Rightarrow> 'cb \<Rightarrow> 'cb callbacks \<Rightarrow> 'cb callbacks \<times> subscription" where
  "subscribe_event k cb cbs = (let (v, idx) = addCallback (cbs k) cb in (cbs(k := v), (k, idx)))"

definition cancel :: "subscription \<Rightarrow> 'cb callbacks \<Rightarrow> 'cb callbacks" where
  "cancel s cbs = cbs(fst s := unsubscribe_at (cbs (fst s)) (snd s))"

definition cl_onConnect :: "'cb \<Rightarrow> 'cb callbacks \<Rightarrow> 'cb callbacks \<times> subscription" where
  "cl_onConnect = subscribe_event On_Connect"

definition cl_onDisconnect :: "'cb \<Rightarrow> 'cb callbacks \<Rightarrow> 'cb callbacks \<times> subscription" where
  "cl_onDisconnect = subscribe_event On_Disconnect"

definition cl_onReady :: "'cb \<Rightarrow> 'cb callbacks \<Rightarrow> 'cb callbacks \<times> subscription" where
  "cl_onReady = subscribe_event On_Ready"

definition cl_onReceive :: "'cb \<Rightarrow> 'cb callbacks \<Rightarrow> 'cb callbacks \<times> subscription" where
  "cl_onReceive = subscribe_event On_Receive"

definition cl_onUpdate :: "'cb \<Rightarrow> 'cb callbacks \<Rightarrow> 'cb callbacks \<times> subscription" where
  "cl_onUpdate = subscribe_event On_Update"

definition cl_onReconnecting :: "'cb \<Rightarrow> 'cb callbacks \<Rightarrow> 'cb callbacks \<times> subscription" where
  "cl_onReconnecting = subscribe_event On_Reconnecting"

definition cl_onReconnect :: "'cb \<Rightarrow> 'cb callbacks \<Rightarrow> 'cb callbacks \<times> subscription" where
  "cl_onReconnect = subscribe_event On_Reconnect"

definition cl_onReconnectFailed :: "'cb \<Rightarrow> 'cb callbacks \<Rightarrow> 'cb callbacks \<times> subscription" where
  "cl_onReconnectFailed = subscribe_event On_Reconnect_Failed"

definition cl_onError :: "'cb \<Rightarrow> 'cb callbacks \<Rightarrow> 'cb callbacks \<times> subscription" where
  "cl_onError = subscribe_event On_Error"

text \<open>A session only adds callbacks; a topic's handle on the client hands out closures of its own.\<close>

datatype session_event = Session_Ready | Session_Disconnect

definition ss_onReady :: "'cb \<Rightarrow> (session_event \<Rightarrow> 'cb list) \<Rightarrow> session_event \<Rightarrow> 'cb list" where
  "ss_onReady cb cbs = cbs(Session_Ready := cbs Session_Ready @ [cb])"

definition ss_onDisconnect :: "'cb \<Rightarrow> (session_event \<Rightarrow> 'cb list) \<Rightarrow> session_event \<Rightarrow> 'cb list" where
  "ss_onDisconnect cb cbs = cbs(Session_Disconnect := cbs Session_Disconnect @ [cb])"

definition tc_onReceive :: "'cb \<Rightarrow> 'cb list \<Rightarrow> 'cb list \<times> ('cb list \<Rightarrow> 'cb list)" where
  "tc_onReceive cb vec =
     (let vec = vec @ [cb]; idx = length vec - 1
      in (vec, \<lambda>vec. if idx < length vec then take idx vec @ drop (Suc idx) vec else vec))"

section \<open>Emission\<close>

text \<open>What a callback may do to the list that it is called from, or throw.\<close>

datatype 'cb cb_act = CB_Add 'cb | CB_Drop nat | CB_Throw

text \<open>A loop over a vector: the vector, and whether the loop's iterators are still valid.\<close>

record 'cb iterated =
  it_list :: "'cb list"
  it_valid :: bool

fun cb_act_step :: "'cb cb_act \<Rightarrow> 'cb iterated \<Rightarrow> ('cb iterated, 'cb) seq_res" where
  "cb_act_step (CB_Add cb) it = fine \<lparr>it_list = fst (addCallback (it_list it) cb), it_valid = False\<rparr> []"
| "cb_act_step (CB_Drop idx) it =
     (if idx < length (it_list it) then fine \<lparr>it_list = unsubscribe_at (it_list it) idx, it_valid = False\<rparr> []
      else fine it [])"
| "cb_act_step CB_Throw it = (it, [], Some Invalid_Argument)"

text \<open>One call in its \<open>try\<close> block; the output is the callback that was called.\<close>

definition call_one :: "('cb \<Rightarrow> 'cb cb_act list) \<Rightarrow> 'cb \<Rightarrow> 'cb iterated \<Rightarrow> ('cb iterated, 'cb) seq_res" where
  "call_one acts cb it = emit_before [cb] (catching (for_each cb_act_step (acts cb) it))"

text \<open>The elements that are left when the loop is about to go on.\<close>

fun emit_loop :: "('cb \<Rightarrow> 'cb cb_act list) \<Rightarrow> 'cb list \<Rightarrow> 'cb iterated \<Rightarrow> ('cb iterated, 'cb) seq_res" where
  "emit_loop acts [] it = fine it []"
| "emit_loop acts (cb # rest) it =
     and_then (call_one acts cb it) (\<lambda>it.
       if it_valid it then emit_loop acts rest it else (it, [], Some Undefined))"

definition emit :: "('cb \<Rightarrow> 'cb cb_act list) \<Rightarrow> 'cb list \<Rightarrow> ('cb iterated, 'cb) seq_res" where
  "emit acts cbs = emit_loop acts cbs \<lparr>it_list = cbs, it_valid = True\<rparr>"

section \<open>Callbacks that leave the list alone\<close>

text \<open>The calls that come before the callback throws.\<close>

fun leaves_alone :: "nat \<Rightarrow> 'cb cb_act list \<Rightarrow> bool" where
  "leaves_alone n [] = True"
| "leaves_alone n (CB_Add cb # acts) = False"
| "leaves_alone n (CB_Drop idx # acts) = (n \<le> idx \<and> leaves_alone n acts)"
| "leaves_alone n (CB_Throw # acts) = True"

lemma acts_results:
  "\<exists>it'. for_each cb_act_step acts it = (it', [], None) \<or> for_each cb_act_step acts it = (it', [], Some Invalid_Argument)"
proof (induction acts arbitrary: it)
  case (Cons act acts)
  then show ?case by (cases act) auto
qed (simp add: fine_def)

lemma acts_stay_invalid: "\<not> it_valid it \<Longrightarrow> \<not> it_valid (fst (for_each cb_act_step acts it))"
proof (induction acts arbitrary: it)
  case (Cons act acts)
  then show ?case
    by (cases act) auto
qed (simp add: fine_def)

lemma acts_on_list:
  "it_valid it \<Longrightarrow> if leaves_alone (length (it_list it)) acts then fst (for_each cb_act_step acts it) = it
     else \<not> it_valid (fst (for_each cb_act_step acts it))"
proof (induction acts)
  case (Cons act acts)
  then show ?case
    by (cases act) (auto simp: acts_stay_invalid split: if_splits)
qed (simp add: fine_def)

lemma call_one_cases:
  assumes "it_valid it"
  obtains "leaves_alone (length (it_list it)) (acts cb)" "call_one acts cb it = fine it [cb]"
  | it' where "\<not> leaves_alone (length (it_list it)) (acts cb)" "call_one acts cb it = fine it' [cb]" "\<not> it_valid it'"
proof -
  obtain it' where it': "call_one acts cb it = fine it' [cb]" "it' = fst (for_each cb_act_step (acts cb) it)"
    using acts_results [of "acts cb" it] by (auto simp: call_one_def catching_def catchable_def fine_def)
  show ?thesis
    using acts_on_list [OF assms, of "acts cb"] it' that by (auto split: if_splits)
qed

lemma emit_loop_cases:
  assumes "it_valid it"
  shows "list_all (\<lambda>cb. leaves_alone (length (it_list it)) (acts cb)) cbs \<Longrightarrow> emit_loop acts cbs it = fine it cbs"
    and "list_all (\<lambda>cb. leaves_alone (length (it_list it)) (acts cb)) pre \<Longrightarrow> \<not> leaves_alone (length (it_list it)) (acts cb)
      \<Longrightarrow> \<exists>it'. emit_loop acts (pre @ cb # rest) it = (it', pre @ [cb], Some Undefined)"
proof -
  show "emit_loop acts cbs it = fine it cbs"
    if "list_all (\<lambda>cb. leaves_alone (length (it_list it)) (acts cb)) cbs" for cbs
    using that
  proof (induction cbs)
    case (Cons cb cbs)
    then show ?case using assms by (cases rule: call_one_cases [OF assms, of acts cb]) simp_all
  qed simp
  show "\<exists>it'. emit_loop acts (pre @ cb # rest) it = (it', pre @ [cb], Some Undefined)"
    if "list_all (\<lambda>cb. leaves_alone (length (it_list it)) (acts cb)) pre" "\<not> leaves_alone (length (it_list it)) (acts cb)"
    using that(1)
  proof (induction pre)
    case Nil
    then show ?case using that(2) by (cases rule: call_one_cases [OF assms, of acts cb]) auto
  next
    case (Cons x pre)
    then show ?case using assms by (cases rule: call_one_cases [OF assms, of acts x]) auto
  qed
qed

section \<open>Properties\<close>

text \<open>C37. Emission calls every registered callback exactly once, in the order of registration,
  whatever the callbacks throw, and leaves the list as it is, as long as no callback changes the list;
  the first callback that registers another one or unsubscribes one, itself included, makes the loop
  go on with invalid iterators: the callbacks before it and it have been called, and the
  rest is undefined behaviour.\<close>

theorem emission_calls_each_once:
  fixes acts :: "'cb \<Rightarrow> 'cb cb_act list"
  shows "(list_all (\<lambda>cb. leaves_alone (length cbs) (acts cb)) cbs
      \<longleftrightarrow> emit acts cbs = fine \<lparr>it_list = cbs, it_valid = True\<rparr> cbs)
   \<and> (\<forall>pre cb rest. cbs = pre @ cb # rest
        \<and> list_all (\<lambda>cb. leaves_alone (length cbs) (acts cb)) pre \<and> \<not> leaves_alone (length cbs) (acts cb)
      \<longrightarrow> (\<exists>it. emit acts cbs = (it, pre @ [cb], Some Undefined)))"
proof -
  let ?it = "\<lparr>it_list = cbs, it_valid = True\<rparr>"
  let ?ok = "\<lambda>cb. leaves_alone (length cbs) (acts cb)"
  have bad: "\<exists>it. emit acts cbs = (it, pre @ [cb], Some Undefined)"
    if "cbs = pre @ cb # rest" "list_all ?ok pre" "\<not> ?ok cb" for pre cb rest
    using emit_loop_cases(2) [of ?it acts pre cb rest] that by (simp add: emit_def)
  moreover have "emit acts cbs = fine ?it cbs" if "list_all ?ok cbs"
    using emit_loop_cases(1) [of ?it acts cbs] that by (simp add: emit_def)
  moreover have "emit acts cbs \<noteq> fine ?it cbs" if "\<not> list_all ?ok cbs"
  proof -
    have "\<exists>cb \<in> set cbs. \<not> ?ok cb" using that by (simp add: list_all_iff)
    then obtain pre cb rest where "cbs = pre @ cb # rest" "\<not> ?ok cb" "\<forall>cb \<in> set pre. \<not> \<not> ?ok cb"
      using split_list_first_prop [of cbs "\<lambda>cb. \<not> ?ok cb"] by blast
    then show ?thesis using bad [of pre cb rest] by (auto simp: fine_def list_all_iff)
  qed
  ultimately show ?thesis by blast
qed

text \<open>Three callbacks, the second of which unsubscribes itself.\<close>

lemma emission_calls_each_once_witness:
  "(\<exists>it. emit (\<lambda>cb. if cb = 2 then [CB_Drop 1] else if cb = 1 then [CB_Throw] else []) [1 :: nat, 2, 3]
      = (it, [1, 2], Some Undefined))
   \<and> emit (\<lambda>cb. if cb = 1 then [CB_Throw] else []) [1 :: nat, 2, 3]
      = fine \<lparr>it_list = [1, 2, 3], it_valid = True\<rparr> [1, 2, 3]"
proof
  let ?acts = "\<lambda>cb. if cb = 2 then [CB_Drop 1] else if cb = 1 then [CB_Throw] else [] :: nat cb_act list"
  show "\<exists>it. emit ?acts [1, 2, 3] = (it, [1, 2], Some Undefined)"
    using emission_calls_each_once [of "[1, 2, 3]" ?acts] by (auto dest!: spec [of _ "[1]"])
  show "emit (\<lambda>cb. if cb = 1 then [CB_Throw] else []) [1 :: nat, 2, 3]
      = fine \<lparr>it_list = [1, 2, 3], it_valid = True\<rparr> [1, 2, 3]"
    using emission_calls_each_once [of "[1, 2, 3]" "\<lambda>cb. if cb = 1 then [CB_Throw] else [] :: nat cb_act list"] by simp
qed

end
