(* ===== verification/Spec2Isabelle.thy ===== *)
theory Spec2Isabelle
  imports Joining_Auth Server_Typing Server_Index Topic_Joining Returning Late_Client Rate_Limit Client_States Callbacks
begin

text \<open>
  A verification development for \<^bold>\<open>danws\<close>, a C++ implementation of the DanProtocol: a server keeps
  key/value data and mirrors it, over WebSockets, to clients that read it by name. Paths are
  relative to \<open>src/\<close> of the repository; \<open>include/danws/\<close> holds the headers.

  \<^bold>\<open>The program.\<close> A value is set in a store of the server (\<open>api/flat_state.cpp\<close>), which belongs to a
  principal (\<open>api/principal_tx.cpp\<close>), to a session (\<open>api/session.cpp\<close>) or to a topic of a session
  (\<open>api/topic_handle.cpp\<close>). The store answers with frames, which the server (\<open>api/server.cpp\<close>)
  sends to the sessions concerned: encoded with byte stuffing (\<open>protocol/codec.cpp\<close>), the payload by
  its data type (\<open>protocol/serializer.cpp\<close>). The client (\<open>api/client.cpp\<close>) cuts the bytes that
  arrive into frames (\<open>protocol/stream_parser.cpp\<close>), registers keys (\<open>state/key_registry.cpp\<close>),
  stores values and tells its user. Both ends keep the connection alive and the client reconnects
  (\<open>connection/\<close>).

  \<^bold>\<open>Theories\<close>, in the order of the code's layers; each opens with what it models and how.
  \<^item> \<open>Prelude\<close>, \<open>Std_Lib\<close>, \<open>Ieee\<close>, \<open>Sequencing\<close>: machine integers, exceptions (type \<open>res\<close>),
    the containers, the string functions of the standard library, doubles as bit patterns with
    exact rounding, and code that changes a state, emits outputs and may throw (\<open>fine\<close>,
    \<open>and_then\<close>, \<open>for_each\<close>, \<open>catching\<close>) with the rules \<open>keeps_intros\<close> for its invariants.
  \<^item> \<open>Wire_Types\<close>, \<open>Serializer\<close>, \<open>Codec\<close>, \<open>Stream_Parser\<close>: \<open>protocol/\<close>. Every operation of the
    code is the definition of its name. The lemmas lead to the round trips, the unique decodability
    of frames, and the agreement of the incremental parser with the batch decoder. \<open>Wire_Typing\<close>: payloads
    and their data types: what is sent with a type arrives with it, and which values cannot be sent.
  \<^item> \<open>Key_Registry\<close>: \<open>state/\<close>. The locale \<open>two_way_map\<close> is what the client relies on.
  \<^item> \<open>Connection\<close>: \<open>connection/\<close>: the send queue, the heartbeat manager (\<open>hb_...\<close>) and the reconnect
    engine (\<open>rc_...\<close>), with their timer threads.
  \<^item> \<open>Flat_State\<close> (\<open>fs_...\<close>), \<open>Principal_TX\<close> (\<open>pt_...\<close>, \<open>pm_...\<close>), \<open>Topic_Handle\<close> (\<open>tp_...\<close>,
    \<open>th_...\<close>), \<open>Session\<close> (\<open>ss_...\<close>): the server's data. The locale \<open>kv_store\<close> is the contract that
    the three kinds of stores share. The record \<open>mirror\<close> specifies what frames mean to a receiver;
    that the frames of a store keep the mirror equal to its contents is the main result.
  \<^item> \<open>Client\<close>: the client, \<open>client_step\<close> being everything that can happen to it. \<open>Client_Sync\<close>: the
    client refines the mirror (\<open>following\<close>, for a client that does not subscribe meanwhile); together with the
    previous layers, it reads what the server set. \<open>Client_Arrays\<close>: array shifts. \<open>Client_States\<close>: the
    heartbeat's thread and a disconnected client, over everything that can happen. \<open>Client_Faults\<close>:
    exceptions, and where it goes wrong. \<open>Callbacks\<close>: the lists of callbacks and the loop that calls them.
  \<^item> \<open>Server\<close>: the server, \<open>server_step\<close> being everything that can happen to it. \<open>Server_Rules\<close>: the
    locales \<open>handler_rules\<close>, \<open>closing_rules\<close> and \<open>server_rules\<close>, which take an invariant of the
    state and a condition on the outputs from the server's few primitive changes to all its handlers and
    to every run. Three interpretations: \<open>Server_Invariants\<close>, the session tables and the limit of
    connections; \<open>Server_Typing\<close>, the types of the stored values and of the frames sent; \<open>Server_Index\<close>,
    the index of the principals' sessions, so that a value that is set reaches every ready session.
    \<open>Server_Security\<close>: nothing is sent without authorization. \<open>Rate_Limit\<close>: the limit of frames.
    \<open>Server_Faults\<close>: clients that come back, also as somebody else.
  \<^item> \<open>Protocol\<close>: both ends: the identification, and the subscriptions a client describes.
  \<^item> \<open>Server_Data\<close>, \<open>Joining\<close>, \<open>Joining_Auth\<close>: both ends: from the calls of the server's user to what a
    client reads, and the exchange of messages by which a new client gets there, without and with
    authorization. \<open>Topic_Data\<close>: the same for the data of topics, which the handles of a client read.
    \<open>Client_Topics\<close>, \<open>Topic_Joining\<close>: a client subscribes, connects and reads its topics.
    \<open>Returning\<close>: a client loses its connection, reconnects and catches up over what it still holds.
    \<open>Late_Client\<close>: a client joins after keys have been added, and misses them.

  \<^bold>\<open>Conventions.\<close> An object is a record, a method a function from the record to the new record, its
  result and its outputs. Callbacks are outputs, in the order of the calls; what the user's
  callbacks do is a later input (client) or given by the record \<open>env\<close> (server). The network is the
  inputs and outputs. Clock readings, random draws, failures of the transport and the order in
  which hash maps enumerate are arguments or arbitrary. An object that several parts share lives in
  a store under a number. \<open>Undefined\<close> stands for undefined behaviour, \<open>Terminate\<close> for
  \<open>std::terminate\<close>; neither can be caught.

  \<^bold>\<open>Bounds.\<close> The code's own limits are in the theorems: 10000 keys of a registry, 200 bytes of a key
  path, 1048576 bytes of a frame in the parser. Loops are structural recursion or bounded folds, so
  there is no fuel. The id counter of a store is a 32-bit word; the theorems about stores assume
  that it does not wrap around.

  \<^bold>\<open>Not modelled.\<close> The implementations of the transport interfaces (the user's); interleavings finer
  than a whole step of one object, hence data races between the timer threads, the transport's
  thread and the user's; the debug log; memory that leaks (every \<open>InternalSession\<close> is kept alive
  by the send function of its own session); the setters that install one callback in a timer, a parser
  or a principal (what is installed is called directly). \<open>std::pow\<close> is taken as correctly rounded. Frame
  counts and window times of the rate limit are unbounded integers.
\<close>

end
